(* ===== verification/Pulse_Prelude.thy ===== *)
theory Pulse_Prelude
  imports Main "HOL-Library.Word"
begin

text \<open>
  Shared vocabulary of the PulseCore development: the fixed-width integer types of the sources,
  the C++ exceptions and POSIX error numbers the code distinguishes, the collections of rewrite
  rules the component theories fill, and the generic lemmas on words and lists that carry their
  proofs.
\<close>

unbundle bit_operations_syntax

section \<open>Types\<close>

type_synonym byte = "8 word"
type_synonym u16 = "16 word"
type_synonym u32 = "32 word"
type_synonym u64 = "64 word"

text \<open>
  Sizes (\<^verbatim>\<open>std::size_t\<close>, 64 bits on the supported platforms) are natural numbers. Every
  subtraction of the sources on sizes is guarded there, and the guards are part of the model;
  the one comparison against \<^verbatim>\<open>std::numeric_limits<std::size_t>::max()\<close> uses the
  constant below.
\<close>

definition SIZE_MAX :: nat where
  "SIZE_MAX = 2 ^ 64 - 1"

text \<open>\<^verbatim>\<open>std::numeric_limits<std::uint64_t>::max()\<close>.\<close>

definition UINT64_MAX :: u64 where
  "UINT64_MAX = - 1"

text \<open>The POSIX error numbers that the sources test for; every other one is \<open>EOther\<close>.\<close>

datatype errno = EINTR | EAGAIN | EWOULDBLOCK | ECONNRESET | EPIPE | ENOENT | EEXIST | EOther nat

text \<open>
  The exceptions the sources throw. A system-call failure carries the operation's name and the
  error number that \<^verbatim>\<open>strerror\<close> would render.
\<close>

datatype exn =
    InvalidArgument string
  | LogicError string
  | RuntimeError string
  | SyscallError string errno

section \<open>Collections of rewrite rules\<close>

named_theorems const_defs \<open>the numeric constants of the sources\<close>
named_theorems abs_simps \<open>how operations act on the abstraction of their state\<close>
named_theorems inv_intros \<open>operations keep the invariant of their state\<close>

section \<open>Bytes of words\<close>

text \<open>
  Big-endian bytes are cut out of a word by shifting and masking and put together by shifting and
  disjunction. Both sides are compared bit by bit.
\<close>

lemma byte_mask [simp]:
  fixes w :: "'a::len word"
  shows "(ucast (w AND 0xFF) :: byte) = ucast w"
proof -
  have "(0xFF :: 'a word) = mask 8"
    by (simp add: mask_eq_exp_minus_1)
  then have "w AND 0xFF = take_bit 8 w"
    by (simp only: take_bit_eq_mask)
  then show ?thesis
    by (simp only:) (rule bit_word_eqI, auto simp: bit_simps dest: bit_imp_le_length)
qed

lemma byte_high_bit: "8 \<le> n \<Longrightarrow> \<not> bit (b :: byte) n"
  using bit_imp_le_length [of b n] by auto

lemma bit_lane:
  fixes v :: "'a::len word"
  shows "bit (push_bit k (ucast (ucast (drop_bit k v) :: byte)) :: 'a word) n \<longleftrightarrow>
         k \<le> n \<and> n < k + 8 \<and> bit v n"
  by (auto simp: bit_simps dest: bit_imp_le_length)

lemma bit_low_lane:
  fixes v :: "'a::len word"
  shows "bit (ucast (ucast v :: byte) :: 'a word) n \<longleftrightarrow> n < 8 \<and> bit v n"
  using bit_lane [of 0 v n] by simp

lemma cat_bytes_u16:
  fixes v :: u16
  shows "push_bit 8 (ucast (ucast (drop_bit 8 v) :: byte)) OR
         ucast (ucast v :: byte) = v"
    (is "?w = v")
proof (rule bit_word_eqI)
  fix n assume "n < LENGTH(16)"
  then show "bit ?w n = bit v n"
    by (auto simp: bit_or_iff bit_lane bit_low_lane)
qed

lemma cat_bytes_u32:
  fixes v :: u32
  shows "push_bit 24 (ucast (ucast (drop_bit 24 v) :: byte)) OR
         push_bit 16 (ucast (ucast (drop_bit 16 v) :: byte)) OR
         push_bit 8 (ucast (ucast (drop_bit 8 v) :: byte)) OR
         ucast (ucast v :: byte) = v"
    (is "?w = v")
proof (rule bit_word_eqI)
  fix n assume "n < LENGTH(32)"
  then show "bit ?w n = bit v n"
    by (auto simp: bit_or_iff bit_lane bit_low_lane)
qed

lemma cat_bytes_u64:
  fixes v :: u64
  shows "push_bit 56 (ucast (ucast (drop_bit 56 v) :: byte)) OR
         push_bit 48 (ucast (ucast (drop_bit 48 v) :: byte)) OR
         push_bit 40 (ucast (ucast (drop_bit 40 v) :: byte)) OR
         push_bit 32 (ucast (ucast (drop_bit 32 v) :: byte)) OR
         push_bit 24 (ucast (ucast (drop_bit 24 v) :: byte)) OR
         push_bit 16 (ucast (ucast (drop_bit 16 v) :: byte)) OR
         push_bit 8 (ucast (ucast (drop_bit 8 v) :: byte)) OR
         ucast (ucast v :: byte) = v"
    (is "?w = v")
proof (rule bit_word_eqI)
  fix n assume "n < LENGTH(64)"
  then show "bit ?w n = bit v n"
    by (auto simp: bit_or_iff bit_lane bit_low_lane)
qed

lemma cut_bytes_u16:
  fixes b0 b1 :: byte
  shows "(ucast (drop_bit 8 (push_bit 8 (ucast b0) OR ucast b1 :: u16)) :: byte) = b0"
    and "(ucast ((push_bit 8 (ucast b0) OR ucast b1 :: u16)) :: byte) = b1"
  by (rule bit_word_eqI; auto simp: bit_simps byte_high_bit)+

lemma cut_bytes_u32:
  fixes b0 b1 b2 b3 :: byte
  shows "(ucast (drop_bit 24 (push_bit 24 (ucast b0) OR push_bit 16 (ucast b1) OR push_bit 8 (ucast b2) OR ucast b3 :: u32)) :: byte) = b0"
    and "(ucast (drop_bit 16 (push_bit 24 (ucast b0) OR push_bit 16 (ucast b1) OR push_bit 8 (ucast b2) OR ucast b3 :: u32)) :: byte) = b1"
    and "(ucast (drop_bit 8 (push_bit 24 (ucast b0) OR push_bit 16 (ucast b1) OR push_bit 8 (ucast b2) OR ucast b3 :: u32)) :: byte) = b2"
    and "(ucast ((push_bit 24 (ucast b0) OR push_bit 16 (ucast b1) OR push_bit 8 (ucast b2) OR ucast b3 :: u32)) :: byte) = b3"
  by (rule bit_word_eqI; auto simp: bit_simps byte_high_bit)+

lemma cut_bytes_u64:
  fixes b0 b1 b2 b3 b4 b5 b6 b7 :: byte
  shows "(ucast (drop_bit 56 (push_bit 56 (ucast b0) OR push_bit 48 (ucast b1) OR push_bit 40 (ucast b2) OR push_bit 32 (ucast b3) OR push_bit 24 (ucast b4) OR push_bit 16 (ucast b5) OR push_bit 8 (ucast b6) OR ucast b7 :: u64)) :: byte) = b0"
    and "(ucast (drop_bit 48 (push_bit 56 (ucast b0) OR push_bit 48 (ucast b1) OR push_bit 40 (ucast b2) OR push_bit 32 (ucast b3) OR push_bit 24 (ucast b4) OR push_bit 16 (ucast b5) OR push_bit 8 (ucast b6) OR ucast b7 :: u64)) :: byte) = b1"
    and "(ucast (drop_bit 40 (push_bit 56 (ucast b0) OR push_bit 48 (ucast b1) OR push_bit 40 (ucast b2) OR push_bit 32 (ucast b3) OR push_bit 24 (ucast b4) OR push_bit 16 (ucast b5) OR push_bit 8 (ucast b6) OR ucast b7 :: u64)) :: byte) = b2"
    and "(ucast (drop_bit 32 (push_bit 56 (ucast b0) OR push_bit 48 (ucast b1) OR push_bit 40 (ucast b2) OR push_bit 32 (ucast b3) OR push_bit 24 (ucast b4) OR push_bit 16 (ucast b5) OR push_bit 8 (ucast b6) OR ucast b7 :: u64)) :: byte) = b3"
    and "(ucast (drop_bit 24 (push_bit 56 (ucast b0) OR push_bit 48 (ucast b1) OR push_bit 40 (ucast b2) OR push_bit 32 (ucast b3) OR push_bit 24 (ucast b4) OR push_bit 16 (ucast b5) OR push_bit 8 (ucast b6) OR ucast b7 :: u64)) :: byte) = b4"
    and "(ucast (drop_bit 16 (push_bit 56 (ucast b0) OR push_bit 48 (ucast b1) OR push_bit 40 (ucast b2) OR push_bit 32 (ucast b3) OR push_bit 24 (ucast b4) OR push_bit 16 (ucast b5) OR push_bit 8 (ucast b6) OR ucast b7 :: u64)) :: byte) = b5"
    and "(ucast (drop_bit 8 (push_bit 56 (ucast b0) OR push_bit 48 (ucast b1) OR push_bit 40 (ucast b2) OR push_bit 32 (ucast b3) OR push_bit 24 (ucast b4) OR push_bit 16 (ucast b5) OR push_bit 8 (ucast b6) OR ucast b7 :: u64)) :: byte) = b6"
    and "(ucast ((push_bit 56 (ucast b0) OR push_bit 48 (ucast b1) OR push_bit 40 (ucast b2) OR push_bit 32 (ucast b3) OR push_bit 24 (ucast b4) OR push_bit 16 (ucast b5) OR push_bit 8 (ucast b6) OR ucast b7 :: u64)) :: byte) = b7"
  by (rule bit_word_eqI; auto simp: bit_simps byte_high_bit)+

section \<open>Counters\<close>

lemma unat_incr:
  fixes i n :: "'a::len word"
  assumes "i < n"
  shows "unat (i + 1) = Suc (unat i)"
proof -
  have "unat i < unat n" "unat n < 2 ^ LENGTH('a)"
    using assms by (simp_all add: word_less_nat_alt)
  then have "Suc (unat i) < 2 ^ LENGTH('a)"
    by linarith
  then show ?thesis
    by (simp add: unat_word_ariths)
qed

lemma unat_ucast_up:
  fixes w :: "'a::len word"
  assumes "LENGTH('a) \<le> LENGTH('b)"
  shows "unat (ucast w :: 'b::len word) = unat w"
proof -
  have "unat w < 2 ^ LENGTH('b)"
    using assms by (meson numeral_le_iff one_le_numeral order.strict_trans2 power_increasing unsigned_less)
  then show ?thesis
    by (simp add: unsigned_ucast_eq take_bit_nat_eq_self_iff)
qed

lemma unat_of_size: "n \<le> SIZE_MAX \<Longrightarrow> unat (of_nat n :: u64) = n"
  by (simp add: SIZE_MAX_def unat_of_nat)

lemma below_incr:
  assumes "(k :: u64) \<noteq> UINT64_MAX" "j \<le> k"
  shows "j < k + 1"
proof -
  have "k < - 1"
    using assms(1) by (simp add: UINT64_MAX_def word_order.not_eq_extremum)
  from unat_incr [OF this] assms(2) show ?thesis
    by (simp add: word_less_nat_alt word_le_nat_alt)
qed

section \<open>Sums over a list of components\<close>

lemma sum_list_list_update:
  fixes f :: "'a \<Rightarrow> 'b::comm_monoid_add"
  assumes "k < length xs"
  shows "sum_list (map f (xs[k := x])) + f (xs ! k) = sum_list (map f xs) + f x"
  using assms
proof (induction xs arbitrary: k)
  case Nil
  then show ?case by simp
next
  case (Cons y ys)
  then show ?case by (cases k) (auto simp: ac_simps)
qed

end
