(* ===== verification/Loops.thy ===== *)
theory Loops
  imports Pulse_Prelude
begin

text \<open>
  The \<^verbatim>\<open>while (true)\<close> loops of the sources that retry a system call. A loop is given by its
  body: \<open>Inl s\<close> continues with the state \<open>s\<close> and \<open>Inr r\<close> returns \<open>r\<close>. Whether such a loop returns
  depends on the system, so its value is an option and \<open>None\<close> means that it runs for ever; one rule
  gives what a returned value satisfies, another that the loop returns.
\<close>

partial_function (option) iterate :: "('s \<Rightarrow> 's + 'r) \<Rightarrow> 's \<Rightarrow> 'r option" where
  "iterate body s = (case body s of Inl s' \<Rightarrow> iterate body s' | Inr r \<Rightarrow> Some r)"

lemma iterate_continue: "body s = Inl s' \<Longrightarrow> iterate body s = iterate body s'"
  by (subst iterate.simps) simp

lemma iterate_return: "body s = Inr r \<Longrightarrow> iterate body s = Some r"
  by (subst iterate.simps) simp

lemmas iterate_rules = iterate_continue iterate_return

text \<open>Partial correctness: an invariant of the continuing states and what it gives at the return.\<close>

lemma iterate_rule:
  assumes "\<And>s s'. I s \<Longrightarrow> body s = Inl s' \<Longrightarrow> I s'"
    and "\<And>s r. I s \<Longrightarrow> body s = Inr r \<Longrightarrow> Q r"
    and "I s" and ret: "iterate body s = Some r"
  shows "Q r"
proof -
  have "(\<forall>s s'. I s \<longrightarrow> body s = Inl s' \<longrightarrow> I s') \<longrightarrow> (\<forall>s r. I s \<longrightarrow> body s = Inr r \<longrightarrow> Q r) \<longrightarrow>
      I s \<longrightarrow> Q r"
    by (rule iterate.raw_induct [where P = "\<lambda>body s r.
        (\<forall>s s'. I s \<longrightarrow> body s = Inl s' \<longrightarrow> I s') \<longrightarrow> (\<forall>s r. I s \<longrightarrow> body s = Inr r \<longrightarrow> Q r) \<longrightarrow>
        I s \<longrightarrow> Q r", OF _ ret]) (auto split: sum.splits)
  with assms(1-3) show ?thesis by blast
qed

text \<open>
  Relational form: a step relation that every iteration composes with the rest of the loop.
\<close>

lemma iterate_rel:
  assumes "\<And>s s' r. J s \<Longrightarrow> body s = Inl s' \<Longrightarrow> J s' \<and> (R s' r \<longrightarrow> R s r)"
    and "\<And>s r. J s \<Longrightarrow> body s = Inr r \<Longrightarrow> R s r"
    and "J s" and "iterate body s = Some r"
  shows "R s r"
proof (rule iterate_rule [where I = "\<lambda>t. J t \<and> (\<forall>r. R t r \<longrightarrow> R s r)" and Q = "R s" and body = body])
  show "iterate body s = Some r" by fact
qed (use assms(1-3) in blast)+

text \<open>Termination: a well-founded relation that every continuing iteration decreases.\<close>

lemma iterate_returns:
  assumes "wf r" and "\<And>s s'. I s \<Longrightarrow> body s = Inl s' \<Longrightarrow> I s' \<and> (s', s) \<in> r" and "I s"
  shows "\<exists>x. iterate body s = Some x"
  using assms(1,3)
proof (induction s rule: wf_induct_rule)
  case (less s)
  show ?case
  proof (cases "body s")
    case (Inl s')
    with less assms(2) show ?thesis by (auto simp: iterate_continue)
  next
    case (Inr x)
    then show ?thesis by (simp add: iterate_return)
  qed
qed

end
