(* ===== verification/Kernel.thy ===== *)
theory Kernel
  imports Pulse_Prelude
begin

text \<open>
  The operating system as a parameter. The sources call POSIX and Linux functions whose code is not
  part of the repository; a record of functions over an abstract system state \<open>'w\<close> stands for them,
  and every operation that makes a system call takes it as its first argument. What the
  development relies on is stated as named predicates over that record (documented behaviour of
  the calls); theorems carry them as hypotheses. A call that fails returns \<open>Inl\<close> of the error
  number, and \<^verbatim>\<open>recv\<close> returning zero is the empty byte list. The functions are total: a blocking call that never
  comes back has no answer in this model, so a statement that a program returns is about executions in which each
  of its calls does.
\<close>

section \<open>System calls\<close>

text \<open>
  \<^verbatim>\<open>accept4\<close> is given the flags of the sources, \<^verbatim>\<open>accept\<close> none. \<^verbatim>\<open>epoll_wait\<close> takes the capacity of the
  event array and the timeout. \<^verbatim>\<open>read\<close> is only used on an eventfd and a signalfd, whose contents the
  sources do not look at, so it returns the number of bytes; \<^verbatim>\<open>write\<close> is only used to add to an
  eventfd counter.
\<close>

text \<open>
  Socket addresses hold the port in network byte order, as the sources fill them in. A signal set is
  a list of signal numbers; \<^verbatim>\<open>pthread_sigmask\<close> returns the previous mask. \<^verbatim>\<open>inet_pton\<close> gives
  nothing for a string that is not an IPv4 address.
\<close>

datatype socket_flags = SocketPlain | SocketNonblockCloexec

record sockaddr_in =
  sin_addr :: u32
  sin_port :: u16

datatype sigmask_how = SIG_BLOCK | SIG_SETMASK

datatype accept_flags = AcceptPlain | AcceptNonblockCloexec

datatype epoll_op = EPOLL_CTL_ADD | EPOLL_CTL_MOD | EPOLL_CTL_DEL

record epoll_event =
  ev_events :: u32
  ev_data :: u64

record 'w sys =
  sys_recv :: "int \<Rightarrow> nat \<Rightarrow> 'w \<Rightarrow> (errno + byte list) \<times> 'w"
  sys_send :: "int \<Rightarrow> byte list \<Rightarrow> 'w \<Rightarrow> (errno + nat) \<times> 'w"
  sys_getfl :: "int \<Rightarrow> 'w \<Rightarrow> (errno + u32) \<times> 'w"
  sys_setfl :: "int \<Rightarrow> u32 \<Rightarrow> 'w \<Rightarrow> (errno + unit) \<times> 'w"
  sys_close :: "int \<Rightarrow> 'w \<Rightarrow> 'w"
  sys_accept :: "int \<Rightarrow> accept_flags \<Rightarrow> 'w \<Rightarrow> (errno + int) \<times> 'w"
  sys_epoll_ctl :: "int \<Rightarrow> epoll_op \<Rightarrow> int \<Rightarrow> epoll_event option \<Rightarrow> 'w \<Rightarrow> (errno + unit) \<times> 'w"
  sys_epoll_wait :: "int \<Rightarrow> nat \<Rightarrow> nat \<Rightarrow> 'w \<Rightarrow> (errno + epoll_event list) \<times> 'w"
  sys_read :: "int \<Rightarrow> nat \<Rightarrow> 'w \<Rightarrow> (errno + nat) \<times> 'w"
  sys_write_u64 :: "int \<Rightarrow> u64 \<Rightarrow> 'w \<Rightarrow> (errno + nat) \<times> 'w"
  sys_socket :: "socket_flags \<Rightarrow> 'w \<Rightarrow> (errno + int) \<times> 'w"
  sys_reuseaddr :: "int \<Rightarrow> 'w \<Rightarrow> (errno + unit) \<times> 'w"
  sys_bind :: "int \<Rightarrow> sockaddr_in \<Rightarrow> 'w \<Rightarrow> (errno + unit) \<times> 'w"
  sys_listen :: "int \<Rightarrow> nat \<Rightarrow> 'w \<Rightarrow> (errno + unit) \<times> 'w"
  sys_connect :: "int \<Rightarrow> sockaddr_in \<Rightarrow> 'w \<Rightarrow> (errno + unit) \<times> 'w"
  sys_getsockname :: "int \<Rightarrow> 'w \<Rightarrow> (errno + sockaddr_in) \<times> 'w"
  sys_epoll_create1 :: "'w \<Rightarrow> (errno + int) \<times> 'w"
  sys_eventfd :: "'w \<Rightarrow> (errno + int) \<times> 'w"
  sys_signalfd :: "int list \<Rightarrow> 'w \<Rightarrow> (errno + int) \<times> 'w"
  sys_sigmask :: "sigmask_how \<Rightarrow> int list \<Rightarrow> 'w \<Rightarrow> (errno + int list) \<times> 'w"
  lib_sigemptyset :: "errno + int list"
  lib_sigaddset :: "int list \<Rightarrow> int \<Rightarrow> errno + int list"
  lib_inet_pton :: "string \<Rightarrow> u32 option"

text \<open>Closing what a destructor closes (\<^verbatim>\<open>UniqueFd\<close> ignores the result of \<^verbatim>\<open>close\<close>).\<close>

definition close_all :: "'w sys \<Rightarrow> int list \<Rightarrow> 'w \<Rightarrow> 'w" where
  "close_all K fds w = fold (sys_close K) fds w"

section \<open>Documented behaviour\<close>

text \<open>
  \<^verbatim>\<open>recv\<close> on a stream socket hands over, in order, at most the requested number of the bytes
  that the peer's stream still holds for it; a failed call takes none.
\<close>

definition recv_takes_stream :: "'w sys \<Rightarrow> (int \<Rightarrow> 'w \<Rightarrow> byte list) \<Rightarrow> bool" where
  "recv_takes_stream K inbound \<longleftrightarrow>
     (\<forall>fd n w. case sys_recv K fd n w of
        (Inr bs, w') \<Rightarrow> length bs \<le> n \<and> inbound fd w = bs @ inbound fd w'
      | (Inl e, w') \<Rightarrow> inbound fd w' = inbound fd w)"

text \<open>
  \<^verbatim>\<open>send\<close> accepts a prefix of the bytes it is given and appends it to the outgoing stream; a
  failed call sends none.
\<close>

definition send_extends_stream :: "'w sys \<Rightarrow> (int \<Rightarrow> 'w \<Rightarrow> byte list) \<Rightarrow> bool" where
  "send_extends_stream K wire \<longleftrightarrow>
     (\<forall>fd bs w. case sys_send K fd bs w of
        (Inr k, w') \<Rightarrow> k \<le> length bs \<and> wire fd w' = wire fd w @ take k bs
      | (Inl e, w') \<Rightarrow> wire fd w' = wire fd w)"

text \<open>
  Calls on a descriptor are not interrupted by signals for ever: each interruption uses up some
  patience.
\<close>

definition recv_settles :: "'w sys \<Rightarrow> (int \<Rightarrow> 'w \<Rightarrow> nat) \<Rightarrow> bool" where
  "recv_settles K patience \<longleftrightarrow>
     (\<forall>fd n w w'. sys_recv K fd n w = (Inl EINTR, w') \<longrightarrow> patience fd w' < patience fd w)"

definition send_settles :: "'w sys \<Rightarrow> (int \<Rightarrow> 'w \<Rightarrow> nat) \<Rightarrow> bool" where
  "send_settles K patience \<longleftrightarrow>
     (\<forall>fd bs w w'. sys_send K fd bs w = (Inl EINTR, w') \<longrightarrow> patience fd w' < patience fd w)"

definition accept_settles :: "'w sys \<Rightarrow> (int \<Rightarrow> 'w \<Rightarrow> nat) \<Rightarrow> bool" where
  "accept_settles K patience \<longleftrightarrow>
     (\<forall>fd fl w w'. sys_accept K fd fl w = (Inl EINTR, w') \<longrightarrow> patience fd w' < patience fd w)"

text \<open>
  Reading a wake-up descriptor empties it (an eventfd) or removes an entry (a signalfd); only
  finitely many reads succeed or are interrupted before one finds it empty.
\<close>

definition read_settles :: "'w sys \<Rightarrow> (int \<Rightarrow> 'w \<Rightarrow> nat) \<Rightarrow> bool" where
  "read_settles K patience \<longleftrightarrow>
     (\<forall>fd n w r w'. sys_read K fd n w = (r, w') \<and> (r = Inr n \<or> r = Inl EINTR) \<longrightarrow>
        patience fd w' < patience fd w)"

definition write_settles :: "'w sys \<Rightarrow> (int \<Rightarrow> 'w \<Rightarrow> nat) \<Rightarrow> bool" where
  "write_settles K patience \<longleftrightarrow>
     (\<forall>fd n w w'. sys_write_u64 K fd n w = (Inl EINTR, w') \<longrightarrow> patience fd w' < patience fd w)"

lemma recv_takes_streamD:
  assumes "recv_takes_stream K inbound"
  shows "sys_recv K fd n w = (Inr bs, w') \<Longrightarrow> length bs \<le> n \<and> inbound fd w = bs @ inbound fd w'"
    and "sys_recv K fd n w = (Inl e, w') \<Longrightarrow> inbound fd w' = inbound fd w"
  using assms [unfolded recv_takes_stream_def, rule_format, where fd = fd and n = n and w = w]
  by simp_all

lemma send_extends_streamD:
  assumes "send_extends_stream K wire"
  shows "sys_send K fd bs w = (Inr k, w') \<Longrightarrow> k \<le> length bs \<and> wire fd w' = wire fd w @ take k bs"
    and "sys_send K fd bs w = (Inl e, w') \<Longrightarrow> wire fd w' = wire fd w"
  using assms [unfolded send_extends_stream_def, rule_format, where fd = fd and bs = bs and w = w]
  by simp_all

section \<open>A scripted system\<close>

text \<open>
  A concrete system, used to evaluate the model: per descriptor the answers of \<^verbatim>\<open>recv\<close> and
  \<^verbatim>\<open>send\<close> are read off two scripts (a script that has run out answers \<open>EAGAIN\<close>), and the bytes
  accepted by \<^verbatim>\<open>send\<close> are collected; \<^verbatim>\<open>accept\<close>, \<^verbatim>\<open>epoll_wait\<close> and the reads of the wake-up
  descriptors are scripted in the same way. The epoll interest list is kept, and so are the
  descriptors that were closed.
\<close>

record script =
  recv_script :: "int \<Rightarrow> (errno + byte list) list"
  send_script :: "int \<Rightarrow> (errno + nat) list"
  sent_bytes :: "int \<Rightarrow> byte list"
  fl_flags :: u32
  accept_script :: "errno option list"
  wait_script :: "(errno + epoll_event list) list"
  read_script :: "int \<Rightarrow> (errno + nat) list"
  interest :: "int \<rightharpoonup> epoll_event"
  closed_fds :: "int list"
  recv_bytes :: "int \<Rightarrow> byte list"
  open_list :: "int list"
  fd_next :: nat
  create_script :: "errno option list"
  sig_mask :: "int list"

definition empty_script :: script where
  "empty_script = \<lparr>recv_script = (\<lambda>_. []), send_script = (\<lambda>_. []), sent_bytes = (\<lambda>_. []),
     fl_flags = 2, accept_script = [], wait_script = [], read_script = (\<lambda>_. []),
     interest = Map.empty, closed_fds = [],
     recv_bytes = (\<lambda>_. []), open_list = [], fd_next = 3, create_script = [], sig_mask = []\<rparr>"

fun script_recv :: "int \<Rightarrow> nat \<Rightarrow> script \<Rightarrow> (errno + byte list) \<times> script" where
  "script_recv fd n w =
     (case recv_script w fd of
        [] \<Rightarrow> (Inl EAGAIN, w)
      | Inl e # rest \<Rightarrow> (Inl e, w\<lparr>recv_script := (recv_script w)(fd := rest)\<rparr>)
      | Inr bs # rest \<Rightarrow>
          (Inr (take n bs),
           w\<lparr>recv_bytes := (recv_bytes w)(fd := recv_bytes w fd @ take n bs),
             recv_script := (recv_script w)
               (fd := if length bs \<le> n then rest else Inr (drop n bs) # rest)\<rparr>))"

fun script_send :: "int \<Rightarrow> byte list \<Rightarrow> script \<Rightarrow> (errno + nat) \<times> script" where
  "script_send fd bs w =
     (case send_script w fd of
        [] \<Rightarrow> (Inl EAGAIN, w)
      | Inl e # rest \<Rightarrow> (Inl e, w\<lparr>send_script := (send_script w)(fd := rest)\<rparr>)
      | Inr k # rest \<Rightarrow>
          (Inr (min k (length bs)),
           w\<lparr>send_script := (send_script w)(fd := rest),
             sent_bytes := (sent_bytes w)(fd := sent_bytes w fd @ take k bs)\<rparr>))"

text \<open>A new descriptor: the next number, open, with empty streams.\<close>

definition script_open :: "script \<Rightarrow> (errno + int) \<times> script" where
  "script_open w =
     (let fd = int (fd_next w) in
      (Inr fd, w\<lparr>fd_next := Suc (fd_next w), open_list := fd # open_list w,
         sent_bytes := (sent_bytes w)(fd := []), recv_bytes := (recv_bytes w)(fd := [])\<rparr>))"

fun script_accept :: "int \<Rightarrow> accept_flags \<Rightarrow> script \<Rightarrow> (errno + int) \<times> script" where
  "script_accept fd fl w =
     (case accept_script w of
        [] \<Rightarrow> (Inl EAGAIN, w)
      | Some e # rest \<Rightarrow> (Inl e, w\<lparr>accept_script := rest\<rparr>)
      | None # rest \<Rightarrow> script_open (w\<lparr>accept_script := rest\<rparr>))"

fun script_wait :: "int \<Rightarrow> nat \<Rightarrow> nat \<Rightarrow> script \<Rightarrow> (errno + epoll_event list) \<times> script" where
  "script_wait fd n t w =
     (case wait_script w of
        [] \<Rightarrow> (Inr [], w)
      | Inl e # rest \<Rightarrow> (Inl e, w\<lparr>wait_script := rest\<rparr>)
      | Inr es # rest \<Rightarrow> (Inr (take n es), w\<lparr>wait_script := rest\<rparr>))"

fun script_read :: "int \<Rightarrow> nat \<Rightarrow> script \<Rightarrow> (errno + nat) \<times> script" where
  "script_read fd n w =
     (case read_script w fd of
        [] \<Rightarrow> (Inl EAGAIN, w)
      | Inl e # rest \<Rightarrow> (Inl e, w\<lparr>read_script := (read_script w)(fd := rest)\<rparr>)
      | Inr k # rest \<Rightarrow> (Inr (min k n), w\<lparr>read_script := (read_script w)(fd := rest)\<rparr>))"

fun script_ctl ::
  "int \<Rightarrow> epoll_op \<Rightarrow> int \<Rightarrow> epoll_event option \<Rightarrow> script \<Rightarrow> (errno + unit) \<times> script" where
  "script_ctl ep EPOLL_CTL_ADD fd ev w =
     (if interest w fd \<noteq> None then (Inl EEXIST, w) else (Inr (), w\<lparr>interest := (interest w)(fd := ev)\<rparr>))"
| "script_ctl ep EPOLL_CTL_MOD fd ev w =
     (if interest w fd = None then (Inl ENOENT, w) else (Inr (), w\<lparr>interest := (interest w)(fd := ev)\<rparr>))"
| "script_ctl ep EPOLL_CTL_DEL fd ev w =
     (if interest w fd = None then (Inl ENOENT, w) else (Inr (), w\<lparr>interest := (interest w)(fd := None)\<rparr>))"

text \<open>
  Creating calls return the next descriptor number; the script says which creating and set-up
  calls fail.
\<close>

definition script_setup :: "script \<Rightarrow> (errno + unit) \<times> script" where
  "script_setup w =
     (case create_script w of
        Some e # rest \<Rightarrow> (Inl e, w\<lparr>create_script := rest\<rparr>)
      | None # rest \<Rightarrow> (Inr (), w\<lparr>create_script := rest\<rparr>)
      | [] \<Rightarrow> (Inr (), w))"

definition script_create :: "script \<Rightarrow> (errno + int) \<times> script" where
  "script_create w =
     (case script_setup w of
        (Inl e, w) \<Rightarrow> (Inl e, w)
      | (Inr _, w) \<Rightarrow> script_open w)"

definition scripted :: "script sys" where
  "scripted = \<lparr>sys_recv = script_recv, sys_send = script_send,
     sys_getfl = (\<lambda>fd w. (Inr (fl_flags w), w)),
     sys_setfl = (\<lambda>fd fl w. (Inr (), w\<lparr>fl_flags := fl\<rparr>)),
     sys_close = (\<lambda>fd w. w\<lparr>closed_fds := closed_fds w @ [fd],
        open_list := removeAll fd (open_list w), interest := (interest w)(fd := None)\<rparr>),
     sys_accept = script_accept, sys_epoll_ctl = script_ctl, sys_epoll_wait = script_wait,
     sys_read = script_read,
     sys_write_u64 = (\<lambda>fd n w. (Inr 8, w\<lparr>read_script := (read_script w)(fd := [Inr 8])\<rparr>)),
     sys_socket = (\<lambda>_. script_create), sys_reuseaddr = (\<lambda>fd. script_setup),
     sys_bind = (\<lambda>fd a. script_setup), sys_listen = (\<lambda>fd n. script_setup),
     sys_connect = (\<lambda>fd a. script_setup),
     sys_getsockname = (\<lambda>fd w. (Inr \<lparr>sin_addr = 0, sin_port = 0\<rparr>, w)),
     sys_epoll_create1 = script_create, sys_eventfd = script_create,
     sys_signalfd = (\<lambda>_. script_create),
     sys_sigmask = (\<lambda>how ss w. (Inr (sig_mask w), w\<lparr>sig_mask :=
        (case how of SIG_BLOCK \<Rightarrow> ss @ sig_mask w | SIG_SETMASK \<Rightarrow> ss)\<rparr>)),
     lib_sigemptyset = Inr [],
     lib_sigaddset = (\<lambda>ss s. if 0 < s \<and> s \<le> 64 then Inr (s # ss) else Inl (EOther 22)),
     lib_inet_pton = (\<lambda>h. if h = ''127.0.0.1'' then Some 0x7F000001 else None)\<rparr>"

definition script_inbound :: "int \<Rightarrow> script \<Rightarrow> byte list" where
  "script_inbound fd w = concat (map (\<lambda>a. case a of Inl e \<Rightarrow> [] | Inr bs \<Rightarrow> bs) (recv_script w fd))"

definition script_wire :: "int \<Rightarrow> script \<Rightarrow> byte list" where
  "script_wire fd w = sent_bytes w fd"

lemma scripted_recv_takes_stream: "recv_takes_stream scripted script_inbound"
  by (auto simp: recv_takes_stream_def scripted_def script_inbound_def
      split: list.splits sum.splits)

lemma scripted_send_extends_stream: "send_extends_stream scripted script_wire"
  by (auto simp: send_extends_stream_def scripted_def script_wire_def min_def
      split: list.splits sum.splits)

lemma scripted_recv_settles: "recv_settles scripted (\<lambda>fd w. length (recv_script w fd))"
  by (auto simp: recv_settles_def scripted_def split: list.splits sum.splits)

lemma scripted_send_settles: "send_settles scripted (\<lambda>fd w. length (send_script w fd))"
  by (auto simp: send_settles_def scripted_def split: list.splits sum.splits)

lemma scripted_accept_settles: "accept_settles scripted (\<lambda>fd w. length (accept_script w))"
  by (auto simp: accept_settles_def scripted_def script_open_def Let_def split: list.splits option.splits)

lemma scripted_read_settles: "read_settles scripted (\<lambda>fd w. length (read_script w fd))"
  by (auto simp: read_settles_def scripted_def split: list.splits sum.splits)

lemma scripted_write_settles: "write_settles scripted (\<lambda>fd w. 0)"
  by (auto simp: write_settles_def scripted_def)

end
