(* ===== verification/Effects.thy ===== *)
theory Effects
  imports Loops Kernel
begin

text \<open>
  Programs with state, exceptions and loops that may not return, for the code that threads the
  reactor's state through many calls. A program takes a state and returns the exception or the
  result and the new state; \<open>None\<close> means that it does not return. Weakest preconditions \<open>wp\<close> demand
  that the program returns, and one rule per construct computes them.
\<close>

section \<open>Programs\<close>

type_synonym ('s, 'a) io = "'s \<Rightarrow> ((exn + 'a) \<times> 's) option"

definition ret :: "'a \<Rightarrow> ('s, 'a) io" where
  "ret x s = Some (Inr x, s)"

definition throw :: "exn \<Rightarrow> ('s, 'a) io" where
  "throw e s = Some (Inl e, s)"

definition andthen :: "('s, 'a) io \<Rightarrow> ('a \<Rightarrow> ('s, 'b) io) \<Rightarrow> ('s, 'b) io" where
  "andthen m f s =
     (case m s of
        None \<Rightarrow> None
      | Some (Inl e, s') \<Rightarrow> Some (Inl e, s')
      | Some (Inr x, s') \<Rightarrow> f x s')"

definition seq :: "('s, unit) io \<Rightarrow> ('s, 'b) io \<Rightarrow> ('s, 'b) io" where
  "seq m k = andthen m (\<lambda>_. k)"

definition catch :: "('s, 'a) io \<Rightarrow> (exn \<Rightarrow> ('s, 'a) io) \<Rightarrow> ('s, 'a) io" where
  "catch m h s =
     (case m s of
        None \<Rightarrow> None
      | Some (Inl e, s') \<Rightarrow> h e s'
      | Some (Inr x, s') \<Rightarrow> Some (Inr x, s'))"

text \<open>Leaving a scope by an exception runs the destructors of the objects built in it.\<close>

definition unwinding :: "('s, unit) io \<Rightarrow> ('s, 'a) io \<Rightarrow> ('s, 'a) io" where
  "unwinding cleanup m = catch m (\<lambda>e. seq cleanup (throw e))"

definition peek :: "('s \<Rightarrow> 'a) \<Rightarrow> ('s, 'a) io" where
  "peek f s = Some (Inr (f s), s)"

definition modify :: "('s \<Rightarrow> 's) \<Rightarrow> ('s, unit) io" where
  "modify f s = Some (Inr (), f s)"

text \<open>A pure step that yields a result, as a system call does.\<close>

definition act :: "('s \<Rightarrow> 'a \<times> 's) \<Rightarrow> ('s, 'a) io" where
  "act f s = (case f s of (x, s') \<Rightarrow> Some (Inr x, s'))"

definition unless :: "bool \<Rightarrow> ('s, unit) io \<Rightarrow> ('s, unit) io" where
  "unless b m = (if b then ret () else m)"

primrec for_each :: "('a \<Rightarrow> ('s, unit) io) \<Rightarrow> 'a list \<Rightarrow> ('s, unit) io" where
  "for_each f [] = ret ()"
| "for_each f (x # xs) = seq (f x) (for_each f xs)"

text \<open>A loop with a local variable: \<open>Inl\<close> goes round again, \<open>Inr\<close> leaves it.\<close>

definition loop_body ::
  "('x \<Rightarrow> ('s, 'x + 'a) io) \<Rightarrow> 'x \<times> 's \<Rightarrow> 'x \<times> 's + ((exn + 'a) \<times> 's) option" where
  "loop_body body = (\<lambda>(x, s).
     case body x s of
       None \<Rightarrow> Inr None
     | Some (Inl e, s') \<Rightarrow> Inr (Some (Inl e, s'))
     | Some (Inr (Inl x'), s') \<Rightarrow> Inl (x', s')
     | Some (Inr (Inr y), s') \<Rightarrow> Inr (Some (Inr y, s')))"

definition loop :: "('x \<Rightarrow> ('s, 'x + 'a) io) \<Rightarrow> 'x \<Rightarrow> ('s, 'a) io" where
  "loop body x s = (case iterate (loop_body body) (x, s) of None \<Rightarrow> None | Some r \<Rightarrow> r)"

text \<open>A program on the second component of a state.\<close>

definition on_world :: "('w, 'a) io \<Rightarrow> ('v \<times> 'w, 'a) io" where
  "on_world m = (\<lambda>(v, w). map_option (\<lambda>(r, w'). (r, (v, w'))) (m w))"

section \<open>Weakest preconditions\<close>

definition wp :: "('s, 'a) io \<Rightarrow> ('a \<Rightarrow> 's \<Rightarrow> bool) \<Rightarrow> (exn \<Rightarrow> 's \<Rightarrow> bool) \<Rightarrow> 's \<Rightarrow> bool" where
  "wp m Q E s =
     (case m s of None \<Rightarrow> False | Some (Inl e, s') \<Rightarrow> E e s' | Some (Inr x, s') \<Rightarrow> Q x s')"

named_theorems wp_eqs \<open>weakest preconditions of the program constructs\<close>

lemma wp_ret [wp_eqs]: "wp (ret x) Q E = Q x"
  by (simp add: fun_eq_iff wp_def ret_def)

lemma wp_throw [wp_eqs]: "wp (throw e) Q E = E e"
  by (simp add: fun_eq_iff wp_def throw_def)

lemma wp_andthen [wp_eqs]: "wp (andthen m f) Q E = wp m (\<lambda>x. wp (f x) Q E) E"
  by (auto simp: fun_eq_iff wp_def andthen_def split: option.splits sum.splits)

lemma wp_seq [wp_eqs]: "wp (seq m k) Q E = wp m (\<lambda>_. wp k Q E) E"
  by (simp add: seq_def wp_eqs)

lemma wp_catch [wp_eqs]: "wp (catch m h) Q E = wp m Q (\<lambda>e. wp (h e) Q E)"
  by (auto simp: fun_eq_iff wp_def catch_def split: option.splits sum.splits)

lemma wp_unwinding [wp_eqs]: "wp (unwinding c m) Q E = wp m Q (\<lambda>e. wp c (\<lambda>_. E e) E)"
  by (simp add: unwinding_def wp_eqs)

lemma wp_peek [wp_eqs]: "wp (peek f) Q E = (\<lambda>s. Q (f s) s)"
  by (simp add: fun_eq_iff wp_def peek_def)

lemma wp_modify [wp_eqs]: "wp (modify f) Q E = (\<lambda>s. Q () (f s))"
  by (simp add: fun_eq_iff wp_def modify_def)

lemma wp_act [wp_eqs]: "wp (act f) Q E = (\<lambda>s. case f s of (x, s') \<Rightarrow> Q x s')"
  by (simp add: fun_eq_iff wp_def act_def split: prod.splits)

lemma wp_unless [wp_eqs]: "wp (unless b m) Q E = (if b then Q () else wp m Q E)"
  by (simp add: unless_def wp_eqs)

lemma wp_if [wp_eqs]: "wp (if b then m else k) Q E = (if b then wp m Q E else wp k Q E)"
  by simp

lemma wp_case_option [wp_eqs]:
  "wp (case v of None \<Rightarrow> m | Some x \<Rightarrow> f x) Q E = (case v of None \<Rightarrow> wp m Q E | Some x \<Rightarrow> wp (f x) Q E)"
  by (simp split: option.splits)

lemma wp_case_sum [wp_eqs]:
  "wp (case v of Inl x \<Rightarrow> f x | Inr y \<Rightarrow> g y) Q E = (case v of Inl x \<Rightarrow> wp (f x) Q E | Inr y \<Rightarrow> wp (g y) Q E)"
  by (simp split: sum.splits)

lemma wp_on_world [wp_eqs]:
  "wp (on_world m) Q E (v, w) = wp m (\<lambda>x w'. Q x (v, w')) (\<lambda>e w'. E e (v, w')) w"
  by (auto simp: wp_def on_world_def split: option.splits sum.splits)

lemma wp_cond: "(b \<Longrightarrow> wp m Q E s) \<Longrightarrow> (\<not> b \<Longrightarrow> wp k Q E s) \<Longrightarrow> wp (if b then m else k) Q E s"
  by simp

lemma wp_mono:
  assumes "wp m Q' E' s" "\<And>x s'. Q' x s' \<Longrightarrow> Q x s'" "\<And>e s'. E' e s' \<Longrightarrow> E e s'"
  shows "wp m Q E s"
  using assms by (auto simp: wp_def split: option.splits sum.splits)

lemma wp_conj:
  assumes "wp m Q1 E1 s" "wp m Q2 E2 s"
  shows "wp m (\<lambda>x s. Q1 x s \<and> Q2 x s) (\<lambda>e s. E1 e s \<and> E2 e s) s"
  using assms by (auto simp: wp_def split: option.splits sum.splits)

lemma wpD: "wp m Q E s \<Longrightarrow> m s = Some (Inr x, s') \<Longrightarrow> Q x s'"
  "wp m Q E s \<Longrightarrow> m s = Some (Inl e, s') \<Longrightarrow> E e s'"
  by (simp_all add: wp_def)

lemma wp_returns: "wp m Q E s \<Longrightarrow> \<exists>r s'. m s = Some (r, s')"
  by (auto simp: wp_def split: option.splits)

lemma wp_no_throw:
  assumes "wp m Q (\<lambda>_ _. False) s"
  obtains x s' where "m s = Some (Inr x, s')" "Q x s'"
proof -
  obtain r s' where m: "m s = Some (r, s')" using wp_returns [OF assms] by blast
  with assms that show thesis by (cases r) (auto simp: wp_def)
qed

lemma wp_for_each:
  assumes "\<And>x s. x \<in> set xs \<Longrightarrow> I s \<Longrightarrow> wp (f x) (\<lambda>_. I) E s" "I s"
  shows "wp (for_each f xs) (\<lambda>_. I) E s"
  using assms
proof (induction xs arbitrary: s)
  case Nil
  then show ?case by (simp add: wp_eqs)
next
  case (Cons x xs)
  have "wp (f x) (\<lambda>_. I) E s"
    using Cons.prems by simp
  then have "wp (f x) (\<lambda>_. wp (for_each f xs) (\<lambda>_. I) E) E s"
    by (rule wp_mono) (use Cons in auto)
  then show ?case by (simp add: wp_eqs)
qed

text \<open>With an invariant on the elements that have been handled.\<close>

lemma wp_for_each_prefix:
  assumes "\<And>ys x zs s. xs = ys @ x # zs \<Longrightarrow> I ys s \<Longrightarrow> wp (f x) (\<lambda>_. I (ys @ [x])) E s" "I [] s"
  shows "wp (for_each f xs) (\<lambda>_. I xs) E s"
proof -
  have "wp (for_each f zs) (\<lambda>_. I (ys @ zs)) E s" if "xs = ys @ zs" "I ys s" for ys zs s
    using that
  proof (induction zs arbitrary: ys s)
    case Nil
    then show ?case by (simp add: wp_eqs)
  next
    case (Cons x zs)
    then show ?case
      using wp_mono [OF assms(1) [OF Cons.prems]] Cons.IH [of "ys @ [x]"] by (simp add: wp_eqs)
  qed
  from this [of "[]" xs s] assms(2) show ?thesis by simp
qed

text \<open>
  Loops: an invariant on the local variable and the state, and a well-founded relation that each
  round decreases.
\<close>

lemma wp_loop:
  assumes "wf R"
    and "\<And>x s. I x s \<Longrightarrow>
      wp (body x) (\<lambda>y s'. case y of Inl x' \<Rightarrow> I x' s' \<and> ((x', s'), (x, s)) \<in> R | Inr z \<Rightarrow> Q z s') E s"
    and "I x s"
  shows "wp (loop body x) Q E s"
proof -
  have round: "case body x s of None \<Rightarrow> False
      | Some (Inl e, s') \<Rightarrow> E e s'
      | Some (Inr (Inl x'), s') \<Rightarrow> I x' s' \<and> ((x', s'), (x, s)) \<in> R
      | Some (Inr (Inr z), s') \<Rightarrow> Q z s'" if "I x s" for x s
    using assms(2) [OF that] by (auto simp: wp_def split: option.splits sum.splits)
  let ?I = "\<lambda>(x, s). I x s"
  have "\<exists>r. iterate (loop_body body) (x, s) = Some r"
  proof (rule iterate_returns [OF assms(1), where I = ?I])
    fix t t'
    assume "?I t" "loop_body body t = Inl t'"
    then show "?I t' \<and> (t', t) \<in> R"
      using round [of "fst t" "snd t"]
      by (auto simp: loop_body_def split: prod.splits option.splits sum.splits)
  qed (use assms(3) in simp)
  then obtain r where ret: "iterate (loop_body body) (x, s) = Some r" ..
  have "\<exists>y s'. r = Some (y, s') \<and> (case y of Inl e \<Rightarrow> E e s' | Inr z \<Rightarrow> Q z s')"
  proof (rule iterate_rule [where I = ?I and body = "loop_body body" and
        Q = "\<lambda>r. \<exists>y s'. r = Some (y, s') \<and> (case y of Inl e \<Rightarrow> E e s' | Inr z \<Rightarrow> Q z s')", OF _ _ _ ret])
    fix t t'
    assume "?I t" "loop_body body t = Inl t'"
    then show "?I t'"
      using round [of "fst t" "snd t"]
      by (auto simp: loop_body_def split: prod.splits option.splits sum.splits)
  next
    fix t r
    assume "?I t" "loop_body body t = Inr r"
    then show "\<exists>y s'. r = Some (y, s') \<and> (case y of Inl e \<Rightarrow> E e s' | Inr z \<Rightarrow> Q z s')"
      using round [of "fst t" "snd t"]
      by (auto simp: loop_body_def split: prod.splits option.splits sum.splits)
  qed (use assms(3) in simp)
  with ret show ?thesis
    by (auto simp: wp_def loop_def)
qed

text \<open>Partial correctness of loops that may run for ever.\<close>

lemma loop_partial:
  assumes "\<And>x s. I x s \<Longrightarrow> wp (body x) (\<lambda>y s'. case y of Inl x' \<Rightarrow> I x' s' | Inr z \<Rightarrow> Q z s') E s"
    and "I x s" "loop body x s = Some (r, s')"
  shows "case r of Inl e \<Rightarrow> E e s' | Inr z \<Rightarrow> Q z s'"
proof -
  obtain r0 where it: "iterate (loop_body body) (x, s) = Some r0" "r0 = Some (r, s')"
    using assms(3) by (auto simp: loop_def split: option.splits)
  have "case r0 of None \<Rightarrow> True | Some (r, s') \<Rightarrow> (case r of Inl e \<Rightarrow> E e s' | Inr z \<Rightarrow> Q z s')"
  proof (rule iterate_rule [where I = "\<lambda>(x, s). I x s" and body = "loop_body body", OF _ _ _ it(1)])
    fix t t' assume "case t of (x, s) \<Rightarrow> I x s" "loop_body body t = Inl t'"
    then show "case t' of (x, s) \<Rightarrow> I x s"
      using assms(1) [of "fst t" "snd t"]
      by (auto simp: loop_body_def wp_def split: prod.splits option.splits sum.splits)
  next
    fix t r assume "case t of (x, s) \<Rightarrow> I x s" "loop_body body t = Inr r"
    then show "case r of None \<Rightarrow> True | Some (r, s') \<Rightarrow> (case r of Inl e \<Rightarrow> E e s' | Inr z \<Rightarrow> Q z s')"
      using assms(1) [of "fst t" "snd t"]
      by (auto simp: loop_body_def wp_def split: prod.splits option.splits sum.splits)
  qed (use assms(2) in simp)
  with it show ?thesis by simp
qed

section \<open>Frames\<close>

text \<open>Predicates that a program keeps, whether it returns a value or throws.\<close>

definition preserves :: "('s \<Rightarrow> bool) \<Rightarrow> ('s, 'a) io \<Rightarrow> bool" where
  "preserves I p \<longleftrightarrow> (\<forall>s r s'. I s \<longrightarrow> p s = Some (r, s') \<longrightarrow> I s')"

named_theorems preserve_intros \<open>constructs that preserve a predicate\<close>

lemma preservesI: "(\<And>s r s'. I s \<Longrightarrow> p s = Some (r, s') \<Longrightarrow> I s') \<Longrightarrow> preserves I p"
  unfolding preserves_def by blast

lemma preservesD: "preserves I p \<Longrightarrow> p s = Some (r, s') \<Longrightarrow> I s \<Longrightarrow> I s'"
  unfolding preserves_def by blast

lemma andthen_cases:
  assumes "andthen p f s = Some (r, s')"
  obtains (threw) e where "p s = Some (Inl e, s')" "r = Inl e"
  | (went_on) x s1 where "p s = Some (Inr x, s1)" "f x s1 = Some (r, s')"
  using assms by (auto simp: andthen_def split: option.splits sum.splits prod.splits)

lemma preserves_basic [preserve_intros]:
  "preserves I (ret x)" "preserves I (throw e)" "preserves I (peek f)"
  by (simp_all add: preserves_def ret_def throw_def peek_def)

lemma preserves_andthen [preserve_intros]:
  assumes p: "preserves I p" and f: "\<And>x. preserves I (f x)"
  shows "preserves I (andthen p f)"
proof (rule preservesI)
  fix s r s' assume "I s" "andthen p f s = Some (r, s')"
  then show "I s'"
    using preservesD [OF p, of s] preservesD [OF f]
    by (auto simp: andthen_def split: option.splits sum.splits)
qed

lemma preserves_seq [preserve_intros]: "preserves I p \<Longrightarrow> preserves I q \<Longrightarrow> preserves I (seq p q)"
  unfolding seq_def by (rule preserves_andthen)

lemma preserves_catch [preserve_intros]:
  assumes p: "preserves I p" and f: "\<And>e. preserves I (f e)"
  shows "preserves I (catch p f)"
proof (rule preservesI)
  fix s r s' assume "I s" "catch p f s = Some (r, s')"
  then show "I s'"
    using preservesD [OF p, of s] preservesD [OF f]
    by (auto simp: catch_def split: option.splits sum.splits)
qed

lemma preserves_unless [preserve_intros]: "preserves I p \<Longrightarrow> preserves I (unless b p)"
  by (simp add: unless_def preserves_basic)

lemma preserves_cases [preserve_intros]:
  "preserves I p \<Longrightarrow> preserves I q \<Longrightarrow> preserves I (if b then p else q)"
  "preserves I p \<Longrightarrow> (\<And>x. preserves I (f x)) \<Longrightarrow> preserves I (case v of None \<Rightarrow> p | Some x \<Rightarrow> f x)"
  "(\<And>x. preserves I (g x)) \<Longrightarrow> (\<And>y. preserves I (f' y)) \<Longrightarrow> preserves I (case t of Inl x \<Rightarrow> g x | Inr y \<Rightarrow> f' y)"
  "preserves I p \<Longrightarrow> (\<And>x xs. preserves I (k x xs)) \<Longrightarrow> preserves I (case l of [] \<Rightarrow> p | x # xs \<Rightarrow> k x xs)"
  "(\<And>a b. preserves I (h a b)) \<Longrightarrow> preserves I (case ab of (a, b) \<Rightarrow> h a b)"
  by (auto split: option.splits sum.splits list.splits prod.splits)

lemma preserves_loop [preserve_intros]:
  assumes "\<And>x. preserves I (body x)"
  shows "preserves I (loop body x)"
proof (rule preservesI)
  fix s r s' assume "I s" "loop body x s = Some (r, s')"
  then have it: "iterate (loop_body body) (x, s) = Some (Some (r, s'))"
    by (simp add: loop_def split: option.splits)
  have "case Some (r, s') of None \<Rightarrow> True | Some (r, s') \<Rightarrow> I s'"
  proof (rule iterate_rule [where I = "\<lambda>(x, s). I s" and body = "loop_body body", OF _ _ _ it])
    fix t t' assume "case t of (x, s) \<Rightarrow> I s" "loop_body body t = Inl t'"
    then show "case t' of (x, s) \<Rightarrow> I s"
      using preservesD [OF assms, of "fst t" "snd t"]
      by (auto simp: loop_body_def split: prod.splits option.splits sum.splits)
  next
    fix t r assume "case t of (x, s) \<Rightarrow> I s" "loop_body body t = Inr r"
    then show "case r of None \<Rightarrow> True | Some (r, s') \<Rightarrow> I s'"
      using preservesD [OF assms, of "fst t" "snd t"]
      by (auto simp: loop_body_def split: prod.splits option.splits sum.splits)
  qed (use \<open>I s\<close> in simp)
  then show "I s'" by simp
qed

lemma preserves_for_each [preserve_intros]: "(\<And>x. preserves I (f x)) \<Longrightarrow> preserves I (for_each f xs)"
  by (induction xs) (auto intro: preserve_intros)

section \<open>Exceptions\<close>

text \<open>Which exceptions can leave a program.\<close>

definition throws_only :: "(exn \<Rightarrow> bool) \<Rightarrow> ('s, 'a) io \<Rightarrow> bool" where
  "throws_only P p \<longleftrightarrow> (\<forall>s e s'. p s = Some (Inl e, s') \<longrightarrow> P e)"

named_theorems throw_intros \<open>constructs that throw only certain exceptions\<close>

lemma throws_onlyI: "(\<And>s e s'. p s = Some (Inl e, s') \<Longrightarrow> P e) \<Longrightarrow> throws_only P p"
  unfolding throws_only_def by blast

lemma throws_onlyD: "throws_only P p \<Longrightarrow> p s = Some (Inl e, s') \<Longrightarrow> P e"
  unfolding throws_only_def by blast

lemma throws_basic [throw_intros]:
  "throws_only P (ret x)" "throws_only P (peek f)" "throws_only P (modify g)" "throws_only P (act h)"
  by (simp_all add: throws_only_def ret_def peek_def modify_def act_def split: prod.splits)

lemma throws_throw [throw_intros]: "P e \<Longrightarrow> throws_only P (throw e)"
  by (simp add: throws_only_def throw_def)

lemma throws_andthen [throw_intros]:
  assumes "throws_only P p" "\<And>x. throws_only P (f x)"
  shows "throws_only P (andthen p f)"
proof (rule throws_onlyI)
  fix s e s' assume "andthen p f s = Some (Inl e, s')"
  then show "P e"
    by (cases rule: andthen_cases) (use assms in \<open>auto dest: throws_onlyD\<close>)
qed

lemma throws_seq [throw_intros]: "throws_only P p \<Longrightarrow> throws_only P q \<Longrightarrow> throws_only P (seq p q)"
  unfolding seq_def by (rule throws_andthen)

lemma throws_unwinding [throw_intros]:
  assumes "throws_only P p" "throws_only P c"
  shows "throws_only P (unwinding c p)"
proof (rule throws_onlyI)
  fix s e s' assume "unwinding c p s = Some (Inl e, s')"
  then show "P e"
    by (auto simp: unwinding_def catch_def seq_def andthen_def throw_def split: option.splits sum.splits)
      (erule throws_onlyD [OF assms(2)], erule throws_onlyD [OF assms(1)])
qed

lemma throws_catch [throw_intros]:
  assumes "\<And>e. throws_only P (h e)"
  shows "throws_only P (catch p h)"
  by (rule throws_onlyI) (auto simp: catch_def split: option.splits sum.splits elim: throws_onlyD [OF assms])

lemma throws_on_world [throw_intros]: "throws_only P p \<Longrightarrow> throws_only P (on_world p)"
  by (auto simp: throws_only_def on_world_def)

lemma throws_cases [throw_intros]:
  "throws_only P p \<Longrightarrow> throws_only P q \<Longrightarrow> throws_only P (if b then p else q)"
  "(\<And>x. throws_only P (g x)) \<Longrightarrow> (\<And>y. throws_only P (f y)) \<Longrightarrow> throws_only P (case t of Inl x \<Rightarrow> g x | Inr y \<Rightarrow> f y)"
  "(\<And>a b. throws_only P (h a b)) \<Longrightarrow> throws_only P (case ab of (a, b) \<Rightarrow> h a b)"
  by (auto split: sum.splits prod.splits)

end
