(* ===== verification/Framing.thy ===== *)
theory Framing
  imports Pulse_Prelude
begin

text \<open>
  What a stream client may rely on when it cuts frames off the front of a byte stream: the
  interface \<open>framing\<close> of a frame codec, and the client's lemmas. A decoder verdict is \<open>Inl e\<close>
  (malformed), \<open>Inr None\<close> (more bytes are needed) or \<open>Inr (Some (m, n))\<close> (a message that occupies
  the first \<open>n\<close> bytes). The reference parser \<open>parse_stream\<close> cuts off frames until the verdict is
  one of the first two.
\<close>

section \<open>The reference parser\<close>

type_synonym ('m, 'e) verdict = "'e + ('m \<times> nat) option"

function parse_stream ::
  "('b list \<Rightarrow> ('m, 'e) verdict) \<Rightarrow> 'b list \<Rightarrow> 'm list \<times> 'e option \<times> 'b list" where
  "parse_stream dec bs =
     (case dec bs of
        Inl e \<Rightarrow> ([], Some e, bs)
      | Inr None \<Rightarrow> ([], None, bs)
      | Inr (Some (m, n)) \<Rightarrow>
          if 0 < n \<and> n \<le> length bs
          then let (ms, e, rest) = parse_stream dec (drop n bs) in (m # ms, e, rest)
          else ([], None, bs))"
  by pat_completeness auto
termination
  by (relation "measure (\<lambda>(dec, bs). length bs)") auto

declare parse_stream.simps [simp del]

text \<open>Feeding a stream chunk by chunk, keeping the unparsed rest between chunks.\<close>

fun parse_chunks ::
  "('b list \<Rightarrow> ('m, 'e) verdict) \<Rightarrow> 'b list \<Rightarrow> 'b list list \<Rightarrow> 'm list \<times> 'e option \<times> 'b list" where
  "parse_chunks dec rest [] = ([], None, rest)"
| "parse_chunks dec rest (c # cs) =
     (case parse_stream dec (rest @ c) of
        (ms, Some e, r) \<Rightarrow> (ms, Some e, r @ concat cs)
      | (ms, None, r) \<Rightarrow>
          (case parse_chunks dec r cs of (ms', e, r') \<Rightarrow> (ms @ ms', e, r')))"

section \<open>The interface\<close>

locale framing =
  fixes enc :: "'m \<Rightarrow> 'b list option"
    and dec :: "'b list \<Rightarrow> ('m, 'e) verdict"
  assumes dec_nil: "dec [] = Inr None"
    and dec_bounds: "dec bs = Inr (Some (m, n)) \<Longrightarrow> 0 < n \<and> n \<le> length bs"
    and dec_stable: "dec bs \<noteq> Inr None \<Longrightarrow> dec (bs @ cs) = dec bs"
    and dec_enc: "enc m = Some f \<Longrightarrow> dec (f @ cs) = Inr (Some (m, length f))"
    and enc_dec: "dec bs = Inr (Some (m, n)) \<Longrightarrow> enc m = Some (take n bs)"
begin

lemma parse_error: "dec bs = Inl e \<Longrightarrow> parse_stream dec bs = ([], Some e, bs)"
  by (simp add: parse_stream.simps)

lemma parse_need_more: "dec bs = Inr None \<Longrightarrow> parse_stream dec bs = ([], None, bs)"
  by (simp add: parse_stream.simps)

lemma parse_frame:
  assumes "dec bs = Inr (Some (m, n))"
  shows "parse_stream dec bs = (case parse_stream dec (drop n bs) of (ms, e, r) \<Rightarrow> (m # ms, e, r))"
  using assms dec_bounds [OF assms] by (subst parse_stream.simps) simp

lemmas parse_rules = parse_error parse_need_more parse_frame

lemma parse_induct [case_names malformed need_more frame]:
  assumes "\<And>bs e. dec bs = Inl e \<Longrightarrow> P bs"
    and "\<And>bs. dec bs = Inr None \<Longrightarrow> P bs"
    and "\<And>bs m n. dec bs = Inr (Some (m, n)) \<Longrightarrow> 0 < n \<Longrightarrow> n \<le> length bs \<Longrightarrow> P (drop n bs) \<Longrightarrow> P bs"
  shows "P bs"
proof (induction bs rule: length_induct)
  case (1 bs)
  consider e where "dec bs = Inl e" | "dec bs = Inr None" | m n where "dec bs = Inr (Some (m, n))"
    by (metis option.exhaust prod.exhaust sum.exhaust)
  then show ?case
  proof cases
    case (3 m n)
    with dec_bounds [of bs m n] 1 show ?thesis
      by (intro assms(3) [of bs m n]) auto
  qed (use assms in blast)+
qed

text \<open>What is left after parsing holds no complete frame, and the parsed bytes are accounted for.\<close>

lemma parse_rest: "parse_stream dec bs = (ms, None, r) \<Longrightarrow> dec r = Inr None"
  by (induction bs arbitrary: ms rule: parse_induct) (auto simp: parse_rules split: prod.splits)

lemma parse_rest_error: "parse_stream dec bs = (ms, Some e, r) \<Longrightarrow> dec r = Inl e"
  by (induction bs arbitrary: ms rule: parse_induct) (auto simp: parse_rules split: prod.splits)

lemma parse_split:
  "parse_stream dec bs = (ms, e, r) \<Longrightarrow>
     (\<forall>m \<in> set ms. enc m \<noteq> None) \<and> bs = concat (map (\<lambda>m. the (enc m)) ms) @ r"
proof (induction bs arbitrary: ms rule: parse_induct)
  case (frame bs m n)
  then obtain ms' where "parse_stream dec (drop n bs) = (ms', e, r)" "ms = m # ms'"
    by (auto simp: parse_frame split: prod.splits)
  with frame.IH enc_dec [OF frame.hyps(1)] show ?case
    by (metis (no_types, lifting) append.assoc append_take_drop_id concat.simps(2)
        list.simps(9) option.sel option.simps(3) set_ConsD)
qed (auto simp: parse_rules)

text \<open>Parsing a stream in two parts, keeping the rest of the first, is parsing it in one.\<close>

lemma parse_append:
  "parse_stream dec (bs @ cs) =
     (case parse_stream dec bs of
        (ms, Some e, r) \<Rightarrow> (ms, Some e, r @ cs)
      | (ms, None, r) \<Rightarrow> (case parse_stream dec (r @ cs) of (ms', e, r') \<Rightarrow> (ms @ ms', e, r')))"
proof (induction bs rule: parse_induct)
  case (malformed bs e)
  with dec_stable [of bs cs] show ?case
    by (simp add: parse_error)
next
  case (need_more bs)
  then show ?case
    by (simp add: parse_need_more split: prod.splits)
next
  case (frame bs m n)
  with dec_stable [of bs cs] have "dec (bs @ cs) = Inr (Some (m, n))"
    by simp
  with frame show ?case
    by (simp add: parse_frame split: prod.splits option.splits)
qed

lemma parse_chunks_concat:
  "dec rest = Inr None \<Longrightarrow> parse_chunks dec rest chunks = parse_stream dec (rest @ concat chunks)"
proof (induction chunks arbitrary: rest)
  case Nil
  then show ?case by (simp add: parse_need_more)
next
  case (Cons c cs)
  obtain ms e r where p: "parse_stream dec (rest @ c) = (ms, e, r)"
    by (metis prod_cases3)
  show ?case
  proof (cases e)
    case None
    with p parse_rest have "dec r = Inr None" by blast
    with Cons.IH p None show ?thesis
      using parse_append [of "rest @ c" "concat cs"] by simp
  next
    case (Some x)
    with p show ?thesis
      using parse_append [of "rest @ c" "concat cs"] by simp
  qed
qed

text \<open>A concatenation of encoded messages parses back to the messages.\<close>

lemma parse_encoded:
  "list_all2 (\<lambda>m f. enc m = Some f) ms fs \<Longrightarrow>
     parse_stream dec (concat fs @ rest) =
       (case parse_stream dec rest of (ms', e, r) \<Rightarrow> (ms @ ms', e, r))"
proof (induction ms fs rule: list_all2_induct)
  case Nil
  then show ?case by (simp split: prod.splits)
next
  case (Cons m ms f fs)
  from dec_enc [OF Cons.hyps(1)]
  have "dec (f @ concat fs @ rest) = Inr (Some (m, length f))" .
  with Cons.IH show ?case
    by (simp add: parse_frame split: prod.splits)
qed

lemma parse_chunked_encoded:
  assumes "list_all2 (\<lambda>m f. enc m = Some f) ms fs" and "concat chunks = concat fs"
  shows "parse_chunks dec [] chunks = (ms, None, [])"
  using parse_encoded [OF assms(1), of "[]"] parse_chunks_concat [of "[]" chunks] assms(2)
  by (simp add: dec_nil parse_need_more)

end

end
