(* ===== verification/Codec.thy ===== *)
theory Codec
  imports Framing
begin

text \<open>
  The binary frame format (\<^verbatim>\<open>include/pulsecore/protocol/codec.hpp\<close>,
  \<^verbatim>\<open>src/protocol/codec.cpp\<close>): constants, messages, big-endian field access, frame
  encoding and one-shot frame decoding. The lemmas show that encoding and decoding are inverse to
  each other, that the verdict on a byte stream depends only on the bytes of its first frame, and
  which inputs are rejected with which error.
\<close>

section \<open>Data\<close>

definition kMagic :: u32 where
  [const_defs]: "kMagic = 0x50554C53"

definition kVersion :: u16 where
  [const_defs]: "kVersion = 1"

definition kHeaderSize :: nat where
  [const_defs]: "kHeaderSize = 20"

definition kMaxPayloadSize :: u32 where
  [const_defs]: "kMaxPayloadSize = 64 * 1024"

text \<open>
  \<^verbatim>\<open>enum class MessageType : std::uint16_t\<close> has a fixed underlying type, so an object of it
  may hold any 16-bit value (a \<^verbatim>\<open>static_cast\<close> from the raw field is the identity); the
  enumerators are five of them.
\<close>

type_synonym MessageType = u16

definition kEchoRequest :: MessageType where
  [const_defs]: "kEchoRequest = 1"

definition kEchoResponse :: MessageType where
  [const_defs]: "kEchoResponse = 2"

definition kWorkRequest :: MessageType where
  [const_defs]: "kWorkRequest = 3"

definition kWorkResponse :: MessageType where
  [const_defs]: "kWorkResponse = 4"

definition kErrorResponse :: MessageType where
  [const_defs]: "kErrorResponse = 5"

record Message =
  msg_type :: MessageType
  request_id :: u64
  payload :: "byte list"

datatype ProtocolError =
    kInvalidMagic
  | kUnsupportedVersion
  | kUnknownMessageType
  | kPayloadTooLarge
  | kFrameSizeOverflow

datatype DecodeStatus = kNeedMoreData | kDecoded | kError

record DecodeResult =
  dr_status :: DecodeStatus
  dr_message :: "Message option"
  dr_error :: "ProtocolError option"
  dr_bytes_consumed :: nat

definition NeedMoreData :: DecodeResult where
  "NeedMoreData = \<lparr>dr_status = kNeedMoreData, dr_message = None, dr_error = None,
     dr_bytes_consumed = 0\<rparr>"

definition Decoded :: "Message \<Rightarrow> nat \<Rightarrow> DecodeResult" where
  "Decoded m n = \<lparr>dr_status = kDecoded, dr_message = Some m, dr_error = None,
     dr_bytes_consumed = n\<rparr>"

definition DecodeError :: "ProtocolError \<Rightarrow> DecodeResult" where
  "DecodeError e = \<lparr>dr_status = kError, dr_message = None, dr_error = Some e,
     dr_bytes_consumed = 0\<rparr>"

section \<open>Big-endian fields\<close>

definition AppendU16 :: "byte list \<Rightarrow> u16 \<Rightarrow> byte list" where
  "AppendU16 out v = out @
     [ucast (drop_bit 8 v AND 0xFF),
      ucast (v AND 0xFF)]"

definition AppendU32 :: "byte list \<Rightarrow> u32 \<Rightarrow> byte list" where
  "AppendU32 out v = out @
     [ucast (drop_bit 24 v AND 0xFF),
      ucast (drop_bit 16 v AND 0xFF),
      ucast (drop_bit 8 v AND 0xFF),
      ucast (v AND 0xFF)]"

definition AppendU64 :: "byte list \<Rightarrow> u64 \<Rightarrow> byte list" where
  "AppendU64 out v = out @
     [ucast (drop_bit 56 v AND 0xFF),
      ucast (drop_bit 48 v AND 0xFF),
      ucast (drop_bit 40 v AND 0xFF),
      ucast (drop_bit 32 v AND 0xFF),
      ucast (drop_bit 24 v AND 0xFF),
      ucast (drop_bit 16 v AND 0xFF),
      ucast (drop_bit 8 v AND 0xFF),
      ucast (v AND 0xFF)]"

definition ReadU16 :: "byte list \<Rightarrow> nat \<Rightarrow> u16" where
  "ReadU16 bytes offset =
     push_bit 8 (ucast (bytes ! offset)) OR ucast (bytes ! (offset + 1))"

definition ReadU32 :: "byte list \<Rightarrow> nat \<Rightarrow> u32" where
  "ReadU32 bytes offset =
     push_bit 24 (ucast (bytes ! offset)) OR
     push_bit 16 (ucast (bytes ! (offset + 1))) OR
     push_bit 8 (ucast (bytes ! (offset + 2))) OR
     ucast (bytes ! (offset + 3))"

definition ReadU64 :: "byte list \<Rightarrow> nat \<Rightarrow> u64" where
  "ReadU64 bytes offset =
     push_bit 56 (ucast (bytes ! offset)) OR
     push_bit 48 (ucast (bytes ! (offset + 1))) OR
     push_bit 40 (ucast (bytes ! (offset + 2))) OR
     push_bit 32 (ucast (bytes ! (offset + 3))) OR
     push_bit 24 (ucast (bytes ! (offset + 4))) OR
     push_bit 16 (ucast (bytes ! (offset + 5))) OR
     push_bit 8 (ucast (bytes ! (offset + 6))) OR
     ucast (bytes ! (offset + 7))"

section \<open>Frames\<close>

definition IsKnownMessageType :: "u16 \<Rightarrow> bool" where
  "IsKnownMessageType t =
     (t = kEchoRequest \<or> t = kEchoResponse \<or> t = kWorkRequest \<or> t = kWorkResponse \<or>
      t = kErrorResponse)"

definition ToMessageType :: "u16 \<Rightarrow> MessageType option" where
  "ToMessageType t = (if \<not> IsKnownMessageType t then None else Some t)"

definition EncodeMessage :: "Message \<Rightarrow> byte list option" where
  "EncodeMessage m =
     (if length (payload m) > unat kMaxPayloadSize then None
      else if \<not> IsKnownMessageType (msg_type m) then None
      else
        let out = AppendU32 [] kMagic;
            out = AppendU16 out kVersion;
            out = AppendU16 out (msg_type m);
            out = AppendU32 out (of_nat (length (payload m)));
            out = AppendU64 out (request_id m)
        in Some (out @ payload m))"

definition TryDecodeFrame :: "byte list \<Rightarrow> DecodeResult" where
  "TryDecodeFrame bytes =
     (if length bytes < kHeaderSize then NeedMoreData
      else if ReadU32 bytes 0 \<noteq> kMagic then DecodeError kInvalidMagic
      else if ReadU16 bytes 4 \<noteq> kVersion then DecodeError kUnsupportedVersion
      else
        case ToMessageType (ReadU16 bytes 6) of
          None \<Rightarrow> DecodeError kUnknownMessageType
        | Some message_type \<Rightarrow>
            let payload_size = ReadU32 bytes 8 in
            if payload_size > kMaxPayloadSize then DecodeError kPayloadTooLarge
            else if unat payload_size > SIZE_MAX - kHeaderSize then DecodeError kFrameSizeOverflow
            else
              let frame_size = kHeaderSize + unat payload_size in
              if length bytes < frame_size then NeedMoreData
              else Decoded
                \<lparr>msg_type = message_type,
                 request_id = ReadU64 bytes 12,
                 payload = drop kHeaderSize (take frame_size bytes)\<rparr>
                frame_size)"

section \<open>Field lemmas\<close>

lemmas append_field_defs = AppendU16_def AppendU32_def AppendU64_def
lemmas read_field_defs = ReadU16_def ReadU32_def ReadU64_def
lemmas decode_result_defs = NeedMoreData_def Decoded_def DecodeError_def

lemma decode_results_distinct [simp]:
  "NeedMoreData \<noteq> Decoded m n" "Decoded m n \<noteq> NeedMoreData"
  "NeedMoreData \<noteq> DecodeError e" "DecodeError e \<noteq> NeedMoreData"
  "Decoded m n \<noteq> DecodeError e" "DecodeError e \<noteq> Decoded m n"
  "Decoded m n = Decoded m' n' \<longleftrightarrow> m = m' \<and> n = n'"
  "DecodeError e = DecodeError e' \<longleftrightarrow> e = e'"
  by (auto simp: decode_result_defs)

lemma decode_result_sel [simp]:
  "dr_status NeedMoreData = kNeedMoreData"
  "dr_status (Decoded m n) = kDecoded"
  "dr_status (DecodeError e) = kError"
  "dr_message (Decoded m n) = Some m"
  "dr_bytes_consumed (Decoded m n) = n"
  "dr_error (DecodeError e) = Some e"
  by (simp_all add: decode_result_defs)

lemma length_append_field [simp]:
  "length (AppendU16 out v16) = length out + 2"
  "length (AppendU32 out v32) = length out + 4"
  "length (AppendU64 out v64) = length out + 8"
  by (simp_all add: append_field_defs)

text \<open>The header bytes of a frame, as one list: what the chain of appends builds.\<close>

definition header :: "MessageType \<Rightarrow> u32 \<Rightarrow> u64 \<Rightarrow> byte list" where
  "header t n i = AppendU64 (AppendU32 (AppendU16 (AppendU16 (AppendU32 [] kMagic) kVersion) t) n) i"

lemma length_header [simp]: "length (header t n i) = 20"
  by (simp add: header_def)

lemma read_header [simp]:
  "ReadU32 (header t n i @ rest) 0 = kMagic"
  "ReadU16 (header t n i @ rest) 4 = kVersion"
  "ReadU16 (header t n i @ rest) 6 = t"
  "ReadU32 (header t n i @ rest) 8 = n"
  "ReadU64 (header t n i @ rest) 12 = i"
  by (simp_all add: header_def append_field_defs read_field_defs
      cat_bytes_u16 cat_bytes_u32 cat_bytes_u64)

text \<open>
  Conversely, appending a field that was read from a list reproduces the bytes it was read from,
  so every twenty bytes that start with the magic and the version are a header.
\<close>

lemma take_drop_nths:
  "i + 1 < length bs \<Longrightarrow> take 2 (drop i bs) = [bs ! i, bs ! (i + 1)]"
  "i + 3 < length bs \<Longrightarrow> take 4 (drop i bs) = [bs ! i, bs ! (i + 1), bs ! (i + 2), bs ! (i + 3)]"
  "i + 7 < length bs \<Longrightarrow> take 8 (drop i bs) = [bs ! i, bs ! (i + 1), bs ! (i + 2), bs ! (i + 3),
     bs ! (i + 4), bs ! (i + 5), bs ! (i + 6), bs ! (i + 7)]"
  by (simp_all add: list_eq_iff_nth_eq nth_Cons' numeral_eq_Suc less_Suc_eq)

lemma append_read:
  "i + 1 < length bs \<Longrightarrow> AppendU16 out (ReadU16 bs i) = out @ take 2 (drop i bs)"
  "i + 3 < length bs \<Longrightarrow> AppendU32 out (ReadU32 bs i) = out @ take 4 (drop i bs)"
  "i + 7 < length bs \<Longrightarrow> AppendU64 out (ReadU64 bs i) = out @ take 8 (drop i bs)"
  by (simp_all add: append_field_defs read_field_defs take_drop_nths
      cut_bytes_u16 cut_bytes_u32 cut_bytes_u64 del: drop_bit_or)

lemma header_of_fields:
  assumes "20 \<le> length bs" "ReadU32 bs 0 = kMagic" "ReadU16 bs 4 = kVersion"
  shows "header (ReadU16 bs 6) (ReadU32 bs 8) (ReadU64 bs 12) = take 20 bs"
proof -
  have "header (ReadU16 bs 6) (ReadU32 bs 8) (ReadU64 bs 12) =
      take 4 bs @ take 2 (drop 4 bs) @ take 2 (drop 6 bs) @ take 4 (drop 8 bs) @ take 8 (drop 12 bs)"
    using assms(1)
    by (simp add: header_def append_read flip: assms(2,3))
  also have "\<dots> = take 20 bs"
    using take_add [of 4 2 bs] take_add [of 6 2 bs] take_add [of 8 4 bs] take_add [of 12 8 bs]
    by simp
  finally show ?thesis .
qed

lemma read_append [simp]:
  "o1 + 1 < length bs \<Longrightarrow> ReadU16 (bs @ cs) o1 = ReadU16 bs o1"
  "o1 + 3 < length bs \<Longrightarrow> ReadU32 (bs @ cs) o1 = ReadU32 bs o1"
  "o1 + 7 < length bs \<Longrightarrow> ReadU64 (bs @ cs) o1 = ReadU64 bs o1"
  by (simp_all add: read_field_defs nth_append)

section \<open>Frame lemmas\<close>

definition encodable :: "Message \<Rightarrow> bool" where
  "encodable m \<longleftrightarrow> length (payload m) \<le> 65536 \<and> IsKnownMessageType (msg_type m)"

definition frame_of :: "Message \<Rightarrow> byte list" where
  "frame_of m = header (msg_type m) (of_nat (length (payload m))) (request_id m) @ payload m"

lemma unat_kMaxPayloadSize [simp]: "unat kMaxPayloadSize = 65536"
  by (simp add: kMaxPayloadSize_def)

lemma kHeaderSize_eq [simp]: "kHeaderSize = 20"
  by (simp add: kHeaderSize_def)

lemma EncodeMessage_eq: "EncodeMessage m = (if encodable m then Some (frame_of m) else None)"
  by (simp add: EncodeMessage_def encodable_def frame_of_def header_def)

lemma length_frame_of [simp]: "length (frame_of m) = 20 + length (payload m)"
  by (simp add: frame_of_def)

lemma payload_size_u32:
  "n \<le> 65536 \<Longrightarrow> unat (of_nat n :: u32) = n"
  by (simp add: unat_of_nat)

lemma payload_size_le:
  "(n :: u32) \<le> kMaxPayloadSize \<longleftrightarrow> unat n \<le> 65536"
  by (simp add: word_le_nat_alt)

text \<open>The overflow guard of the sources can never fire: a 32-bit size fits.\<close>

lemma no_size_overflow: "\<not> unat (n :: u32) > SIZE_MAX - kHeaderSize"
proof -
  have "unat n < 2 ^ 32"
    using unsigned_less [of n, where 'a = nat] by simp
  then show ?thesis
    by (simp add: SIZE_MAX_def)
qed

text \<open>The decoder as a decision list over the header's fields.\<close>

lemma TryDecodeFrame_eq:
  "TryDecodeFrame bs =
    (if length bs < 20 then NeedMoreData
     else if ReadU32 bs 0 \<noteq> kMagic then DecodeError kInvalidMagic
     else if ReadU16 bs 4 \<noteq> kVersion then DecodeError kUnsupportedVersion
     else if \<not> IsKnownMessageType (ReadU16 bs 6) then DecodeError kUnknownMessageType
     else if unat (ReadU32 bs 8) > 65536 then DecodeError kPayloadTooLarge
     else if length bs < 20 + unat (ReadU32 bs 8) then NeedMoreData
     else Decoded \<lparr>msg_type = ReadU16 bs 6, request_id = ReadU64 bs 12,
            payload = take (unat (ReadU32 bs 8)) (drop 20 bs)\<rparr> (20 + unat (ReadU32 bs 8)))"
  using no_size_overflow [of "ReadU32 bs 8"]
  by (simp add: TryDecodeFrame_def ToMessageType_def Let_def drop_take payload_size_le
      flip: not_le)

lemma TryDecodeFrame_frame:
  assumes "encodable m"
  shows "TryDecodeFrame (frame_of m @ rest) = Decoded m (length (frame_of m))"
  using assms
  by (simp add: TryDecodeFrame_eq frame_of_def encodable_def payload_size_u32)

lemma TryDecodeFrame_DecodedD:
  assumes "TryDecodeFrame bs = Decoded m n"
  shows "encodable m" "n = length (frame_of m)" "n \<le> length bs" "take n bs = frame_of m"
proof -
  let ?k = "unat (ReadU32 bs 8)"
  have len: "20 + ?k \<le> length bs" and magic: "ReadU32 bs 0 = kMagic"
    and version: "ReadU16 bs 4 = kVersion" and known: "IsKnownMessageType (ReadU16 bs 6)"
    and k: "?k \<le> 65536" and n: "n = 20 + ?k"
    and m: "m = \<lparr>msg_type = ReadU16 bs 6, request_id = ReadU64 bs 12,
            payload = take ?k (drop 20 bs)\<rparr>"
    using assms by (auto simp: TryDecodeFrame_eq split: if_splits)
  have "take n bs = take 20 bs @ take ?k (drop 20 bs)"
    by (simp add: n take_add)
  also have "take 20 bs = header (ReadU16 bs 6) (ReadU32 bs 8) (ReadU64 bs 12)"
    using header_of_fields [of bs] len magic version by simp
  finally show "take n bs = frame_of m"
    using len by (simp add: m frame_of_def)
  show "encodable m"
    using known k len by (simp add: m encodable_def)
  show "n = length (frame_of m)" "n \<le> length bs"
    using len by (simp_all add: n m)
qed

text \<open>Once a verdict other than ``more data'' is reached, more bytes do not change it.\<close>

lemma TryDecodeFrame_stable:
  assumes "TryDecodeFrame bs \<noteq> NeedMoreData"
  shows "TryDecodeFrame (bs @ cs) = TryDecodeFrame bs"
proof -
  have len: "20 \<le> length bs"
    using assms by (rule contrapos_np) (simp add: TryDecodeFrame_eq)
  note fields = read_append(2) [of 0 bs cs] read_append(1) [of 4 bs cs] read_append(1) [of 6 bs cs]
    read_append(2) [of 8 bs cs] read_append(3) [of 12 bs cs]
  show ?thesis
    using assms len fields by (simp add: TryDecodeFrame_eq del: read_append split: if_split_asm)
qed

lemma TryDecodeFrame_cases:
  obtains (need_more) "TryDecodeFrame bs = NeedMoreData"
  | (malformed) e where "TryDecodeFrame bs = DecodeError e"
  | (decoded) m n where "TryDecodeFrame bs = Decoded m n"
proof -
  have "TryDecodeFrame bs = NeedMoreData \<or> (\<exists>e. TryDecodeFrame bs = DecodeError e) \<or>
      (\<exists>m n. TryDecodeFrame bs = Decoded m n)"
    by (auto simp: TryDecodeFrame_eq)
  then show thesis
    using that by blast
qed

lemma TryDecodeFrame_short: "length bs < 20 \<Longrightarrow> TryDecodeFrame bs = NeedMoreData"
  by (simp add: TryDecodeFrame_eq)

text \<open>A stream that needs more data is shorter than the largest frame.\<close>

lemma NeedMoreData_bound:
  assumes "TryDecodeFrame bs = NeedMoreData"
  shows "length bs < 20 + 65536"
  using assms by (simp add: TryDecodeFrame_eq split: if_splits)

section \<open>The codec provides the framing interface\<close>

definition frame_verdict :: "byte list \<Rightarrow> (Message, ProtocolError) verdict" where
  "frame_verdict bs =
     (let r = TryDecodeFrame bs in
      case dr_status r of
        kNeedMoreData \<Rightarrow> Inr None
      | kError \<Rightarrow> Inl (the (dr_error r))
      | kDecoded \<Rightarrow> Inr (Some (the (dr_message r), dr_bytes_consumed r)))"

lemma frame_verdict_iff [simp]:
  "frame_verdict bs = Inr None \<longleftrightarrow> TryDecodeFrame bs = NeedMoreData"
  "frame_verdict bs = Inl e \<longleftrightarrow> TryDecodeFrame bs = DecodeError e"
  "frame_verdict bs = Inr (Some (m, n)) \<longleftrightarrow> TryDecodeFrame bs = Decoded m n"
  by (cases bs rule: TryDecodeFrame_cases; auto simp: frame_verdict_def)+

interpretation frames: framing EncodeMessage frame_verdict
proof
  show "frame_verdict [] = Inr None"
    by (simp add: TryDecodeFrame_short)
next
  fix bs m n
  assume "frame_verdict bs = Inr (Some (m, n))"
  then have *: "TryDecodeFrame bs = Decoded m n" by simp
  note d = TryDecodeFrame_DecodedD [OF *]
  show "0 < n \<and> n \<le> length bs"
    using d(2,3) by simp
  show "EncodeMessage m = Some (take n bs)"
    using d(1,4) by (simp add: EncodeMessage_eq)
next
  fix bs cs
  assume "frame_verdict bs \<noteq> Inr None"
  then have "TryDecodeFrame (bs @ cs) = TryDecodeFrame bs"
    by (simp add: TryDecodeFrame_stable)
  then show "frame_verdict (bs @ cs) = frame_verdict bs"
    by (simp add: frame_verdict_def)
next
  fix m f cs
  assume "EncodeMessage m = Some f"
  then have "encodable m" "f = frame_of m"
    by (simp_all add: EncodeMessage_eq split: if_splits)
  then show "frame_verdict (f @ cs) = Inr (Some (m, length f))"
    by (simp add: TryDecodeFrame_frame)
qed

section \<open>Properties\<close>

text \<open>
  C23. Round trip: a message that \<open>EncodeMessage\<close> accepts is decoded again, unchanged, from its
  frame, whatever bytes follow, and the decoder consumes exactly the frame.
\<close>

theorem encode_then_decode:
  assumes "EncodeMessage m = Some frame"
  shows "TryDecodeFrame (frame @ rest) = Decoded m (length frame)"
  using frames.dec_enc [OF assms, of rest] by simp

definition sample_message :: Message where
  "sample_message = \<lparr>msg_type = kEchoRequest, request_id = 7, payload = [104, 105]\<rparr>"

definition sample_frame :: "byte list" where
  "sample_frame = [80, 85, 76, 83, 0, 1, 0, 1, 0, 0, 0, 2, 0, 0, 0, 0, 0, 0, 0, 7, 104, 105]"

lemma sample_payload: "length (payload sample_message) = 2"
  by (simp add: sample_message_def)

lemma EncodeMessage_sample: "EncodeMessage sample_message = Some sample_frame"
  by (simp add: EncodeMessage_eq encodable_def frame_of_def header_def append_field_defs
      sample_message_def sample_frame_def IsKnownMessageType_def const_defs)

theorem encode_then_decode_witness:
  "EncodeMessage sample_message = Some sample_frame \<and>
   TryDecodeFrame (sample_frame @ [9]) = Decoded sample_message (length sample_frame)"
  using encode_then_decode [OF EncodeMessage_sample, of "[9]"] EncodeMessage_sample by simp

text \<open>
  C24. The frame format is canonical: whenever \<open>TryDecodeFrame\<close> reports a message, the bytes it
  consumed are exactly the encoding of that message, and they were there.
\<close>

theorem decode_then_encode:
  assumes "TryDecodeFrame bs = Decoded m n"
  shows "EncodeMessage m = Some (take n bs) \<and> n \<le> length bs \<and> n = kHeaderSize + length (payload m)"
  using frames.enc_dec [of bs m n] TryDecodeFrame_DecodedD [OF assms] assms by simp

theorem decode_then_encode_witness:
  "TryDecodeFrame (sample_frame @ [9]) = Decoded sample_message 22 \<and>
   EncodeMessage sample_message = Some (take 22 (sample_frame @ [9]))"
proof -
  have *: "TryDecodeFrame (sample_frame @ [9]) = Decoded sample_message 22"
    using TryDecodeFrame_frame [of sample_message "[9]"] EncodeMessage_sample
    by (simp add: EncodeMessage_eq sample_frame_def sample_payload split: if_splits)
  with decode_then_encode [OF *] show ?thesis by simp
qed

text \<open>
  C28. Exactly which inputs are malformed, and with which error: the checks are made in the order
  magic, version, type, size, on a complete header, and no input reports a frame-size overflow.
\<close>

theorem decode_error_iff:
  "TryDecodeFrame bs = DecodeError e \<longleftrightarrow>
     kHeaderSize \<le> length bs \<and>
     (case e of
        kInvalidMagic \<Rightarrow> ReadU32 bs 0 \<noteq> kMagic
      | kUnsupportedVersion \<Rightarrow> ReadU32 bs 0 = kMagic \<and> ReadU16 bs 4 \<noteq> kVersion
      | kUnknownMessageType \<Rightarrow> ReadU32 bs 0 = kMagic \<and> ReadU16 bs 4 = kVersion \<and>
          ReadU16 bs 6 \<notin> {1, 2, 3, 4, 5}
      | kPayloadTooLarge \<Rightarrow> ReadU32 bs 0 = kMagic \<and> ReadU16 bs 4 = kVersion \<and>
          ReadU16 bs 6 \<in> {1, 2, 3, 4, 5} \<and> unat (ReadU32 bs 8) > 64 * 1024
      | kFrameSizeOverflow \<Rightarrow> False)"
proof -
  have "IsKnownMessageType (ReadU16 bs 6) \<longleftrightarrow> ReadU16 bs 6 \<in> {1, 2, 3, 4, 5}"
    by (auto simp: IsKnownMessageType_def const_defs)
  then show ?thesis
    by (cases e) (auto simp: TryDecodeFrame_eq)
qed

text \<open>
  No false alarm on a partial frame: every proper prefix of an encoded message, the empty one
  included, asks for more data and is never reported as malformed or complete.
\<close>

theorem partial_frame_needs_more:
  assumes "EncodeMessage m = Some frame" and "k < length frame"
  shows "TryDecodeFrame (take k frame) = NeedMoreData"
proof (rule ccontr)
  assume "TryDecodeFrame (take k frame) \<noteq> NeedMoreData"
  from TryDecodeFrame_stable [OF this, of "drop k frame"]
  have "TryDecodeFrame (take k frame) = TryDecodeFrame frame" by simp
  also have "\<dots> = Decoded m (length frame)"
    using frames.dec_enc [OF assms(1), of "[]"] by simp
  finally have "length frame \<le> length (take k frame)"
    by (rule TryDecodeFrame_DecodedD(3))
  with assms(2) show False by simp
qed

theorem partial_frame_needs_more_witness:
  "EncodeMessage sample_message = Some sample_frame \<and> 21 < length sample_frame \<and>
   TryDecodeFrame (take 21 sample_frame) = NeedMoreData"
proof -
  have "21 < length sample_frame"
    by (simp add: sample_frame_def)
  with partial_frame_needs_more [OF EncodeMessage_sample this] EncodeMessage_sample
  show ?thesis by simp
qed

end
