(* ===== verification/Frame_Decoder.thy ===== *)
theory Frame_Decoder
  imports Codec
begin

text \<open>
  The incremental decoder \<^verbatim>\<open>FrameDecoder\<close> of \<^verbatim>\<open>src/protocol/codec.cpp\<close>: a byte buffer
  with a read offset that is compacted lazily, and the loop \<^verbatim>\<open>Connection::DrainDecoder\<close> of
  \<^verbatim>\<open>src/network/connection.cpp\<close> that empties it. The abstraction of a decoder is the list of
  its unread bytes; the lemmas show that the buffer manipulation refines plain operations on that
  list, that storage stays within twice the unread bytes, and that the messages do not depend on
  how the stream was cut into chunks.
\<close>

section \<open>State and operations\<close>

record FrameDecoder =
  buffer :: "byte list"
  read_offset :: nat

definition new_FrameDecoder :: FrameDecoder where
  "new_FrameDecoder = \<lparr>buffer = [], read_offset = 0\<rparr>"

definition Append :: "FrameDecoder \<Rightarrow> byte list \<Rightarrow> FrameDecoder" where
  "Append d bytes = d\<lparr>buffer := buffer d @ bytes\<rparr>"

definition CompactIfNeeded :: "FrameDecoder \<Rightarrow> FrameDecoder" where
  "CompactIfNeeded d =
     (if read_offset d = 0 then d
      else if read_offset d = length (buffer d) then d\<lparr>buffer := [], read_offset := 0\<rparr>
      else if read_offset d \<ge> length (buffer d) div 2
      then d\<lparr>buffer := drop (read_offset d) (buffer d), read_offset := 0\<rparr>
      else d)"

definition Next :: "FrameDecoder \<Rightarrow> DecodeResult \<times> FrameDecoder" where
  "Next d =
     (let pending = drop (read_offset d) (buffer d);
          result = TryDecodeFrame pending
      in if dr_status result = kDecoded
         then (result,
               CompactIfNeeded (d\<lparr>read_offset := read_offset d + dr_bytes_consumed result\<rparr>))
         else (result, d))"

definition BufferedSize :: "FrameDecoder \<Rightarrow> nat" where
  "BufferedSize d = length (buffer d) - read_offset d"

section \<open>Abstraction and invariant\<close>

definition unread :: "FrameDecoder \<Rightarrow> byte list" where
  "unread d = drop (read_offset d) (buffer d)"

text \<open>
  The read offset is zero or in the lower half of the buffer: in particular it never passes the end
  of the buffer, so the subtraction in \<open>BufferedSize\<close> cannot wrap around.
\<close>

definition decoder_inv :: "FrameDecoder \<Rightarrow> bool" where
  "decoder_inv d \<longleftrightarrow> read_offset d = 0 \<or> read_offset d < length (buffer d) div 2"

lemma new_FrameDecoder_abs [abs_simps, simp]: "unread new_FrameDecoder = []"
  by (simp add: unread_def new_FrameDecoder_def)

lemma new_FrameDecoder_inv [inv_intros, simp]: "decoder_inv new_FrameDecoder"
  by (simp add: decoder_inv_def new_FrameDecoder_def)

lemma decoder_inv_le: "decoder_inv d \<Longrightarrow> read_offset d \<le> length (buffer d)"
  by (auto simp: decoder_inv_def)

lemma Append_abs [abs_simps]: "decoder_inv d \<Longrightarrow> unread (Append d bytes) = unread d @ bytes"
  using decoder_inv_le [of d] by (simp add: unread_def Append_def)

lemma Append_inv [inv_intros]: "decoder_inv d \<Longrightarrow> decoder_inv (Append d bytes)"
  by (auto simp: decoder_inv_def Append_def)

lemma CompactIfNeeded_abs: "unread (CompactIfNeeded d) = unread d"
  by (simp add: unread_def CompactIfNeeded_def)

lemma CompactIfNeeded_inv:
  "read_offset d \<le> length (buffer d) \<Longrightarrow> decoder_inv (CompactIfNeeded d)"
  by (auto simp: decoder_inv_def CompactIfNeeded_def)

lemma BufferedSize_abs [abs_simps]: "BufferedSize d = length (unread d)"
  by (simp add: BufferedSize_def unread_def)

lemma Next_result [simp]: "fst (Next d) = TryDecodeFrame (unread d)"
  by (simp add: Next_def unread_def Let_def)

lemma Next_keeps:
  assumes "\<And>m n. TryDecodeFrame (unread d) \<noteq> Decoded m n"
  shows "snd (Next d) = d"
  using assms
  by (cases "unread d" rule: TryDecodeFrame_cases) (auto simp: Next_def unread_def Let_def)

lemma Next_decoded:
  assumes "TryDecodeFrame (unread d) = Decoded m n"
  shows "unread (snd (Next d)) = drop n (unread d)" "decoder_inv (snd (Next d))"
proof -
  let ?d = "d\<lparr>read_offset := read_offset d + n\<rparr>"
  have step: "snd (Next d) = CompactIfNeeded ?d"
    using assms by (simp add: Next_def unread_def Let_def)
  have "0 < n" "n \<le> length (unread d)"
    using frames.dec_bounds [of "unread d" m n] assms by simp_all
  then have "read_offset ?d \<le> length (buffer ?d)"
    by (simp add: unread_def)
  then show "decoder_inv (snd (Next d))"
    by (simp add: step CompactIfNeeded_inv)
  show "unread (snd (Next d)) = drop n (unread d)"
    by (simp add: step CompactIfNeeded_abs) (simp add: unread_def add.commute)
qed

lemma Next_inv [inv_intros]: "decoder_inv d \<Longrightarrow> decoder_inv (snd (Next d))"
  by (cases "unread d" rule: TryDecodeFrame_cases) (auto simp: Next_keeps dest: Next_decoded)

lemma Next_consumes:
  assumes "TryDecodeFrame (unread d) = Decoded m n"
  shows "length (unread (snd (Next d))) < length (unread d)"
  using Next_decoded(1) [OF assms] frames.dec_bounds [of "unread d" m n] assms by auto

section \<open>Draining\<close>

text \<open>
  \<^verbatim>\<open>Connection::DrainDecoder\<close> calls \<open>Next\<close> until it reports something other than a message;
  the messages go to the caller's vector. The loop ends because every message takes at least a
  header off the unread bytes.
\<close>

function DrainDecoder ::
  "FrameDecoder \<Rightarrow> Message list \<Rightarrow> ProtocolError option \<times> FrameDecoder \<times> Message list" where
  "DrainDecoder d messages =
     (case Next d of (result, d') \<Rightarrow>
        if dr_status result = kNeedMoreData then (None, d', messages)
        else if dr_status result = kError then (dr_error result, d', messages)
        else DrainDecoder d' (messages @ [the (dr_message result)]))"
  by pat_completeness auto
termination
proof (relation "measure (\<lambda>(d, messages). length (unread d))")
  fix d :: FrameDecoder and messages result d'
  assume step: "(result, d') = Next d"
    and running: "dr_status result \<noteq> kNeedMoreData" "dr_status result \<noteq> kError"
  have "result = TryDecodeFrame (unread d)" "d' = snd (Next d)"
    using Next_result [of d] by (simp_all flip: step)
  with running obtain m n where "TryDecodeFrame (unread d) = Decoded m n"
    by (cases "unread d" rule: TryDecodeFrame_cases) auto
  from Next_consumes [OF this] \<open>d' = _\<close>
  show "((d', messages @ [the (dr_message result)]), d, messages)
      \<in> measure (\<lambda>(d, messages). length (unread d))"
    by simp
qed simp

declare DrainDecoder.simps [simp del]

lemma DrainDecoder_need_more:
  "TryDecodeFrame (unread d) = NeedMoreData \<Longrightarrow> DrainDecoder d ms = (None, d, ms)"
  by (subst DrainDecoder.simps) (simp add: split_beta Next_keeps)

lemma DrainDecoder_malformed:
  "TryDecodeFrame (unread d) = DecodeError e \<Longrightarrow> DrainDecoder d ms = (Some e, d, ms)"
  by (subst DrainDecoder.simps) (simp add: split_beta Next_keeps)

lemma DrainDecoder_decoded:
  "TryDecodeFrame (unread d) = Decoded m n \<Longrightarrow>
     DrainDecoder d ms = DrainDecoder (snd (Next d)) (ms @ [m])"
  by (subst DrainDecoder.simps) (simp add: split_beta)

lemmas DrainDecoder_rules = DrainDecoder_need_more DrainDecoder_malformed DrainDecoder_decoded

text \<open>Draining refines the reference parser on the unread bytes.\<close>

lemma DrainDecoder_abs:
  assumes "decoder_inv d" and "DrainDecoder d ms = (e, d', ms')"
  shows "decoder_inv d' \<and> (\<exists>new. ms' = ms @ new \<and>
           parse_stream frame_verdict (unread d) = (new, e, unread d'))"
  using assms
proof (induction d ms arbitrary: e d' ms' rule: DrainDecoder.induct)
  case (1 d ms)
  show ?case
  proof (cases "unread d" rule: TryDecodeFrame_cases)
    case (decoded m n)
    note next_d = Next_decoded [OF decoded]
    have "DrainDecoder (snd (Next d)) (ms @ [m]) = (e, d', ms')"
      using "1.prems"(2) by (simp add: DrainDecoder_decoded [OF decoded])
    then have "decoder_inv d' \<and> (\<exists>new. ms' = (ms @ [m]) @ new \<and>
        parse_stream frame_verdict (unread (snd (Next d))) = (new, e, unread d'))"
      using "1.IH" [of "TryDecodeFrame (unread d)" "snd (Next d)"] next_d(2) decoded
      by (simp add: prod_eq_iff)
    then show ?thesis
      using next_d(1) decoded by (auto simp: frames.parse_frame)
  qed (use 1 in \<open>auto simp: DrainDecoder_rules frames.parse_rules\<close>)
qed

text \<open>Feeding chunks as they arrive from a socket: append a chunk, drain, and so on.\<close>

fun feed_chunks ::
  "FrameDecoder \<Rightarrow> byte list list \<Rightarrow> Message list \<times> ProtocolError option \<times> FrameDecoder" where
  "feed_chunks d [] = ([], None, d)"
| "feed_chunks d (c # cs) =
     (case DrainDecoder (Append d c) [] of
        (Some e, d', ms) \<Rightarrow> (ms, Some e, d')
      | (None, d', ms) \<Rightarrow> (case feed_chunks d' cs of (ms', e, d'') \<Rightarrow> (ms @ ms', e, d'')))"

lemma feed_chunks_abs:
  assumes "decoder_inv d"
  shows "case parse_chunks frame_verdict (unread d) chunks of (ms, e, r) \<Rightarrow>
           \<exists>d'. feed_chunks d chunks = (ms, e, d') \<and> decoder_inv d' \<and> (e = None \<longrightarrow> unread d' = r)"
  using assms
proof (induction chunks arbitrary: d)
  case Nil
  then show ?case by simp
next
  case (Cons c cs)
  obtain e d' ms where drain: "DrainDecoder (Append d c) [] = (e, d', ms)"
    by (metis prod_cases3)
  from DrainDecoder_abs [OF Append_inv drain] Cons.prems
  have inv: "decoder_inv d'"
    and parse: "parse_stream frame_verdict (unread d @ c) = (ms, e, unread d')"
    by (simp_all add: Append_abs)
  show ?case
  proof (cases e)
    case (Some x)
    with drain parse inv show ?thesis by simp
  next
    case None
    with Cons.IH [OF inv] drain parse show ?thesis
      by (auto split: prod.splits)
  qed
qed

section \<open>Properties\<close>

text \<open>
  C26. Refinement: seen through its unread bytes, a decoder is a plain byte queue. \<open>Append\<close> adds at
  the end, \<open>Next\<close> gives the verdict on the unread bytes and, on a message, removes exactly the
  message's frame, and \<open>BufferedSize\<close> counts them; compaction is invisible.
\<close>

theorem frame_decoder_refines_byte_queue:
  assumes "decoder_inv d"
  shows "unread (Append d bytes) = unread d @ bytes \<and>
    fst (Next d) = TryDecodeFrame (unread d) \<and>
    unread (snd (Next d)) = drop (dr_bytes_consumed (TryDecodeFrame (unread d))) (unread d) \<and>
    BufferedSize d = length (unread d) \<and>
    decoder_inv (Append d bytes) \<and> decoder_inv (snd (Next d))"
proof (intro conjI)
  show "unread (snd (Next d)) = drop (dr_bytes_consumed (TryDecodeFrame (unread d))) (unread d)"
    by (cases "unread d" rule: TryDecodeFrame_cases)
      (auto simp: Next_keeps Next_decoded decode_result_defs)
qed (use assms in \<open>simp_all add: abs_simps inv_intros\<close>)

theorem frame_decoder_refines_byte_queue_witness:
  "decoder_inv new_FrameDecoder \<and> unread (Append new_FrameDecoder sample_frame) = sample_frame"
  using frame_decoder_refines_byte_queue [of new_FrameDecoder sample_frame] by simp

text \<open>The decoders that client code can build: fresh, appended to, or asked for a message.\<close>

inductive reachable_decoder :: "FrameDecoder \<Rightarrow> bool" where
  fresh: "reachable_decoder new_FrameDecoder"
| appended: "reachable_decoder d \<Longrightarrow> reachable_decoder (Append d bytes)"
| asked: "reachable_decoder d \<Longrightarrow> reachable_decoder (snd (Next d))"

lemma reachable_decoder_inv: "reachable_decoder d \<Longrightarrow> decoder_inv d"
  by (induction rule: reachable_decoder.induct) (auto intro: inv_intros)

text \<open>
  C27. Storage bound: after any sequence of \<open>Append\<close> and \<open>Next\<close> calls the lazily compacted buffer
  holds at most twice the bytes that are still unread, so consumed frames do not accumulate, and
  the read offset is inside the buffer, so \<open>BufferedSize\<close> does not wrap around.
\<close>

theorem frame_decoder_storage_bound:
  assumes "reachable_decoder d"
  shows "length (buffer d) \<le> 2 * BufferedSize d \<and> read_offset d \<le> length (buffer d)"
  using reachable_decoder_inv [OF assms] by (auto simp: decoder_inv_def BufferedSize_def)

theorem frame_decoder_storage_bound_witness:
  "reachable_decoder (snd (Next (Append new_FrameDecoder sample_frame))) \<and>
   length (buffer (snd (Next (Append new_FrameDecoder sample_frame)))) \<le>
     2 * BufferedSize (snd (Next (Append new_FrameDecoder sample_frame)))"
  using frame_decoder_storage_bound [of "snd (Next (Append new_FrameDecoder sample_frame))"]
  by (simp add: reachable_decoder.intros)

text \<open>
  Chunking does not matter: whatever way TCP cuts the concatenation of encoded messages into
  chunks, appending the chunks one by one and draining after each yields exactly those messages in
  order, no error, and leaves no unread byte.
\<close>

theorem chunked_stream_yields_messages:
  assumes "list_all2 (\<lambda>m f. EncodeMessage m = Some f) messages frms"
    and "concat chunks = concat frms"
  shows "\<exists>d. feed_chunks new_FrameDecoder chunks = (messages, None, d) \<and> BufferedSize d = 0"
  using feed_chunks_abs [of new_FrameDecoder chunks] frames.parse_chunked_encoded [OF assms]
  by (auto simp: BufferedSize_abs)

theorem chunked_stream_yields_messages_witness:
  "list_all2 (\<lambda>m f. EncodeMessage m = Some f) [sample_message, sample_message]
     [sample_frame, sample_frame] \<and>
   (\<exists>d. feed_chunks new_FrameDecoder
      [take 5 sample_frame, drop 5 sample_frame @ take 21 sample_frame, drop 21 sample_frame] =
        ([sample_message, sample_message], None, d) \<and> BufferedSize d = 0)"
proof -
  have enc: "list_all2 (\<lambda>m f. EncodeMessage m = Some f) [sample_message, sample_message]
     [sample_frame, sample_frame]"
    by (simp add: EncodeMessage_sample)
  have cut: "concat [take 5 sample_frame, drop 5 sample_frame @ take 21 sample_frame,
      drop 21 sample_frame] = concat [sample_frame, sample_frame]"
    by simp
  show ?thesis
    using enc chunked_stream_yields_messages [OF enc cut] by simp
qed

text \<open>
  C25. Any stream, well-formed or not, gives the same messages and the same error however it is cut:
  feeding chunks is feeding their concatenation at once.
\<close>

theorem chunking_is_irrelevant:
  assumes "concat chunks = concat chunks'"
  shows "fst (feed_chunks new_FrameDecoder chunks) = fst (feed_chunks new_FrameDecoder chunks') \<and>
         fst (snd (feed_chunks new_FrameDecoder chunks)) =
         fst (snd (feed_chunks new_FrameDecoder chunks'))"
  using feed_chunks_abs [of new_FrameDecoder chunks] feed_chunks_abs [of new_FrameDecoder chunks']
    frames.parse_chunks_concat [of "[]" chunks] frames.parse_chunks_concat [of "[]" chunks'] assms
  by (auto simp: TryDecodeFrame_short)

theorem chunking_is_irrelevant_witness:
  "concat [[1, 2], [3 :: byte]] = concat [[1], [2, 3]] \<and>
   fst (feed_chunks new_FrameDecoder [[1, 2], [3]]) =
   fst (feed_chunks new_FrameDecoder [[1], [2, 3]])"
  using chunking_is_irrelevant [of "[[1, 2], [3]]" "[[1], [2, 3]]"] by simp

end
