(* ===== verification/Unique_Fd.thy ===== *)
theory Unique_Fd
  imports Pulse_Prelude "HOL-Library.Multiset"
begin

text \<open>
  The owning file-descriptor handle (\<^verbatim>\<open>include/pulsecore/common/unique_fd.hpp\<close>,
  \<^verbatim>\<open>src/common/unique_fd.cpp\<close>). A handle operation that closes a descriptor reports it in a
  list of \<^verbatim>\<open>::close\<close> calls. Handles are objects with an address, because the move assignment
  tests \<^verbatim>\<open>this != &other\<close>: a store holds the live objects, and a program is a sequence of
  operations on it. The accounting theorem says that descriptors are neither leaked nor closed
  twice.
\<close>

section \<open>Handles\<close>

definition kInvalidFd :: int where
  [const_defs]: "kInvalidFd = -1"

record UniqueFd =
  fd_value :: int

definition new_UniqueFd :: "int \<Rightarrow> UniqueFd" where
  "new_UniqueFd fd = \<lparr>fd_value = fd\<rparr>"

definition default_UniqueFd :: UniqueFd where
  "default_UniqueFd = \<lparr>fd_value = kInvalidFd\<rparr>"

definition get :: "UniqueFd \<Rightarrow> int" where
  "get u = fd_value u"

definition is_valid :: "UniqueFd \<Rightarrow> bool" where
  "is_valid u = (fd_value u \<noteq> kInvalidFd)"

text \<open>\<open>release\<close> gives the descriptor away; \<open>reset\<close> closes the old one, if any, and adopts the new.\<close>

definition release :: "UniqueFd \<Rightarrow> int \<times> UniqueFd" where
  "release u = (fd_value u, u\<lparr>fd_value := kInvalidFd\<rparr>)"

definition reset :: "UniqueFd \<Rightarrow> int \<Rightarrow> UniqueFd \<times> int list" where
  "reset u fd =
     (if fd_value u = fd then (u, [])
      else (u\<lparr>fd_value := fd\<rparr>, if fd_value u \<noteq> kInvalidFd then [fd_value u] else []))"

text \<open>The move constructor returns the new handle and what is left of the other one.\<close>

definition move_construct :: "UniqueFd \<Rightarrow> UniqueFd \<times> UniqueFd" where
  "move_construct other = (\<lparr>fd_value = fd_value other\<rparr>, other\<lparr>fd_value := kInvalidFd\<rparr>)"

text \<open>The destructor is a \<open>reset\<close> to the default argument; the object is gone afterwards.\<close>

definition destroy :: "UniqueFd \<Rightarrow> int list" where
  "destroy u = snd (reset u kInvalidFd)"

section \<open>Objects in a store\<close>

text \<open>Live objects by address; \<open>None\<close> marks an object whose lifetime has ended.\<close>

type_synonym fd_store = "UniqueFd option list"

definition move_assign :: "fd_store \<Rightarrow> nat \<Rightarrow> nat \<Rightarrow> fd_store \<times> int list" where
  "move_assign objs this other =
     (if this \<noteq> other then
        let fd = fd_value (the (objs ! other));
            objs = objs[other := Some (the (objs ! other)\<lparr>fd_value := kInvalidFd\<rparr>)];
            (u, closes) = reset (the (objs ! this)) fd
        in (objs[this := Some u], closes)
      else (objs, []))"

text \<open>
  A program over handles. \<open>acquired\<close> and \<open>released\<close> record the descriptors that ownership was taken
  of and given away for; \<open>closes\<close> the calls of \<^verbatim>\<open>::close\<close>.
\<close>

datatype fd_op =
    Construct int
  | MoveConstruct nat
  | MoveAssign nat nat
  | Release nat
  | Reset nat int
  | Destroy nat

record fd_world =
  objs :: fd_store
  acquired :: "int multiset"
  released :: "int multiset"
  closes :: "int multiset"

definition empty_world :: fd_world where
  "empty_world = \<lparr>objs = [], acquired = {#}, released = {#}, closes = {#}\<rparr>"

definition alive :: "fd_world \<Rightarrow> nat \<Rightarrow> bool" where
  "alive w a \<longleftrightarrow> a < length (objs w) \<and> objs w ! a \<noteq> None"

definition own :: "int \<Rightarrow> int multiset" where
  "own fd = (if fd = kInvalidFd then {#} else {#fd#})"

fun own_slot :: "UniqueFd option \<Rightarrow> int multiset" where
  "own_slot None = {#}"
| "own_slot (Some u) = own (fd_value u)"

definition owned :: "fd_store \<Rightarrow> int multiset" where
  "owned os = sum_list (map own_slot os)"

text \<open>
  A descriptor may be adopted when no live handle owns it: the operating system does not hand out
  an open descriptor twice.
\<close>

definition free :: "fd_world \<Rightarrow> int \<Rightarrow> bool" where
  "free w fd \<longleftrightarrow> fd = kInvalidFd \<or> fd \<notin># owned (objs w)"

text \<open>
  \<open>None\<close>: the operation names an object that is not alive, or adopts a descriptor that another
  handle owns; no correct program does either.
\<close>

fun fd_step :: "fd_world \<Rightarrow> fd_op \<Rightarrow> fd_world option" where
  "fd_step w (Construct fd) =
     (if free w fd then
        Some (w\<lparr>objs := objs w @ [Some (new_UniqueFd fd)], acquired := acquired w + own fd\<rparr>)
      else None)"
| "fd_step w (MoveConstruct b) =
     (if alive w b then
        (case move_construct (the (objs w ! b)) of (u, other) \<Rightarrow>
           Some (w\<lparr>objs := (objs w)[b := Some other] @ [Some u]\<rparr>))
      else None)"
| "fd_step w (MoveAssign a b) =
     (if alive w a \<and> alive w b then
        (case move_assign (objs w) a b of (os, cs) \<Rightarrow>
           Some (w\<lparr>objs := os, closes := closes w + mset cs\<rparr>))
      else None)"
| "fd_step w (Release a) =
     (if alive w a then
        (case release (the (objs w ! a)) of (fd, u) \<Rightarrow>
           Some (w\<lparr>objs := (objs w)[a := Some u], released := released w + own fd\<rparr>))
      else None)"
| "fd_step w (Reset a fd) =
     (if alive w a \<and> (fd_value (the (objs w ! a)) = fd \<or> free w fd) then
        (case reset (the (objs w ! a)) fd of (u, cs) \<Rightarrow>
           Some (w\<lparr>objs := (objs w)[a := Some u], closes := closes w + mset cs,
             acquired := (if fd_value (the (objs w ! a)) = fd then acquired w else acquired w + own fd)\<rparr>))
      else None)"
| "fd_step w (Destroy a) =
     (if alive w a then
        Some (w\<lparr>objs := (objs w)[a := None],
          closes := closes w + mset (destroy (the (objs w ! a)))\<rparr>)
      else None)"

fun fd_run :: "fd_world \<Rightarrow> fd_op list \<Rightarrow> fd_world option" where
  "fd_run w [] = Some w"
| "fd_run w (p # ps) = Option.bind (fd_step w p) (\<lambda>w'. fd_run w' ps)"

section \<open>Accounting\<close>

lemma owned_snoc [simp]: "owned (os @ [x]) = owned os + own_slot x"
  by (simp add: owned_def)

lemma owned_update:
  "i < length os \<Longrightarrow> owned (os[i := x]) + own_slot (os ! i) = owned os + own_slot x"
proof (induction os arbitrary: i)
  case Nil
  then show ?case by simp
next
  case (Cons y os)
  then show ?case
    by (cases i) (auto simp: owned_def ac_simps)
qed

lemma owned_dead: "\<forall>slot \<in> set os. slot = None \<Longrightarrow> owned os = {#}"
  by (induction os) (auto simp: owned_def)

lemma own_invalid [simp]: "own kInvalidFd = {#}"
  by (simp add: own_def)

lemma mset_reset:
  "reset u fd = (u', cs) \<Longrightarrow> fd_value u' = fd \<and> (if fd_value u = fd then cs = [] else mset cs = own (fd_value u))"
  by (auto simp: reset_def own_def split: if_splits)

lemma mset_destroy: "mset (destroy u) = own (fd_value u)"
  by (simp add: destroy_def reset_def own_def)

text \<open>
  The books balance: what was acquired is still owned, was closed, or was given away; and no two
  handles own the same descriptor.
\<close>

definition balanced :: "fd_world \<Rightarrow> bool" where
  "balanced w \<longleftrightarrow> acquired w = owned (objs w) + closes w + released w \<and>
     (\<forall>fd. count (owned (objs w)) fd \<le> 1)"

lemma owned_set:
  assumes "a < length os" and "os ! a = Some u"
  shows "owned (os[a := x]) + own (fd_value u) = owned os + own_slot x"
  using owned_update [OF assms(1), of x] assms(2) by simp

text \<open>Two different live handles that own the same valid descriptor count twice.\<close>

lemma owned_twice:
  assumes "a < length os" "b < length os" "a \<noteq> b" "os ! a = Some u" "os ! b = Some v"
  shows "own (fd_value u) + own (fd_value v) \<subseteq># owned os"
proof -
  have "owned (os[a := None]) + own (fd_value u) = owned os"
    using owned_set [OF assms(1,4), of None] by simp
  moreover have "owned (os[a := None, b := None]) + own (fd_value v) = owned (os[a := None])"
    using owned_set [of b "os[a := None]" v None] assms by simp
  ultimately show ?thesis
    by (metis add.assoc add.commute mset_subset_eq_add_left)
qed

lemma move_assign_owned:
  assumes "a < length os" "b < length os" "os ! a = Some u" "os ! b = Some v"
    and uniq: "\<forall>fd. count (owned os) fd \<le> 1" and move: "move_assign os a b = (os', cs)"
  shows "owned os' + mset cs = owned os"
proof (cases "a = b")
  case True
  with move show ?thesis by (simp add: move_assign_def)
next
  case False
  let ?os = "os[b := Some (v\<lparr>fd_value := kInvalidFd\<rparr>)]"
  obtain u' where r: "reset u (fd_value v) = (u', cs)" and os': "os' = ?os[a := Some u']"
    using assms(3,4) move False by (auto simp: move_assign_def Let_def split: prod.splits)
  have "owned ?os + own (fd_value v) = owned os"
    using owned_set [OF assms(2,4), of "Some (v\<lparr>fd_value := kInvalidFd\<rparr>)"] by simp
  moreover have "owned os' + own (fd_value u) = owned ?os + own (fd_value v)"
    using owned_set [of a ?os u "Some u'"] assms(1,3) False mset_reset [OF r] by (simp add: os')
  ultimately have "owned os' + own (fd_value u) = owned os" by simp
  moreover have "own (fd_value u) = mset cs"
  proof (cases "fd_value u = fd_value v")
    case True
    with owned_twice [OF assms(1,2) False assms(3,4)]
    have "2 * count (own (fd_value u)) (fd_value u) \<le> count (owned os) (fd_value u)"
      by (metis count_union mset_subset_eq_count mult_2)
    with uniq have "2 * count (own (fd_value u)) (fd_value u) \<le> 1"
      by (meson order_trans)
    then show ?thesis
      using mset_reset [OF r] True by (auto simp: own_def split: if_splits)
  next
    case False
    with mset_reset [OF r] show ?thesis by simp
  qed
  ultimately show ?thesis by simp
qed

lemma count_le_1_mono: "A \<subseteq># B \<Longrightarrow> \<forall>x. count B x \<le> 1 \<Longrightarrow> \<forall>x. count A x \<le> (1 :: nat)"
  by (meson mset_subset_eq_count order_trans)

lemma balancedI:
  assumes "balanced w" "owned (objs w') + extra = owned (objs w)"
    and "acquired w' = acquired w" "closes w' + released w' = closes w + released w + extra"
  shows "balanced w'"
proof -
  have "owned (objs w') \<subseteq># owned (objs w)"
    using assms(2) by (metis mset_subset_eq_add_left)
  with assms(1) have "\<forall>fd. count (owned (objs w')) fd \<le> 1"
    using count_le_1_mono by (auto simp: balanced_def)
  moreover have "acquired w' = owned (objs w') + extra + (closes w + released w)"
    using assms(1-3) by (simp add: balanced_def add.assoc)
  then have "acquired w' = owned (objs w') + (closes w' + released w')"
    using assms(4) by (simp add: ac_simps)
  ultimately show ?thesis
    by (simp add: balanced_def add.assoc)
qed

lemma balanced_adopt:
  assumes "balanced w" "free w fd" "owned (objs w') = owned (objs w) + own fd"
    and "acquired w' = acquired w + own fd" "closes w' = closes w" "released w' = released w"
  shows "balanced w'"
  using assms by (auto simp: balanced_def free_def own_def not_in_iff)

lemma free_mono: "free w fd \<Longrightarrow> owned (objs w') \<subseteq># owned (objs w) \<Longrightarrow> free w' fd"
  by (auto simp: free_def dest: mset_subset_eqD)

lemma Reset_balanced:
  assumes bal: "balanced w" and step: "fd_step w (Reset a fd) = Some w'"
  shows "balanced w'"
proof -
  from step obtain u where live: "a < length (objs w)" "objs w ! a = Some u"
    and ok: "fd_value u = fd \<or> free w fd"
    by (auto simp: alive_def split: if_splits)
  show ?thesis
  proof (cases "fd_value u = fd")
    case True
    with step live have "w' = w\<lparr>objs := (objs w)[a := Some u]\<rparr>"
      by (simp add: alive_def reset_def)
    with live bal show ?thesis
      by (simp add: list_update_same_conv [THEN iffD2])
  next
    case False
    let ?w1 = "w\<lparr>objs := (objs w)[a := Some (u\<lparr>fd_value := kInvalidFd\<rparr>)],
      closes := closes w + own (fd_value u)\<rparr>"
    have own1: "owned (objs ?w1) + own (fd_value u) = owned (objs w)"
      using owned_set [OF live, of "Some (u\<lparr>fd_value := kInvalidFd\<rparr>)"] by simp
    with bal have "balanced ?w1"
      by (intro balancedI [of w ?w1 "own (fd_value u)"]) (simp_all add: ac_simps)
    moreover have "free ?w1 fd"
      using ok False own1 by (metis free_mono mset_subset_eq_add_left)
    moreover have "w' = ?w1\<lparr>objs := (objs w)[a := Some (u\<lparr>fd_value := fd\<rparr>)],
        acquired := acquired w + own fd\<rparr>"
      using step live False ok by (auto simp: alive_def reset_def own_def)
    moreover have "owned ((objs w)[a := Some (u\<lparr>fd_value := fd\<rparr>)]) = owned (objs ?w1) + own fd"
    proof -
      have "owned ((objs w)[a := Some (u\<lparr>fd_value := fd\<rparr>)]) + own (fd_value u) =
          owned (objs w) + own fd"
        using owned_set [OF live, of "Some (u\<lparr>fd_value := fd\<rparr>)"] by simp
      also have "\<dots> = owned (objs ?w1) + own (fd_value u) + own fd"
        by (subst own1) (rule refl)
      also have "\<dots> = owned (objs ?w1) + own fd + own (fd_value u)"
        by (simp only: add.assoc add.commute [of "own (fd_value u)"])
      finally show ?thesis by (simp only: add_right_cancel)
    qed
    ultimately show ?thesis
      by (intro balanced_adopt [of ?w1 fd w']) simp_all
  qed
qed

lemma fd_step_balanced:
  assumes "balanced w" "fd_step w p = Some w'"
  shows "balanced w'"
proof (cases p)
  case (Construct fd)
  with assms show ?thesis
    by (intro balanced_adopt [of w fd w']) (auto simp: new_UniqueFd_def split: if_splits)
next
  case (MoveConstruct b)
  with assms obtain v where live: "b < length (objs w)" "objs w ! b = Some v"
    and w': "w' = w\<lparr>objs := (objs w)[b := Some (v\<lparr>fd_value := kInvalidFd\<rparr>)] @
      [Some \<lparr>fd_value = fd_value v\<rparr>]\<rparr>"
    by (auto simp: alive_def move_construct_def split: if_splits)
  from owned_set [OF live, of "Some (v\<lparr>fd_value := kInvalidFd\<rparr>)"] assms(1) show ?thesis
    by (intro balancedI [of w w' "{#}"]) (simp_all add: w')
next
  case (MoveAssign a b)
  with assms(2) obtain u v os' cs where
    live: "a < length (objs w)" "b < length (objs w)" "objs w ! a = Some u" "objs w ! b = Some v"
    and move: "move_assign (objs w) a b = (os', cs)"
    and w': "w' = w\<lparr>objs := os', closes := closes w + mset cs\<rparr>"
    by (auto simp: alive_def split: if_splits prod.splits)
  have "owned os' + mset cs = owned (objs w)"
    using move_assign_owned [OF live _ move] assms(1) by (simp add: balanced_def)
  with assms(1) show ?thesis
    by (intro balancedI [of w w' "mset cs"]) (simp_all add: w' ac_simps)
next
  case (Release a)
  with assms obtain u where live: "a < length (objs w)" "objs w ! a = Some u"
    and w': "w' = w\<lparr>objs := (objs w)[a := Some (u\<lparr>fd_value := kInvalidFd\<rparr>)],
      released := released w + own (fd_value u)\<rparr>"
    by (auto simp: alive_def release_def split: if_splits)
  from owned_set [OF live, of "Some (u\<lparr>fd_value := kInvalidFd\<rparr>)"] assms(1) show ?thesis
    by (intro balancedI [of w w' "own (fd_value u)"]) (simp_all add: w' ac_simps)
next
  case (Reset a fd)
  with assms show ?thesis by (blast intro: Reset_balanced)
next
  case (Destroy a)
  with assms obtain u where live: "a < length (objs w)" "objs w ! a = Some u"
    and w': "w' = w\<lparr>objs := (objs w)[a := None], closes := closes w + own (fd_value u)\<rparr>"
    by (auto simp: alive_def mset_destroy split: if_splits)
  from owned_set [OF live, of None] assms(1) show ?thesis
    by (intro balancedI [of w w' "own (fd_value u)"]) (simp_all add: w' ac_simps)
qed

lemma fd_run_balanced: "balanced w \<Longrightarrow> fd_run w ps = Some w' \<Longrightarrow> balanced w'"
  by (induction w ps rule: fd_run.induct) (auto split: bind_splits dest: fd_step_balanced)

section \<open>Properties\<close>

text \<open>
  C34. Exclusive ownership: in every program over handles (constructions, moves, self-moves,
  releases, resets, destructions), each descriptor that was taken over is, with multiplicity,
  owned by exactly one live handle, closed once, or given away; once no handle is alive, every
  descriptor was closed exactly as often as it was acquired and not released.
\<close>

theorem descriptors_closed_exactly_once:
  assumes "fd_run empty_world ps = Some w"
  shows "acquired w = owned (objs w) + closes w + released w \<and>
    (\<forall>fd. count (owned (objs w)) fd \<le> 1) \<and>
    ((\<forall>slot \<in> set (objs w). slot = None) \<longrightarrow> acquired w = closes w + released w)"
proof -
  have "balanced empty_world"
    by (simp add: balanced_def empty_world_def owned_def)
  with assms have "balanced w"
    by (rule fd_run_balanced [rotated])
  moreover have "owned (objs w) = {#}" if "\<forall>slot \<in> set (objs w). slot = None"
    using that by (rule owned_dead)
  ultimately show ?thesis by (auto simp: balanced_def)
qed

theorem descriptors_closed_exactly_once_witness:
  "\<exists>w. fd_run empty_world [Construct 3, MoveConstruct 0, Construct 4, MoveAssign 2 1, MoveAssign 2 2,
     Destroy 2, Destroy 1, Destroy 0] = Some w \<and> closes w = {#3, 4#} \<and>
     acquired w = closes w + released w"
proof -
  let ?ps = "[Construct 3, MoveConstruct 0, Construct 4, MoveAssign 2 1, MoveAssign 2 2,
     Destroy 2, Destroy 1, Destroy 0]"
  obtain w where run: "fd_run empty_world ?ps = Some w"
    and slots: "objs w = [None, None, None]" and cl: "closes w = {#3, 4#}"
    by (simp add: empty_world_def free_def owned_def alive_def move_construct_def move_assign_def
        new_UniqueFd_def own_def reset_def destroy_def kInvalidFd_def)
  from descriptors_closed_exactly_once [OF run] slots have "acquired w = closes w + released w"
    by auto
  with run cl show ?thesis by blast
qed

end
