(* ===== verification/Connection.thy ===== *)
theory Connection
  imports Frame_Decoder Unique_Fd Kernel Loops
begin

text \<open>
  One non-blocking connection (\<^verbatim>\<open>include/pulsecore/network/connection.hpp\<close>,
  \<^verbatim>\<open>src/network/connection.cpp\<close>): budgeted reads into the frame decoder, the bounded output
  buffer with its write offset, and budgeted writes. The retry loops around \<^verbatim>\<open>recv\<close> and
  \<^verbatim>\<open>send\<close> are partial functions (a call that is interrupted for ever does not return); that
  they return is proved. The lemmas show that received bytes are parsed and none is lost, that
  both buffers respect their limits, and that the bytes on the wire are the queued frames in order.
\<close>

section \<open>Data\<close>

record ConnectionId =
  id_value :: u64

record ConnectionLimits =
  max_input_buffer :: nat
  max_output_buffer :: nat

definition default_ConnectionLimits :: ConnectionLimits where
  "default_ConnectionLimits =
     \<lparr>max_input_buffer = kHeaderSize + unat kMaxPayloadSize,
      max_output_buffer = kHeaderSize + unat kMaxPayloadSize\<rparr>"

definition kDefaultMaxReadBytesPerEvent :: nat where
  [const_defs]: "kDefaultMaxReadBytesPerEvent = 64 * 1024"

definition kDefaultMaxWriteBytesPerEvent :: nat where
  [const_defs]: "kDefaultMaxWriteBytesPerEvent = 64 * 1024"

datatype ReadAvailableStatus = kReadOk | kReadWouldBlock | kReadPeerClosed | kReadProtocolError

record ReadAvailableResult =
  ra_status :: ReadAvailableStatus
  ra_messages :: "Message list"
  ra_protocol_error :: "ProtocolError option"

definition ReadOk :: "Message list \<Rightarrow> ReadAvailableResult" where
  "ReadOk ms = \<lparr>ra_status = kReadOk, ra_messages = ms, ra_protocol_error = None\<rparr>"

definition ReadWouldBlock :: ReadAvailableResult where
  "ReadWouldBlock = \<lparr>ra_status = kReadWouldBlock, ra_messages = [], ra_protocol_error = None\<rparr>"

definition ReadPeerClosed :: "Message list \<Rightarrow> ReadAvailableResult" where
  "ReadPeerClosed ms = \<lparr>ra_status = kReadPeerClosed, ra_messages = ms, ra_protocol_error = None\<rparr>"

definition ReadProtocolError :: "ProtocolError \<Rightarrow> Message list \<Rightarrow> ReadAvailableResult" where
  "ReadProtocolError e ms =
     \<lparr>ra_status = kReadProtocolError, ra_messages = ms, ra_protocol_error = Some e\<rparr>"

datatype WriteAvailableStatus = kWriteOk | kWriteWouldBlock | kWritePeerClosed

record WriteAvailableResult =
  wa_status :: WriteAvailableStatus
  wa_bytes_written :: nat

definition IsWouldBlock :: "errno \<Rightarrow> bool" where
  "IsWouldBlock e = (e = EAGAIN \<or> e = EWOULDBLOCK)"

definition IsPeerClosedError :: "errno \<Rightarrow> bool" where
  "IsPeerClosedError e = (e = ECONNRESET \<or> e = EPIPE)"

section \<open>Descriptor flags\<close>

definition O_NONBLOCK :: u32 where
  "O_NONBLOCK = 0x800"

definition SetNonBlocking :: "'w sys \<Rightarrow> int \<Rightarrow> 'w \<Rightarrow> (exn + unit) \<times> 'w" where
  "SetNonBlocking K fd w =
     (case sys_getfl K fd w of
        (Inl e, w) \<Rightarrow> (Inl (SyscallError ''fcntl(F_GETFL)'' e), w)
      | (Inr flags, w) \<Rightarrow>
          if flags AND O_NONBLOCK \<noteq> 0 then (Inr (), w)
          else
            (case sys_setfl K fd (flags OR O_NONBLOCK) w of
               (Inl e, w) \<Rightarrow> (Inl (SyscallError ''fcntl(F_SETFL)'' e), w)
             | (Inr _, w) \<Rightarrow> (Inr (), w)))"

definition IsNonBlocking :: "'w sys \<Rightarrow> int \<Rightarrow> 'w \<Rightarrow> (exn + bool) \<times> 'w" where
  "IsNonBlocking K fd w =
     (case sys_getfl K fd w of
        (Inl e, w) \<Rightarrow> (Inl (SyscallError ''fcntl(F_GETFL)'' e), w)
      | (Inr flags, w) \<Rightarrow> (Inr (flags AND O_NONBLOCK \<noteq> 0), w))"

section \<open>Connection state and queries\<close>

record Connection =
  conn_id :: ConnectionId
  conn_fd :: UniqueFd
  limits :: ConnectionLimits
  decoder :: FrameDecoder
  output_buffer :: "byte list"
  output_offset :: nat

definition new_Connection :: "ConnectionId \<Rightarrow> UniqueFd \<Rightarrow> ConnectionLimits \<Rightarrow> Connection" where
  "new_Connection i fd lim =
     \<lparr>conn_id = i, conn_fd = fd, limits = lim, decoder = new_FrameDecoder,
      output_buffer = [], output_offset = 0\<rparr>"

definition pending_output_bytes :: "Connection \<Rightarrow> nat" where
  "pending_output_bytes c = length (output_buffer c) - output_offset c"

definition has_pending_output :: "Connection \<Rightarrow> bool" where
  "has_pending_output c = (pending_output_bytes c > 0)"

definition output_storage_bytes :: "Connection \<Rightarrow> nat" where
  "output_storage_bytes c = length (output_buffer c)"

definition buffered_input_bytes :: "Connection \<Rightarrow> nat" where
  "buffered_input_bytes c = BufferedSize (decoder c)"

section \<open>Reading\<close>

text \<open>
  The loop of \<^verbatim>\<open>ReadAvailable\<close>: its state is the connection, the messages so far, the flag
  \<^verbatim>\<open>made_progress\<close>, the bytes read so far and the system. The stack buffer of the sources holds
  4096 bytes.
\<close>

type_synonym 'w read_state = "Connection \<times> Message list \<times> bool \<times> nat \<times> 'w"
type_synonym ('r, 'w) conn_outcome = "(exn + 'r) \<times> Connection \<times> 'w"

definition ReadAvailable_body ::
  "'w sys \<Rightarrow> nat \<Rightarrow> 'w read_state \<Rightarrow> 'w read_state + (ReadAvailableResult, 'w) conn_outcome" where
  "ReadAvailable_body K max_read_bytes = (\<lambda>(c, messages, made_progress, total_read, w).
     case DrainDecoder (decoder c) messages of (drain_error, d, messages) \<Rightarrow>
       let c = c\<lparr>decoder := d\<rparr> in
       (case drain_error of
          Some e \<Rightarrow> Inr (Inr (ReadProtocolError e messages), c, w)
        | None \<Rightarrow>
            if total_read \<ge> max_read_bytes then Inr (Inr (ReadOk messages), c, w)
            else if BufferedSize d \<ge> max_input_buffer (limits c)
            then Inr (Inr (ReadProtocolError kPayloadTooLarge messages), c, w)
            else
              let read_budget = max_read_bytes - total_read;
                  input_space = max_input_buffer (limits c) - BufferedSize d;
                  bytes_to_read = min (min 4096 read_budget) input_space
              in
              (case sys_recv K (get (conn_fd c)) bytes_to_read w of
                 (Inl e, w') \<Rightarrow>
                   if e = EINTR then Inl (c, messages, made_progress, total_read, w')
                   else if IsWouldBlock e
                   then Inr (Inr (if made_progress \<or> messages \<noteq> [] then ReadOk messages
                                  else ReadWouldBlock), c, w')
                   else if IsPeerClosedError e then Inr (Inr (ReadPeerClosed messages), c, w')
                   else Inr (Inl (SyscallError ''recv'' e), c, w')
               | (Inr bytes, w') \<Rightarrow>
                   if bytes = [] then Inr (Inr (ReadPeerClosed messages), c, w')
                   else Inl (c\<lparr>decoder := Append d bytes\<rparr>, messages, True,
                             total_read + length bytes, w'))))"

definition ReadAvailable ::
  "'w sys \<Rightarrow> Connection \<Rightarrow> nat \<Rightarrow> 'w \<Rightarrow> (ReadAvailableResult, 'w) conn_outcome option" where
  "ReadAvailable K c max_read_bytes w =
     iterate (ReadAvailable_body K max_read_bytes) (c, [], False, 0, w)"

section \<open>Writing\<close>

definition CompactOutputBuffer :: "Connection \<Rightarrow> Connection" where
  "CompactOutputBuffer c =
     (if output_offset c = 0 then c
      else if output_offset c \<ge> length (output_buffer c)
      then c\<lparr>output_buffer := [], output_offset := 0\<rparr>
      else c\<lparr>output_buffer := drop (output_offset c) (output_buffer c), output_offset := 0\<rparr>)"

definition QueueOutput :: "Connection \<Rightarrow> Message \<Rightarrow> bool \<times> Connection" where
  "QueueOutput c m =
     (case EncodeMessage m of
        None \<Rightarrow> (False, c)
      | Some encoded \<Rightarrow>
          let c = CompactOutputBuffer c;
              pending = pending_output_bytes c
          in if pending > max_output_buffer (limits c) then (False, c)
             else if length encoded > max_output_buffer (limits c) - pending then (False, c)
             else if pending = 0 then (True, c\<lparr>output_buffer := encoded, output_offset := 0\<rparr>)
             else (True, c\<lparr>output_buffer := output_buffer c @ encoded\<rparr>))"

text \<open>The loop of \<^verbatim>\<open>WriteAvailable\<close>: the connection, the bytes written so far and the system.\<close>

definition WriteAvailable_body ::
  "'w sys \<Rightarrow> nat \<Rightarrow> Connection \<times> nat \<times> 'w \<Rightarrow>
   Connection \<times> nat \<times> 'w + (WriteAvailableResult, 'w) conn_outcome" where
  "WriteAvailable_body K max_write_bytes = (\<lambda>(c, bytes_written, w).
     if output_offset c < length (output_buffer c) then
       if bytes_written \<ge> max_write_bytes
       then Inr (Inr \<lparr>wa_status = kWriteOk, wa_bytes_written = bytes_written\<rparr>, c, w)
       else
         let remaining_budget = max_write_bytes - bytes_written;
             pending = length (output_buffer c) - output_offset c;
             bytes_to_write = min pending remaining_budget
         in
         (case sys_send K (get (conn_fd c))
                 (take bytes_to_write (drop (output_offset c) (output_buffer c))) w of
            (Inl e, w') \<Rightarrow>
              if e = EINTR then Inl (c, bytes_written, w')
              else if IsWouldBlock e
              then Inr (Inr \<lparr>wa_status = kWriteWouldBlock, wa_bytes_written = bytes_written\<rparr>, c, w')
              else if IsPeerClosedError e
              then Inr (Inr \<lparr>wa_status = kWritePeerClosed, wa_bytes_written = bytes_written\<rparr>, c, w')
              else Inr (Inl (SyscallError ''send'' e), c, w')
          | (Inr sent, w') \<Rightarrow>
              if sent = 0
              then Inr (Inr \<lparr>wa_status = kWriteWouldBlock, wa_bytes_written = bytes_written\<rparr>, c, w')
              else Inl (c\<lparr>output_offset := output_offset c + sent\<rparr>, bytes_written + sent, w'))
     else Inr (Inr \<lparr>wa_status = kWriteOk, wa_bytes_written = bytes_written\<rparr>,
               c\<lparr>output_buffer := [], output_offset := 0\<rparr>, w))"

definition WriteAvailable ::
  "'w sys \<Rightarrow> Connection \<Rightarrow> nat \<Rightarrow> 'w \<Rightarrow> (WriteAvailableResult, 'w) conn_outcome option" where
  "WriteAvailable K c max_write_bytes w =
     iterate (WriteAvailable_body K max_write_bytes) (c, 0, w)"

section \<open>Output lemmas\<close>

definition pending :: "Connection \<Rightarrow> byte list" where
  "pending c = drop (output_offset c) (output_buffer c)"

definition out_inv :: "Connection \<Rightarrow> bool" where
  "out_inv c \<longleftrightarrow> output_offset c \<le> length (output_buffer c) \<and>
     length (output_buffer c) \<le> max_output_buffer (limits c)"

lemma pending_output_bytes_abs [abs_simps]: "pending_output_bytes c = length (pending c)"
  by (simp add: pending_output_bytes_def pending_def)

lemma has_pending_output_abs [abs_simps]: "has_pending_output c \<longleftrightarrow> pending c \<noteq> []"
  by (simp add: has_pending_output_def pending_output_bytes_abs)

lemma CompactOutputBuffer_abs:
  "pending (CompactOutputBuffer c) = pending c" "output_offset (CompactOutputBuffer c) = 0"
  "output_buffer (CompactOutputBuffer c) = pending c"
  by (auto simp: CompactOutputBuffer_def pending_def)

lemma CompactOutputBuffer_frame [simp]:
  "conn_id (CompactOutputBuffer c) = conn_id c" "conn_fd (CompactOutputBuffer c) = conn_fd c"
  "limits (CompactOutputBuffer c) = limits c" "decoder (CompactOutputBuffer c) = decoder c"
  by (simp_all add: CompactOutputBuffer_def)

text \<open>What one call of the write loop did: \<open>k\<close> pending bytes went to the wire.\<close>

definition wrote ::
  "(int \<Rightarrow> 'w \<Rightarrow> byte list) \<Rightarrow> nat \<Rightarrow> Connection \<Rightarrow> 'w \<Rightarrow> Connection \<Rightarrow> 'w \<Rightarrow> bool" where
  "wrote wire k c w c' w' \<longleftrightarrow>
     k \<le> length (pending c) \<and> pending c' = drop k (pending c) \<and>
     wire (get (conn_fd c)) w' = wire (get (conn_fd c)) w @ take k (pending c) \<and>
     conn_id c' = conn_id c \<and> conn_fd c' = conn_fd c \<and> limits c' = limits c \<and>
     decoder c' = decoder c \<and> (out_inv c \<longrightarrow> out_inv c')"

lemma wrote_refl: "wrote wire 0 c w c w"
  by (simp add: wrote_def)

lemma wrote_interrupted: "wire (get (conn_fd c)) w1 = wire (get (conn_fd c)) w \<Longrightarrow>
   wrote wire k c w1 c' w' \<Longrightarrow> wrote wire k c w c' w'"
  by (simp add: wrote_def)

lemma wrote_step:
  assumes "j \<le> length (pending c)" "output_offset c < length (output_buffer c)"
    and "wire (get (conn_fd c)) w1 = wire (get (conn_fd c)) w @ take j (pending c)"
    and "wrote wire k (c\<lparr>output_offset := output_offset c + j\<rparr>) w1 c' w'"
  shows "wrote wire (j + k) c w c' w'"
proof -
  have "pending (c\<lparr>output_offset := output_offset c + j\<rparr>) = drop j (pending c)"
    by (simp add: pending_def add.commute)
  moreover have "out_inv c \<Longrightarrow> out_inv (c\<lparr>output_offset := output_offset c + j\<rparr>)"
    using assms(1,2) by (auto simp: out_inv_def pending_def)
  ultimately show ?thesis
    using assms by (auto simp: wrote_def take_add add.commute)
qed

lemma wrote_all:
  "\<not> output_offset c < length (output_buffer c) \<Longrightarrow>
     wrote wire 0 c w (c\<lparr>output_buffer := [], output_offset := 0\<rparr>) w"
  by (simp add: wrote_def pending_def out_inv_def)

definition write_post ::
  "(int \<Rightarrow> 'w \<Rightarrow> byte list) \<Rightarrow> nat \<Rightarrow> Connection \<Rightarrow> nat \<Rightarrow> 'w \<Rightarrow>
   (exn + WriteAvailableResult) \<times> Connection \<times> 'w \<Rightarrow> bool" where
  "write_post wire mx c n w out \<longleftrightarrow>
     (case out of (res, c', w') \<Rightarrow>
        \<exists>k. wrote wire k c w c' w' \<and> (n \<le> mx \<longrightarrow> n + k \<le> mx) \<and>
          (case res of
             Inl e \<Rightarrow> \<exists>err. e = SyscallError ''send'' err
           | Inr r \<Rightarrow> wa_bytes_written r = n + k \<and>
               (wa_status r = kWriteOk \<longrightarrow> pending c' = [] \<or> n + k \<ge> mx)))"

lemma write_post_sent:
  assumes "j \<le> length (pending c)" "output_offset c < length (output_buffer c)"
    and "wire (get (conn_fd c)) w1 = wire (get (conn_fd c)) w @ take j (pending c)"
    and "n + j \<le> mx" "write_post wire mx (c\<lparr>output_offset := output_offset c + j\<rparr>) (n + j) w1 out"
  shows "write_post wire mx c n w out"
proof -
  obtain res c' w' where out: "out = (res, c', w')"
    by (metis prod_cases3)
  from assms(5) obtain k where k: "wrote wire k (c\<lparr>output_offset := output_offset c + j\<rparr>) w1 c' w'"
    "n + j + k \<le> mx"
    "case res of Inl e \<Rightarrow> \<exists>err. e = SyscallError ''send'' err
     | Inr r \<Rightarrow> wa_bytes_written r = n + j + k \<and>
         (wa_status r = kWriteOk \<longrightarrow> pending c' = [] \<or> n + j + k \<ge> mx)"
    using assms(4) by (auto simp: write_post_def out)
  have "wrote wire (j + k) c w c' w'"
    using assms(1-3) k(1) by (rule wrote_step)
  with k(2,3) show ?thesis
    unfolding write_post_def out by (auto simp: add.assoc split: sum.splits intro!: exI [of _ "j + k"])
qed

lemma WriteAvailable_body_return:
  assumes K: "send_extends_stream K wire" and "WriteAvailable_body K mx (c, n, w) = Inr out"
  shows "write_post wire mx c n w out"
proof -
  have "\<exists>c'. wrote wire 0 c w c' (snd (snd out)) \<and> fst (snd out) = c' \<and>
    (case fst out of Inl e \<Rightarrow> \<exists>err. e = SyscallError ''send'' err
       | Inr r \<Rightarrow> wa_bytes_written r = n \<and> (wa_status r = kWriteOk \<longrightarrow> pending c' = [] \<or> n \<ge> mx))"
    using assms(2) K
    by (auto simp: WriteAvailable_body_def Let_def pending_def wrote_all wrote_refl
        dest: send_extends_streamD split: if_splits prod.splits sum.splits
        intro!: wrote_interrupted [OF _ wrote_refl])
  then show ?thesis
    by (auto simp: write_post_def split: sum.splits intro!: exI [of _ 0])
qed

lemma WriteAvailable_body_continue:
  assumes K: "send_extends_stream K wire" and "WriteAvailable_body K mx (c, n, w) = Inl (c1, n1, w1)"
  obtains (interrupted) "c1 = c" "n1 = n" "wire (get (conn_fd c)) w1 = wire (get (conn_fd c)) w"
      "\<exists>bs. sys_send K (get (conn_fd c)) bs w = (Inl EINTR, w1)"
  | (sent) j where "0 < j" "j \<le> length (pending c)" "n + j \<le> mx" "n1 = n + j"
      "c1 = c\<lparr>output_offset := output_offset c + j\<rparr>"
      "output_offset c < length (output_buffer c)"
      "wire (get (conn_fd c)) w1 = wire (get (conn_fd c)) w @ take j (pending c)"
proof -
  let ?bs = "take (min (length (output_buffer c) - output_offset c) (mx - n)) (pending c)"
  have room: "output_offset c < length (output_buffer c)" "n < mx"
    using assms(2) by (auto simp: WriteAvailable_body_def split: if_splits)
  show thesis
  proof (cases "sys_send K (get (conn_fd c)) ?bs w")
    case (Pair a w')
    show ?thesis
    proof (cases a)
      case (Inl e)
      with assms(2) Pair room have "e = EINTR" "c1 = c" "n1 = n" "w1 = w'"
        by (auto simp: WriteAvailable_body_def pending_def split: if_splits)
      with Pair Inl show ?thesis
        by (intro interrupted) (auto dest: send_extends_streamD(2) [OF K])
    next
      case (Inr j)
      with assms(2) Pair room
      have step: "0 < j" "c1 = c\<lparr>output_offset := output_offset c + j\<rparr>" "n1 = n + j" "w1 = w'"
        by (auto simp: WriteAvailable_body_def pending_def split: if_splits)
      from send_extends_streamD(1) [OF K, of _ ?bs w j w'] Pair Inr
      have "j \<le> length ?bs" "wire (get (conn_fd c)) w' = wire (get (conn_fd c)) w @ take j ?bs"
        by auto
      with step room show ?thesis
        by (intro sent [of j]) (auto simp: min_def split: if_splits)
    qed
  qed
qed

lemma WriteAvailable_post:
  assumes K: "send_extends_stream K wire" and "WriteAvailable K c mx w = Some out"
  shows "write_post wire mx c 0 w out"
proof -
  have "case (c, 0, w) of (c, n, w) \<Rightarrow> write_post wire mx c n w out"
  proof (rule iterate_rel [where J = "\<lambda>_. True" and body = "WriteAvailable_body K mx" and
        R = "\<lambda>s out. case s of (c, n, w) \<Rightarrow> write_post wire mx c n w out"])
    show "iterate (WriteAvailable_body K mx) (c, 0, w) = Some out"
      using assms(2) by (simp add: WriteAvailable_def)
  next
    fix s s' :: "Connection \<times> nat \<times> 'a" and r
    assume cont: "WriteAvailable_body K mx s = Inl s'"
    obtain c n w c1 n1 w1 where s: "s = (c, n, w)" "s' = (c1, n1, w1)"
      by (metis prod_cases3)
    from K cont have "write_post wire mx c1 n1 w1 r \<longrightarrow> write_post wire mx c n w r"
      unfolding s
    proof (cases rule: WriteAvailable_body_continue)
      case interrupted
      then show ?thesis
        by (auto simp: write_post_def dest: wrote_interrupted [rotated])
    next
      case (sent j)
      then show ?thesis
        by (auto intro: write_post_sent [where j = j])
    qed
    then show "True \<and> ((case s' of (c, n, w) \<Rightarrow> write_post wire mx c n w r) \<longrightarrow>
        (case s of (c, n, w) \<Rightarrow> write_post wire mx c n w r))"
      by (simp add: s)
  qed (auto intro: WriteAvailable_body_return [OF K])
  then show ?thesis by simp
qed

lemma WriteAvailable_returns:
  assumes K: "send_extends_stream K wire" "send_settles K patience"
  shows "\<exists>out. WriteAvailable K c mx w = Some out"
  unfolding WriteAvailable_def
proof (rule iterate_returns [where I = "\<lambda>_. True" and
      r = "measures [\<lambda>(c, n, w). mx - n, \<lambda>(c, n, w). patience (get (conn_fd c)) w]"])
  fix s s' :: "Connection \<times> nat \<times> 'a"
  assume cont: "WriteAvailable_body K mx s = Inl s'"
  obtain c n w c1 n1 w1 where s: "s = (c, n, w)" "s' = (c1, n1, w1)"
    by (metis prod_cases3)
  from K(1) cont show "True \<and> (s', s) \<in> measures [\<lambda>(c, n, w). mx - n, \<lambda>(c, n, w). patience (get (conn_fd c)) w]"
    unfolding s
  proof (cases rule: WriteAvailable_body_continue)
    case interrupted
    with K(2) show "True \<and> ((c1, n1, w1), c, n, w)
        \<in> measures [\<lambda>(c, n, w). mx - n, \<lambda>(c, n, w). patience (get (conn_fd c)) w]"
      by (auto simp: send_settles_def)
  qed auto
qed auto

lemma QueueOutput_accepts:
  assumes "QueueOutput c m = (True, c')"
  shows "encodable m" "pending c' = pending c @ frame_of m" "out_inv c'"
    "limits c' = limits c" "conn_fd c' = conn_fd c" "conn_id c' = conn_id c" "decoder c' = decoder c"
  using assms
  by (auto simp: QueueOutput_def EncodeMessage_eq Let_def pending_output_bytes_abs
      CompactOutputBuffer_abs pending_def [of "c\<lparr>output_buffer := x\<rparr>" for x] out_inv_def
      split: if_splits) (auto simp: pending_def CompactOutputBuffer_abs(2))

lemma QueueOutput_rejects:
  assumes "QueueOutput c m = (False, c')"
  shows "\<not> encodable m \<or> length (pending c) + length (frame_of m) > max_output_buffer (limits c)"
    "pending c' = pending c" "out_inv c \<Longrightarrow> out_inv c'"
    "limits c' = limits c" "conn_fd c' = conn_fd c" "conn_id c' = conn_id c" "decoder c' = decoder c"
  using assms
  by (auto simp: QueueOutput_def EncodeMessage_eq Let_def pending_output_bytes_abs
      CompactOutputBuffer_abs out_inv_def split: if_splits) (auto simp: pending_def)

section \<open>Input lemmas\<close>

definition in_inv :: "Connection \<Rightarrow> bool" where
  "in_inv c \<longleftrightarrow> decoder_inv (decoder c) \<and>
     length (unread (decoder c)) \<le> max_input_buffer (limits c)"

text \<open>
  What a call of the read loop did: it took the bytes \<open>bs\<close> off the stream, and parsing what was
  unread before together with \<open>bs\<close> gives the new messages, the error and the bytes now unread.
\<close>

definition consumed ::
  "(int \<Rightarrow> 'w \<Rightarrow> byte list) \<Rightarrow> byte list \<Rightarrow> Message list \<Rightarrow> ProtocolError option \<Rightarrow>
   Connection \<Rightarrow> 'w \<Rightarrow> Connection \<Rightarrow> 'w \<Rightarrow> bool" where
  "consumed inbound bs new e c w c' w' \<longleftrightarrow>
     inbound (get (conn_fd c)) w = bs @ inbound (get (conn_fd c)) w' \<and>
     parse_stream frame_verdict (unread (decoder c) @ bs) = (new, e, unread (decoder c')) \<and>
     (\<exists>d. c' = c\<lparr>decoder := d\<rparr>) \<and> in_inv c'"

text \<open>How the result reports it, given the messages collected and the progress made before.\<close>

definition read_report ::
  "Message list \<Rightarrow> bool \<Rightarrow> byte list \<Rightarrow> Message list \<Rightarrow> ProtocolError option \<Rightarrow> Connection \<Rightarrow>
   exn + ReadAvailableResult \<Rightarrow> bool" where
  "read_report ms progress bs new e c' res =
     (case res of
        Inl x \<Rightarrow> e = None \<and> (\<exists>err. x = SyscallError ''recv'' err)
      | Inr r \<Rightarrow> ra_messages r = ms @ new \<and>
          (case ra_status r of
             kReadProtocolError \<Rightarrow> ra_protocol_error r \<noteq> None \<and>
               (ra_protocol_error r = e \<or>
                e = None \<and> ra_protocol_error r = Some kPayloadTooLarge \<and>
                length (unread (decoder c')) = max_input_buffer (limits c'))
           | kReadWouldBlock \<Rightarrow> e = None \<and> ms @ new = [] \<and> \<not> progress \<and> bs = []
           | _ \<Rightarrow> e = None))"

definition read_post ::
  "(int \<Rightarrow> 'w \<Rightarrow> byte list) \<Rightarrow> nat \<Rightarrow> 'w read_state \<Rightarrow> (ReadAvailableResult, 'w) conn_outcome \<Rightarrow> bool" where
  "read_post inbound mx = (\<lambda>(c, ms, progress, n, w) (res, c', w').
     \<exists>bs new e. consumed inbound bs new e c w c' w' \<and> (n \<le> mx \<longrightarrow> n + length bs \<le> mx) \<and>
       read_report ms progress bs new e c' res)"

lemma DrainDecoder_in_inv:
  assumes "in_inv c" "DrainDecoder (decoder c) ms = (e, d, ms')"
  obtains new where "ms' = ms @ new" "in_inv (c\<lparr>decoder := d\<rparr>)"
    "parse_stream frame_verdict (unread (decoder c)) = (new, e, unread d)"
proof -
  from assms DrainDecoder_abs [of "decoder c" ms e d ms'] obtain new where
    new: "ms' = ms @ new" "decoder_inv d"
    "parse_stream frame_verdict (unread (decoder c)) = (new, e, unread d)"
    by (auto simp: in_inv_def)
  from frames.parse_split [OF new(3)] have "length (unread d) \<le> length (unread (decoder c))"
    by (metis le_add2 length_append)
  with new assms(1) that show ?thesis
    by (auto simp: in_inv_def)
qed

lemma consumed_drained:
  assumes "consumed inbound bs new2 e (c\<lparr>decoder := d\<rparr>) w c' w'"
    and "parse_stream frame_verdict (unread (decoder c)) = (new1, None, unread d)"
  shows "consumed inbound bs (new1 @ new2) e c w c' w'"
  using assms frames.parse_append [of "unread (decoder c)" bs]
  by (auto simp: consumed_def)

lemma consumed_received:
  assumes "consumed inbound bs2 new e (c\<lparr>decoder := Append d bs1\<rparr>) w1 c' w'" "decoder_inv d"
    and "inbound (get (conn_fd c)) w = bs1 @ inbound (get (conn_fd c)) w1"
  shows "consumed inbound (bs1 @ bs2) new e (c\<lparr>decoder := d\<rparr>) w c' w'"
  using assms by (auto simp: consumed_def Append_abs)

lemma consumed_nothing:
  assumes "parse_stream frame_verdict (unread (decoder c)) = (new, e, unread d)"
    and "in_inv (c\<lparr>decoder := d\<rparr>)" "inbound (get (conn_fd c)) w' = inbound (get (conn_fd c)) w"
  shows "consumed inbound [] new e c w (c\<lparr>decoder := d\<rparr>) w'"
  using assms by (auto simp: consumed_def)

lemma ReadAvailable_body_return:
  assumes K: "recv_takes_stream K inbound" and inv: "in_inv c"
    and ret: "ReadAvailable_body K mx (c, ms, progress, n, w) = Inr out"
  shows "read_post inbound mx (c, ms, progress, n, w) out"
proof -
  obtain e d ms' where drain: "DrainDecoder (decoder c) ms = (e, d, ms')"
    by (metis prod_cases3)
  from inv drain obtain new where new: "ms' = ms @ new" "in_inv (c\<lparr>decoder := d\<rparr>)"
    "parse_stream frame_verdict (unread (decoder c)) = (new, e, unread d)"
    by (rule DrainDecoder_in_inv)
  note report = Let_def drain new(1) BufferedSize_abs read_report_def ReadOk_def ReadWouldBlock_def
    ReadPeerClosed_def ReadProtocolError_def
  have "\<exists>res w'. out = (res, c\<lparr>decoder := d\<rparr>, w') \<and>
      inbound (get (conn_fd c)) w' = inbound (get (conn_fd c)) w \<and>
      read_report ms progress [] new e (c\<lparr>decoder := d\<rparr>) res"
  proof (cases "e = None \<and> n < mx \<and> length (unread d) < max_input_buffer (limits c)")
    case False
    with ret new(2) show ?thesis
      by (cases e) (auto simp: ReadAvailable_body_def in_inv_def report split: if_splits)
  next
    case True
    let ?k = "min (min 4096 (mx - n)) (max_input_buffer (limits c) - length (unread d))"
    obtain a w' where recv: "sys_recv K (get (conn_fd c)) ?k w = (a, w')"
      by (metis surj_pair)
    show ?thesis
    proof (cases a)
      case (Inl err)
      with recv have "inbound (get (conn_fd c)) w' = inbound (get (conn_fd c)) w"
        by (simp add: recv_takes_streamD(2) [OF K])
      with ret True recv Inl show ?thesis
        by (auto simp: ReadAvailable_body_def report split: if_splits)
    next
      case (Inr bytes)
      with ret True recv have "bytes = []"
        by (auto simp: ReadAvailable_body_def report split: if_splits)
      with recv Inr recv_takes_streamD(1) [OF K, of "get (conn_fd c)" ?k w bytes w']
      have "inbound (get (conn_fd c)) w' = inbound (get (conn_fd c)) w"
        by simp
      with ret True recv Inr \<open>bytes = []\<close> show ?thesis
        by (auto simp: ReadAvailable_body_def report)
    qed
  qed
  then obtain res w' where "out = (res, c\<lparr>decoder := d\<rparr>, w')"
    "inbound (get (conn_fd c)) w' = inbound (get (conn_fd c)) w"
    "read_report ms progress [] new e (c\<lparr>decoder := d\<rparr>) res"
    by blast
  with consumed_nothing [OF new(3,2), of inbound w' w] show ?thesis
    unfolding read_post_def by force
qed

lemma ReadAvailable_body_continue:
  assumes K: "recv_takes_stream K inbound" and inv: "in_inv c"
    and cont: "ReadAvailable_body K mx (c, ms, progress, n, w) = Inl (c1, ms1, progress1, n1, w1)"
  obtains (interrupted) d new where "c1 = c\<lparr>decoder := d\<rparr>" "ms1 = ms @ new" "progress1 = progress"
      "n1 = n" "in_inv c1" "parse_stream frame_verdict (unread (decoder c)) = (new, None, unread d)"
      "inbound (get (conn_fd c)) w1 = inbound (get (conn_fd c)) w"
      "\<exists>k. sys_recv K (get (conn_fd c)) k w = (Inl EINTR, w1)"
  | (received) d new bytes where "c1 = c\<lparr>decoder := Append d bytes\<rparr>" "ms1 = ms @ new" "progress1"
      "n1 = n + length bytes" "in_inv c1" "decoder_inv d" "bytes \<noteq> []" "n + length bytes \<le> mx"
      "parse_stream frame_verdict (unread (decoder c)) = (new, None, unread d)"
      "inbound (get (conn_fd c)) w = bytes @ inbound (get (conn_fd c)) w1"
proof -
  obtain e d ms' where drain: "DrainDecoder (decoder c) ms = (e, d, ms')"
    by (metis prod_cases3)
  from inv drain obtain new where new: "ms' = ms @ new" "in_inv (c\<lparr>decoder := d\<rparr>)"
    "parse_stream frame_verdict (unread (decoder c)) = (new, e, unread d)"
    by (rule DrainDecoder_in_inv)
  let ?k = "min (min 4096 (mx - n)) (max_input_buffer (limits c) - length (unread d))"
  have e: "e = None" "n < mx" "length (unread d) < max_input_buffer (limits c)"
    using cont by (auto simp: ReadAvailable_body_def drain Let_def BufferedSize_abs
        split: option.splits if_splits)
  obtain a w' where recv: "sys_recv K (get (conn_fd c)) ?k w = (a, w')"
    by (metis surj_pair)
  show thesis
  proof (cases a)
    case (Inl err)
    with cont recv e have "err = EINTR" "c1 = c\<lparr>decoder := d\<rparr>" "ms1 = ms'" "progress1 = progress"
      "n1 = n" "w1 = w'"
      by (auto simp: ReadAvailable_body_def drain Let_def BufferedSize_abs split: if_splits)
    with new e recv Inl show ?thesis
      by (intro interrupted [of d new]) (auto dest: recv_takes_streamD(2) [OF K])
  next
    case (Inr bytes)
    with cont recv e have step: "bytes \<noteq> []" "c1 = c\<lparr>decoder := Append d bytes\<rparr>" "ms1 = ms'"
      "progress1" "n1 = n + length bytes" "w1 = w'"
      by (auto simp: ReadAvailable_body_def drain Let_def BufferedSize_abs split: if_splits)
    have "length bytes \<le> ?k" "inbound (get (conn_fd c)) w = bytes @ inbound (get (conn_fd c)) w'"
      using recv_takes_streamD(1) [OF K, of "get (conn_fd c)" ?k w bytes w'] recv Inr by simp_all
    moreover have "in_inv c1"
      using new(2) e(3) \<open>length bytes \<le> ?k\<close> by (auto simp: step in_inv_def Append_abs Append_inv)
    ultimately show ?thesis
      using new e step by (intro received [of d bytes new]) (auto simp: in_inv_def)
  qed
qed


lemma read_post_interrupted:
  assumes "parse_stream frame_verdict (unread (decoder c)) = (new, None, unread d)"
    and "inbound (get (conn_fd c)) w1 = inbound (get (conn_fd c)) w"
    and "read_post inbound mx (c\<lparr>decoder := d\<rparr>, ms @ new, progress, n, w1) out"
  shows "read_post inbound mx (c, ms, progress, n, w) out"
proof -
  obtain res c' w' where out: "out = (res, c', w')" by (cases out)
  with assms(3) obtain bs new' e where
    post: "consumed inbound bs new' e (c\<lparr>decoder := d\<rparr>) w1 c' w'" "n \<le> mx \<longrightarrow> n + length bs \<le> mx"
    "read_report (ms @ new) progress bs new' e c' res"
    by (auto simp: read_post_def)
  have "consumed inbound bs new' e (c\<lparr>decoder := d\<rparr>) w c' w'"
    using post(1) assms(2) by (simp add: consumed_def)
  with assms(1) have "consumed inbound bs (new @ new') e c w c' w'"
    by (rule consumed_drained [rotated])
  moreover have "read_report ms progress bs (new @ new') e c' res"
    using post(3) by (simp only: read_report_def append_assoc)
  ultimately show ?thesis
    unfolding read_post_def out using post(2) by auto
qed

lemma read_post_received:
  assumes "parse_stream frame_verdict (unread (decoder c)) = (new, None, unread d)" "decoder_inv d"
    and "inbound (get (conn_fd c)) w = bytes @ inbound (get (conn_fd c)) w1"
    and "n + length bytes \<le> mx"
    and "read_post inbound mx (c\<lparr>decoder := Append d bytes\<rparr>, ms @ new, True, n + length bytes, w1) out"
  shows "read_post inbound mx (c, ms, progress, n, w) out"
proof -
  obtain res c' w' where out: "out = (res, c', w')" by (cases out)
  with assms(5) obtain bs new' e where
    post: "consumed inbound bs new' e (c\<lparr>decoder := Append d bytes\<rparr>) w1 c' w'"
    "n + length bytes \<le> mx \<longrightarrow> n + length bytes + length bs \<le> mx"
    "read_report (ms @ new) True bs new' e c' res"
    by (auto simp: read_post_def)
  have "consumed inbound (bytes @ bs) new' e (c\<lparr>decoder := d\<rparr>) w c' w'"
    using post(1) assms(2,3) by (rule consumed_received)
  with assms(1) have "consumed inbound (bytes @ bs) (new @ new') e c w c' w'"
    by (rule consumed_drained [rotated])
  moreover have "read_report ms progress (bytes @ bs) (new @ new') e c' res"
    using post(3) by (auto simp: read_report_def split: sum.splits ReadAvailableStatus.splits)
  moreover have "n + length (bytes @ bs) \<le> mx"
    using post(2) assms(4) by simp
  ultimately show ?thesis
    unfolding read_post_def out by blast
qed

lemma ReadAvailable_post:
  assumes K: "recv_takes_stream K inbound" and inv: "in_inv c"
    and "ReadAvailable K c mx w = Some out"
  shows "read_post inbound mx (c, [], False, 0, w) out"
proof (rule iterate_rel [where J = "\<lambda>s. in_inv (fst s)" and body = "ReadAvailable_body K mx" and
      R = "read_post inbound mx"])
  show "iterate (ReadAvailable_body K mx) (c, [], False, 0, w) = Some out"
    using assms(3) by (simp add: ReadAvailable_def)
next
  fix s s' :: "'a read_state" and r
  assume s_inv: "in_inv (fst s)" and cont: "ReadAvailable_body K mx s = Inl s'"
  obtain c ms p n w c1 ms1 p1 n1 w1 where s: "s = (c, ms, p, n, w)" "s' = (c1, ms1, p1, n1, w1)"
    by (metis prod_cases5)
  from K s_inv [unfolded s fst_conv] cont [unfolded s]
  have "in_inv c1 \<and> (read_post inbound mx (c1, ms1, p1, n1, w1) r \<longrightarrow>
      read_post inbound mx (c, ms, p, n, w) r)"
  proof (cases rule: ReadAvailable_body_continue)
    case interrupted
    then show ?thesis by (auto intro: read_post_interrupted)
  next
    case received
    then show ?thesis by (auto intro: read_post_received)
  qed
  then show "in_inv (fst s') \<and> (read_post inbound mx s' r \<longrightarrow> read_post inbound mx s r)"
    by (simp add: s)
next
  fix s :: "'a read_state" and r
  assume "in_inv (fst s)" "ReadAvailable_body K mx s = Inr r"
  then show "read_post inbound mx s r"
    by (cases s) (auto intro: ReadAvailable_body_return [OF K])
qed (simp add: inv)

lemma ReadAvailable_returns:
  assumes K: "recv_takes_stream K inbound" "recv_settles K patience" and inv: "in_inv c"
  shows "\<exists>out. ReadAvailable K c mx w = Some out"
  unfolding ReadAvailable_def
proof (rule iterate_returns [where I = "\<lambda>s. in_inv (fst s)" and
      r = "measures [\<lambda>(c, ms, p, n, w). mx - n, \<lambda>(c, ms, p, n, w). patience (get (conn_fd c)) w]"])
  fix s s' :: "'a read_state"
  assume s_inv: "in_inv (fst s)" and cont: "ReadAvailable_body K mx s = Inl s'"
  obtain c ms p n w c1 ms1 p1 n1 w1 where s: "s = (c, ms, p, n, w)" "s' = (c1, ms1, p1, n1, w1)"
    by (metis prod_cases5)
  from K(1) s_inv [unfolded s fst_conv] cont [unfolded s]
  have "in_inv c1 \<and> (mx - n1 < mx - n \<or> mx - n1 = mx - n \<and> patience (get (conn_fd c1)) w1 < patience (get (conn_fd c)) w)"
  proof (cases rule: ReadAvailable_body_continue)
    case interrupted
    with K(2) show ?thesis by (auto simp: recv_settles_def)
  next
    case (received d new bytes)
    then show ?thesis by (cases bytes) auto
  qed
  then show "in_inv (fst s') \<and>
      (s', s) \<in> measures [\<lambda>(c, ms, p, n, w). mx - n, \<lambda>(c, ms, p, n, w). patience (get (conn_fd c)) w]"
    by (auto simp: s)
qed (use inv in auto)

section \<open>Sequences of output operations\<close>

datatype output_op = Queue Message | Flush nat

text \<open>
  A sequence of \<^verbatim>\<open>QueueOutput\<close> and \<^verbatim>\<open>WriteAvailable\<close> calls on a connection: the accepted
  messages, the connection and the system afterwards; \<open>None\<close> when a write does not return.
\<close>

fun run_output ::
  "'w sys \<Rightarrow> output_op list \<Rightarrow> Connection \<Rightarrow> 'w \<Rightarrow> (Message list \<times> Connection \<times> 'w) option" where
  "run_output K [] c w = Some ([], c, w)"
| "run_output K (Queue m # ops) c w =
     (case QueueOutput c m of (accepted, c1) \<Rightarrow>
        map_option (\<lambda>(ms, c', w'). (if accepted then m # ms else ms, c', w')) (run_output K ops c1 w))"
| "run_output K (Flush n # ops) c w =
     (case WriteAvailable K c n w of None \<Rightarrow> None | Some (_, c1, w1) \<Rightarrow> run_output K ops c1 w1)"

lemma run_output_stream:
  assumes K: "send_extends_stream K wire" "send_settles K patience" and "out_inv c"
  shows "\<exists>ms c' w'. run_output K ops c w = Some (ms, c', w') \<and> out_inv c' \<and>
     conn_fd c' = conn_fd c \<and> limits c' = limits c \<and> list_all encodable ms \<and>
     wire (get (conn_fd c)) w' @ pending c' =
       wire (get (conn_fd c)) w @ pending c @ concat (map frame_of ms)"
  using assms(3)
proof (induction ops arbitrary: c w)
  case Nil
  then show ?case by simp
next
  case (Cons op ops)
  show ?case
  proof (cases op)
    case (Queue m)
    obtain accepted c1 where q: "QueueOutput c m = (accepted, c1)" by (metis surj_pair)
    note rejects = QueueOutput_rejects [of c m c1] and accepts = QueueOutput_accepts [of c m c1]
    have "out_inv c1"
      using q rejects(3) accepts(3) Cons.prems by (cases accepted) auto
    from Cons.IH [OF this, of w] q rejects(2,4,5) accepts(1,2,4,5) show ?thesis
      by (cases accepted) (auto simp: Queue)
  next
    case (Flush n)
    from WriteAvailable_returns [OF K] obtain r c1 w1 where
      flush: "WriteAvailable K c n w = Some (r, c1, w1)"
      by (metis prod_cases3)
    from WriteAvailable_post [OF K(1) this] obtain k where "wrote wire k c w c1 w1"
      by (auto simp: write_post_def)
    then have step: "out_inv c1" "conn_fd c1 = conn_fd c" "limits c1 = limits c"
      "wire (get (conn_fd c)) w1 @ pending c1 = wire (get (conn_fd c)) w @ pending c"
      using Cons.prems by (auto simp: wrote_def)
    from Cons.IH [OF step(1), of w1] step(2-) flush show ?thesis
      by (auto simp: Flush simp flip: append_assoc)
  qed
qed

text \<open>What holds of the system and is kept by the calls that a read or a write makes, holds after it.\<close>

lemma ReadAvailable_system:
  assumes keeps: "\<And>n w r w'. P w \<Longrightarrow> sys_recv K (get (conn_fd c)) n w = (r, w') \<Longrightarrow> P w'"
    and "P w" "ReadAvailable K c mx w = Some (res, c', w')"
  shows "P w'" "conn_fd c' = conn_fd c"
proof -
  have "case (res, c', w') of (res, c', w') \<Rightarrow> conn_fd c' = conn_fd c \<and> P w'"
  proof (rule iterate_rule [where body = "ReadAvailable_body K mx" and s = "(c, [], False, 0, w)" and
        I = "\<lambda>(c', ms, p, n, w). conn_fd c' = conn_fd c \<and> P w" and Q = "\<lambda>(res, c', w'). conn_fd c' = conn_fd c \<and> P w'"])
    show "iterate (ReadAvailable_body K mx) (c, [], False, 0, w) = Some (res, c', w')"
      using assms(3) by (simp add: ReadAvailable_def)
  qed (use assms(2) in \<open>auto simp: ReadAvailable_body_def Let_def dest: keeps
      split: prod.splits option.splits sum.splits if_splits\<close>)
  then show "P w'" "conn_fd c' = conn_fd c" by simp_all
qed

lemma WriteAvailable_system:
  assumes keeps: "\<And>bs w r w'. P w \<Longrightarrow> sys_send K (get (conn_fd c)) bs w = (r, w') \<Longrightarrow> P w'"
    and "P w" "WriteAvailable K c mx w = Some (res, c', w')"
  shows "P w'" "conn_fd c' = conn_fd c"
proof -
  have "case (res, c', w') of (res, c', w') \<Rightarrow> conn_fd c' = conn_fd c \<and> P w'"
  proof (rule iterate_rule [where body = "WriteAvailable_body K mx" and s = "(c, 0, w)" and
        I = "\<lambda>(c', n, w). conn_fd c' = conn_fd c \<and> P w" and Q = "\<lambda>(res, c', w'). conn_fd c' = conn_fd c \<and> P w'"])
    show "iterate (WriteAvailable_body K mx) (c, 0, w) = Some (res, c', w')"
      using assms(3) by (simp add: WriteAvailable_def)
  qed (use assms(2) in \<open>auto simp: WriteAvailable_body_def Let_def dest: keeps
      split: prod.splits sum.splits if_splits\<close>)
  then show "P w'" "conn_fd c' = conn_fd c" by simp_all
qed

text \<open>A connection and a scripted system for the instances of the properties.\<close>

definition sample_connection :: Connection where
  "sample_connection = new_Connection \<lparr>id_value = 1\<rparr> (new_UniqueFd 5) default_ConnectionLimits"

definition sample_script :: "(errno + byte list) list \<Rightarrow> (errno + nat) list \<Rightarrow> script" where
  "sample_script rs ss =
     empty_script\<lparr>recv_script := (\<lambda>_. [])(5 := rs), send_script := (\<lambda>_. [])(5 := ss)\<rparr>"

lemma in_inv_sample: "in_inv sample_connection"
  by (simp add: in_inv_def sample_connection_def new_Connection_def)

lemma TryDecodeFrame_zeros: "TryDecodeFrame (replicate 20 0) = DecodeError kInvalidMagic"
  by (simp add: TryDecodeFrame_eq ReadU32_def const_defs)

definition after_zeros :: script where
  "after_zeros = (sample_script [] [])\<lparr>recv_bytes := (\<lambda>_. [])(5 := replicate 20 0)\<rparr>"

lemma ReadAvailable_zeros:
  "ReadAvailable scripted sample_connection 100 (sample_script [Inl EINTR, Inr (replicate 20 0)] []) =
     Some (Inr (ReadProtocolError kInvalidMagic []),
       sample_connection\<lparr>decoder := Append new_FrameDecoder (replicate 20 0)\<rparr>, after_zeros)"
proof -
  let ?c = "sample_connection\<lparr>decoder := Append new_FrameDecoder (replicate 20 0)\<rparr>"
  have unread: "unread (decoder ?c) = replicate 20 0"
    by (simp add: Append_abs)
  have "ReadAvailable_body scripted 100 (sample_connection, [], False, 0,
        sample_script [Inl EINTR, Inr (replicate 20 0)] []) =
      Inl (sample_connection, [], False, 0, sample_script [Inr (replicate 20 0)] [])"
    by (simp add: ReadAvailable_body_def sample_connection_def new_Connection_def sample_script_def
        DrainDecoder_need_more TryDecodeFrame_short scripted_def default_ConnectionLimits_def
        BufferedSize_abs const_defs new_UniqueFd_def get_def)
  moreover have "ReadAvailable_body scripted 100 (sample_connection, [], False, 0,
        sample_script [Inr (replicate 20 0)] []) =
      Inl (?c, [], True, 20, after_zeros)"
    by (simp add: ReadAvailable_body_def sample_connection_def new_Connection_def sample_script_def after_zeros_def empty_script_def
        DrainDecoder_need_more TryDecodeFrame_short scripted_def default_ConnectionLimits_def
        BufferedSize_abs const_defs new_UniqueFd_def get_def)
  moreover have "ReadAvailable_body scripted 100 (?c, [], True, 20, after_zeros) =
      Inr (Inr (ReadProtocolError kInvalidMagic []), ?c, after_zeros)"
    using DrainDecoder_malformed [of "decoder ?c" kInvalidMagic "[]"] TryDecodeFrame_zeros unread
    by (simp add: ReadAvailable_body_def)
  ultimately show ?thesis
    by (simp add: ReadAvailable_def iterate_rules)
qed

lemma WriteAvailable_sample:
  "WriteAvailable scripted (sample_connection\<lparr>output_buffer := [1, 2, 3, 4]\<rparr>) 3
       (sample_script [] [Inr 1, Inl EINTR, Inr 9]) =
     Some (Inr \<lparr>wa_status = kWriteOk, wa_bytes_written = 3\<rparr>,
       sample_connection\<lparr>output_buffer := [1, 2, 3, 4], output_offset := 3\<rparr>,
       (sample_script [] [])\<lparr>sent_bytes := (\<lambda>_. [])(5 := [1, 2, 3])\<rparr>)"
  by (simp add: WriteAvailable_def iterate.simps WriteAvailable_body_def scripted_def
      sample_script_def empty_script_def sample_connection_def new_Connection_def
      new_UniqueFd_def get_def)

section \<open>Properties\<close>

text \<open>
  C31. A read always returns, and loses nothing: it takes at most \<open>max_read_bytes\<close> bytes off the
  peer's stream, and the messages and the error it reports are those of parsing the bytes left over
  from earlier reads followed by the new ones; the bytes that are not yet a frame stay buffered,
  within the input limit. A would-block report means that nothing was read and nothing was parsed.
\<close>

theorem read_available_parses_stream:
  assumes "recv_takes_stream K inbound" "recv_settles K patience" "in_inv c"
  shows "\<exists>res c' w' bs new e. ReadAvailable K c max_read_bytes w = Some (res, c', w') \<and>
    inbound (get (conn_fd c)) w = bs @ inbound (get (conn_fd c)) w' \<and>
    length bs \<le> max_read_bytes \<and>
    parse_stream frame_verdict (unread (decoder c) @ bs) = (new, e, unread (decoder c')) \<and>
    buffered_input_bytes c' \<le> max_input_buffer (limits c) \<and> in_inv c' \<and>
    read_report [] False bs new e c' res"
proof -
  from ReadAvailable_returns [OF assms] obtain res c' w' where
    ret: "ReadAvailable K c max_read_bytes w = Some (res, c', w')"
    by (metis prod_cases3)
  from ReadAvailable_post [OF assms(1,3) ret] obtain bs new e where
    "consumed inbound bs new e c w c' w'" "length bs \<le> max_read_bytes"
    "read_report [] False bs new e c' res"
    by (auto simp: read_post_def)
  with ret show ?thesis
    by (fastforce simp: consumed_def in_inv_def buffered_input_bytes_def BufferedSize_abs)
qed

theorem read_available_parses_stream_witness:
  "recv_takes_stream scripted script_inbound \<and>
   (\<exists>res c' w' bs new e.
      ReadAvailable scripted sample_connection 10 (sample_script [Inl EINTR, Inr sample_frame] []) =
        Some (res, c', w') \<and>
      script_inbound 5 (sample_script [Inl EINTR, Inr sample_frame] []) = bs @ script_inbound 5 w' \<and>
      length bs \<le> 10 \<and> read_report [] False bs new e c' res)"
proof -
  have "get (conn_fd sample_connection) = 5"
    by (simp add: sample_connection_def new_Connection_def new_UniqueFd_def get_def)
  with read_available_parses_stream [OF scripted_recv_takes_stream scripted_recv_settles
      in_inv_sample, of 10 "sample_script [Inl EINTR, Inr sample_frame] []"]
  show ?thesis
    using scripted_recv_takes_stream by metis
qed

text \<open>
  With the default input limit (one maximal frame) a read reports a protocol error only when
  the peer's bytes are malformed: the buffer-full branch of the loop is never taken, because a full
  buffer always holds a complete frame or a malformed one.
\<close>

theorem default_limit_never_rejects_wellformed:
  assumes "recv_takes_stream K inbound" "in_inv c"
    and "max_input_buffer (limits c) \<ge> max_input_buffer default_ConnectionLimits"
    and "ReadAvailable K c max_read_bytes w = Some (Inr r, c', w')"
    and "ra_status r = kReadProtocolError"
  shows "\<exists>e. ra_protocol_error r = Some e \<and> TryDecodeFrame (unread (decoder c')) = DecodeError e"
proof -
  from ReadAvailable_post [OF assms(1,2,4)] obtain bs new e where
    cons: "consumed inbound bs new e c w c' w'" and report: "read_report [] False bs new e c' (Inr r)"
    by (auto simp: read_post_def)
  from cons have parse: "parse_stream frame_verdict (unread (decoder c) @ bs) =
      (new, e, unread (decoder c'))" and lim: "limits c' = limits c"
    by (auto simp: consumed_def)
  show ?thesis
  proof (cases e)
    case None
    with frames.parse_rest parse have "TryDecodeFrame (unread (decoder c')) = NeedMoreData"
      by simp
    from NeedMoreData_bound [OF this] assms(3) None report assms(5) lim show ?thesis
      by (auto simp: read_report_def default_ConnectionLimits_def const_defs)
  next
    case (Some x)
    with frames.parse_rest_error parse have "TryDecodeFrame (unread (decoder c')) = DecodeError x"
      by simp
    with Some report assms(5) show ?thesis
      by (auto simp: read_report_def)
  qed
qed

theorem default_limit_never_rejects_wellformed_witness:
  "ReadAvailable scripted sample_connection 100 (sample_script [Inl EINTR, Inr (replicate 20 0)] []) =
     Some (Inr (ReadProtocolError kInvalidMagic []),
       sample_connection\<lparr>decoder := Append new_FrameDecoder (replicate 20 0)\<rparr>, after_zeros) \<and>
   (\<exists>e. ra_protocol_error (ReadProtocolError kInvalidMagic []) = Some e \<and>
     TryDecodeFrame (unread (Append new_FrameDecoder (replicate 20 0))) = DecodeError e)"
  using default_limit_never_rejects_wellformed [OF scripted_recv_takes_stream in_inv_sample _
      ReadAvailable_zeros] ReadAvailable_zeros
  by (simp add: sample_connection_def new_Connection_def ReadProtocolError_def)

text \<open>
  C32. Whatever sequence of \<^verbatim>\<open>QueueOutput\<close> and \<^verbatim>\<open>WriteAvailable\<close> calls is made, with partial
  sends, interruptions and errors anywhere, all of them return and the bytes on the wire followed by
  the bytes still pending are the earlier ones followed by the frames of the accepted messages, in
  order, each once; the buffer stays within the output limit.
\<close>

theorem output_stream_is_accepted_frames:
  assumes "send_extends_stream K wire" "send_settles K patience"
  shows "\<exists>ms c' w'. run_output K ops (new_Connection i fd lim) w = Some (ms, c', w') \<and>
     list_all (\<lambda>m. EncodeMessage m \<noteq> None) ms \<and>
     wire (get fd) w' @ drop (output_offset c') (output_buffer c') =
       wire (get fd) w @ concat (map (the \<circ> EncodeMessage) ms) \<and>
     output_storage_bytes c' \<le> max_output_buffer lim"
proof -
  have new: "out_inv (new_Connection i fd lim)" "pending (new_Connection i fd lim) = []"
    "conn_fd (new_Connection i fd lim) = fd" "limits (new_Connection i fd lim) = lim"
    by (simp_all add: out_inv_def pending_def new_Connection_def)
  from run_output_stream [OF assms new(1), of ops w] obtain ms c' w' where
    run: "run_output K ops (new_Connection i fd lim) w = Some (ms, c', w')" "out_inv c'"
    "limits c' = lim" "list_all encodable ms"
    "wire (get fd) w' @ pending c' = wire (get fd) w @ concat (map frame_of ms)"
    by (auto simp: new)
  have "concat (map (the \<circ> EncodeMessage) ms) = concat (map frame_of ms)"
    using run(4) by (intro arg_cong [where f = concat]) (auto simp: list_all_iff EncodeMessage_eq)
  with run show ?thesis
    by (simp add: list_all_iff EncodeMessage_eq pending_def out_inv_def output_storage_bytes_def)
qed

theorem output_stream_is_accepted_frames_witness:
  "\<exists>ms c' w'. run_output scripted [Queue sample_message, Flush 100, Queue sample_message, Flush 4]
       (new_Connection \<lparr>id_value = 1\<rparr> (new_UniqueFd 5) default_ConnectionLimits)
       (sample_script [] [Inr 3, Inl EINTR, Inr 100]) = Some (ms, c', w') \<and>
     script_wire 5 w' @ drop (output_offset c') (output_buffer c') =
       concat (map (the \<circ> EncodeMessage) ms)"
  using output_stream_is_accepted_frames [OF scripted_send_extends_stream scripted_send_settles,
      of "[Queue sample_message, Flush 100, Queue sample_message, Flush 4]" "\<lparr>id_value = 1\<rparr>"
        "new_UniqueFd 5" default_ConnectionLimits "sample_script [] [Inr 3, Inl EINTR, Inr 100]"]
  by (auto simp: sample_script_def empty_script_def script_wire_def new_UniqueFd_def get_def)

text \<open>
  One write: it sends the first \<open>bytes_written\<close> pending bytes, never more than the budget, and
  reports success only when nothing is left or the budget is used up.
\<close>

theorem write_available_respects_budget:
  assumes "send_extends_stream K wire" "WriteAvailable K c max_write_bytes w = Some (Inr r, c', w')"
  shows "wire (get (conn_fd c)) w' =
      wire (get (conn_fd c)) w @ take (wa_bytes_written r) (drop (output_offset c) (output_buffer c)) \<and>
    pending_output_bytes c' = pending_output_bytes c - wa_bytes_written r \<and>
    wa_bytes_written r \<le> min max_write_bytes (pending_output_bytes c) \<and>
    (wa_status r = kWriteOk \<longrightarrow> \<not> has_pending_output c' \<or> wa_bytes_written r = max_write_bytes)"
  using WriteAvailable_post [OF assms]
  by (auto simp: write_post_def wrote_def abs_simps simp flip: pending_def)

theorem write_available_respects_budget_witness:
  "WriteAvailable scripted (sample_connection\<lparr>output_buffer := [1, 2, 3, 4]\<rparr>) 3
       (sample_script [] [Inr 1, Inl EINTR, Inr 9]) =
     Some (Inr \<lparr>wa_status = kWriteOk, wa_bytes_written = 3\<rparr>,
       sample_connection\<lparr>output_buffer := [1, 2, 3, 4], output_offset := 3\<rparr>,
       (sample_script [] [])\<lparr>sent_bytes := (\<lambda>_. [])(5 := [1, 2, 3])\<rparr>) \<and>
   (3 :: nat) \<le> min 3 (pending_output_bytes (sample_connection\<lparr>output_buffer := [1, 2, 3, 4]\<rparr>))"
  using write_available_respects_budget [OF scripted_send_extends_stream WriteAvailable_sample]
    WriteAvailable_sample by simp

text \<open>
  \<^verbatim>\<open>QueueOutput\<close> accepts a message exactly when the message can be encoded and its frame fits
  beside the bytes still pending; a rejected message leaves the pending bytes as they were.
\<close>

theorem queue_output_accepts_iff:
  "(fst (QueueOutput c m) \<longleftrightarrow> EncodeMessage m \<noteq> None \<and>
      pending_output_bytes c + length (the (EncodeMessage m)) \<le> max_output_buffer (limits c)) \<and>
   drop (output_offset (snd (QueueOutput c m))) (output_buffer (snd (QueueOutput c m))) =
     drop (output_offset c) (output_buffer c) @
     (if fst (QueueOutput c m) then the (EncodeMessage m) else [])"
proof (cases "QueueOutput c m")
  case (Pair accepted c')
  note rejects = QueueOutput_rejects [of c m c'] and accepts = QueueOutput_accepts [of c m c']
  have "length (pending c') \<le> length (output_buffer c')"
    by (simp add: pending_def)
  with Pair rejects(1,2) accepts(1,2,3,4) show ?thesis
    by (cases accepted)
      (auto simp: EncodeMessage_eq pending_output_bytes_abs out_inv_def simp flip: pending_def)
qed

end
