(* ===== verification/Connection_Registry.thy ===== *)
theory Connection_Registry
  imports Connection "HOL-Library.AList"
begin

text \<open>
  The table of live connections (\<^verbatim>\<open>include/pulsecore/network/connection_registry.hpp\<close>,
  \<^verbatim>\<open>src/network/connection_registry.cpp\<close>). The hash map is an association list with distinct keys.
  The interface \<open>id_table\<close> states what the reactor relies on: an id that was given out once never
  names another connection, so that a late result of a worker cannot reach the wrong peer.
\<close>

section \<open>The registry\<close>

record ConnectionRegistry =
  reg_limits :: ConnectionLimits
  next_id :: ConnectionId
  connections :: "(u64 \<times> Connection) list"

definition new_ConnectionRegistry :: "ConnectionLimits \<Rightarrow> ConnectionRegistry" where
  "new_ConnectionRegistry lim = \<lparr>reg_limits = lim, next_id = \<lparr>id_value = 1\<rparr>, connections = []\<rparr>"

text \<open>
  \<^verbatim>\<open>Add\<close> owns the descriptor it is given: when it throws, the descriptor's destructor closes it.
\<close>

definition Add ::
  "'w sys \<Rightarrow> UniqueFd \<Rightarrow> ConnectionRegistry \<Rightarrow> 'w \<Rightarrow> (exn + ConnectionId) \<times> ConnectionRegistry \<times> 'w" where
  "Add K fd r w =
     (if \<not> is_valid fd
      then (Inl (InvalidArgument ''cannot register invalid connection fd''), r,
            close_all K (destroy fd) w)
      else if id_value (next_id r) = UINT64_MAX
      then (Inl (RuntimeError ''connection id space exhausted''), r, close_all K (destroy fd) w)
      else
        (case SetNonBlocking K (get fd) w of
           (Inl e, w) \<Rightarrow> (Inl e, r, close_all K (destroy fd) w)
         | (Inr _, w) \<Rightarrow>
             let i = next_id r;
                 r = r\<lparr>next_id := \<lparr>id_value = id_value i + 1\<rparr>\<rparr>
             in
             if map_of (connections r) (id_value i) \<noteq> None
             then (Inl (RuntimeError ''duplicate connection id''), r, close_all K (destroy fd) w)
             else (Inr i,
                   r\<lparr>connections := (id_value i, new_Connection i fd (reg_limits r)) # connections r\<rparr>,
                   w)))"

definition Find :: "ConnectionRegistry \<Rightarrow> ConnectionId \<Rightarrow> Connection option" where
  "Find r i = map_of (connections r) (id_value i)"

text \<open>Writing through the pointer that \<^verbatim>\<open>Find\<close> returns.\<close>

definition Store :: "ConnectionId \<Rightarrow> Connection \<Rightarrow> ConnectionRegistry \<Rightarrow> ConnectionRegistry" where
  "Store i c r = r\<lparr>connections := AList.update (id_value i) c (connections r)\<rparr>"

text \<open>Erasing an entry destroys the connection, which closes its descriptor.\<close>

definition Remove ::
  "'w sys \<Rightarrow> ConnectionId \<Rightarrow> ConnectionRegistry \<Rightarrow> 'w \<Rightarrow> bool \<times> ConnectionRegistry \<times> 'w" where
  "Remove K i r w =
     (case map_of (connections r) (id_value i) of
        None \<Rightarrow> (False, r, w)
      | Some c \<Rightarrow> (True, r\<lparr>connections := AList.delete (id_value i) (connections r)\<rparr>,
                   close_all K (destroy (conn_fd c)) w))"

definition registry_size :: "ConnectionRegistry \<Rightarrow> nat" where
  "registry_size r = length (connections r)"

definition registry_empty :: "ConnectionRegistry \<Rightarrow> bool" where
  "registry_empty r = (connections r = [])"

section \<open>Invariant\<close>

text \<open>
  The entries are filed under their own ids, which are below the next id and above the key of the
  listener; every connection has the limits of the registry, a descriptor, and buffers within bounds.
\<close>

definition entry_ok :: "ConnectionRegistry \<Rightarrow> u64 \<Rightarrow> Connection \<Rightarrow> bool" where
  "entry_ok r k c \<longleftrightarrow> 0 < k \<and> k < id_value (next_id r) \<and> id_value (conn_id c) = k \<and>
     limits c = reg_limits r \<and> is_valid (conn_fd c) \<and> in_inv c \<and> out_inv c"

definition reg_inv :: "ConnectionRegistry \<Rightarrow> bool" where
  "reg_inv r \<longleftrightarrow> 0 < id_value (next_id r) \<and> distinct (map fst (connections r)) \<and>
     (\<forall>k c. map_of (connections r) k = Some c \<longrightarrow> entry_ok r k c)"

definition issued :: "ConnectionRegistry \<Rightarrow> ConnectionId \<Rightarrow> bool" where
  "issued r i \<longleftrightarrow> 0 < id_value i \<and> id_value i < id_value (next_id r)"

lemma new_ConnectionRegistry_inv [inv_intros]: "reg_inv (new_ConnectionRegistry lim)"
  by (simp add: reg_inv_def new_ConnectionRegistry_def)

lemma new_Connection_ok [simp]: "in_inv (new_Connection i fd lim)" "out_inv (new_Connection i fd lim)"
  "limits (new_Connection i fd lim) = lim" "conn_id (new_Connection i fd lim) = i"
  "conn_fd (new_Connection i fd lim) = fd"
  by (simp_all add: new_Connection_def in_inv_def out_inv_def)

section \<open>The interface\<close>

text \<open>
  A sequence of calls on a table of objects named by ids. An object may be replaced through the
  pointer to it, as long as the new value is admissible for the old one.
\<close>

datatype ('f, 'i, 'c) table_call = CallAdd 'f | CallRemove 'i | CallStore 'i 'c

definition table_step ::
  "('f \<Rightarrow> 'r \<Rightarrow> 'w \<Rightarrow> ('e + 'i) \<times> 'r \<times> 'w) \<Rightarrow> ('r \<Rightarrow> 'i \<Rightarrow> 'c option) \<Rightarrow> ('i \<Rightarrow> 'c \<Rightarrow> 'r \<Rightarrow> 'r) \<Rightarrow>
   ('i \<Rightarrow> 'r \<Rightarrow> 'w \<Rightarrow> bool \<times> 'r \<times> 'w) \<Rightarrow> ('c \<Rightarrow> 'c \<Rightarrow> bool) \<Rightarrow>
   ('f, 'i, 'c) table_call \<Rightarrow> 'r \<Rightarrow> 'w \<Rightarrow> 'i list \<times> 'r \<times> 'w" where
  "table_step add look store remove admissible call r w =
     (case call of
        CallAdd f \<Rightarrow>
          (case add f r w of (Inl e, r', w') \<Rightarrow> ([], r', w') | (Inr i, r', w') \<Rightarrow> ([i], r', w'))
      | CallRemove i \<Rightarrow> ([], snd (remove i r w))
      | CallStore i c \<Rightarrow>
          (case look r i of
             None \<Rightarrow> ([], r, w)
           | Some c0 \<Rightarrow> ([], if admissible c0 c then store i c r else r, w)))"

fun table_run ::
  "('f \<Rightarrow> 'r \<Rightarrow> 'w \<Rightarrow> ('e + 'i) \<times> 'r \<times> 'w) \<Rightarrow> ('r \<Rightarrow> 'i \<Rightarrow> 'c option) \<Rightarrow> ('i \<Rightarrow> 'c \<Rightarrow> 'r \<Rightarrow> 'r) \<Rightarrow>
   ('i \<Rightarrow> 'r \<Rightarrow> 'w \<Rightarrow> bool \<times> 'r \<times> 'w) \<Rightarrow> ('c \<Rightarrow> 'c \<Rightarrow> bool) \<Rightarrow>
   ('f, 'i, 'c) table_call list \<Rightarrow> 'r \<Rightarrow> 'w \<Rightarrow> 'i list \<times> 'r \<times> 'w" where
  "table_run add look store remove admissible [] r w = ([], r, w)"
| "table_run add look store remove admissible (call # calls) r w =
     (case table_step add look store remove admissible call r w of (is1, r1, w1) \<Rightarrow>
        case table_run add look store remove admissible calls r1 w1 of (is2, r2, w2) \<Rightarrow>
          (is1 @ is2, r2, w2))"

locale id_table =
  fixes inv :: "'r \<Rightarrow> bool"
    and add :: "'f \<Rightarrow> 'r \<Rightarrow> 'w \<Rightarrow> ('e + 'i) \<times> 'r \<times> 'w"
    and look :: "'r \<Rightarrow> 'i \<Rightarrow> 'c option"
    and store :: "'i \<Rightarrow> 'c \<Rightarrow> 'r \<Rightarrow> 'r"
    and remove :: "'i \<Rightarrow> 'r \<Rightarrow> 'w \<Rightarrow> bool \<times> 'r \<times> 'w"
    and admissible :: "'c \<Rightarrow> 'c \<Rightarrow> bool"
    and fresh :: "'i \<Rightarrow> 'f \<Rightarrow> 'r \<Rightarrow> 'c"
    and given :: "'r \<Rightarrow> 'i \<Rightarrow> bool"
    and count :: "'r \<Rightarrow> nat"
  assumes add_succeeds: "inv r \<Longrightarrow> add f r w = (Inr i, r', w') \<Longrightarrow>
      inv r' \<and> \<not> given r i \<and> (\<forall>j. given r' j \<longleftrightarrow> given r j \<or> j = i) \<and>
      look r' = (look r)(i \<mapsto> fresh i f r) \<and> count r' = count r + 1"
    and add_fails: "inv r \<Longrightarrow> add f r w = (Inl e, r', w') \<Longrightarrow> r' = r"
    and look_given: "inv r \<Longrightarrow> look r i = Some c \<Longrightarrow> given r i \<and> 0 < count r"
    and remove_erases: "inv r \<Longrightarrow> remove i r w = (b, r', w') \<Longrightarrow>
      inv r' \<and> (b \<longleftrightarrow> look r i \<noteq> None) \<and> look r' = (look r)(i := None) \<and>
      given r' = given r \<and> count r' = count r - (if b then 1 else 0)"
    and store_replaces: "inv r \<Longrightarrow> look r i = Some c \<Longrightarrow> admissible c c' \<Longrightarrow>
      inv (store i c' r) \<and> look (store i c' r) = (look r)(i \<mapsto> c') \<and>
      given (store i c' r) = given r \<and> count (store i c' r) = count r"
begin

lemma step_laws:
  assumes "inv r" "table_step add look store remove admissible call r w = (ids, r', w')"
  shows "inv r' \<and> (\<forall>i \<in> set ids. \<not> given r i \<and> given r' i) \<and> distinct ids \<and>
    (\<forall>i. given r i \<longrightarrow> given r' i \<and> (look r i = None \<longrightarrow> look r' i = None))"
proof (cases call)
  case (CallAdd f)
  obtain a r1 w1 where a: "add f r w = (a, r1, w1)" by (metis prod_cases3)
  show ?thesis
  proof (cases a)
    case (Inl e)
    with a assms CallAdd add_fails [OF assms(1), of f w e r1 w1] show ?thesis
      by (simp add: table_step_def)
  next
    case (Inr i)
    with a assms(2) CallAdd have step: "ids = [i]" "r' = r1"
      by (simp_all add: table_step_def)
    from Inr a have added: "inv r1" "\<not> given r i" "\<forall>j. given r1 j \<longleftrightarrow> given r j \<or> j = i"
      "look r1 = (look r)(i \<mapsto> fresh i f r)"
      using add_succeeds [OF assms(1), of f w i r1 w1] by simp_all
    then have "j \<noteq> i" if "given r j" for j
      using that by blast
    with added show ?thesis
      by (simp add: step)
  qed
next
  case (CallRemove i)
  obtain b r1 w1 where "remove i r w = (b, r1, w1)" by (metis prod_cases3)
  with assms CallRemove remove_erases [OF assms(1) this] show ?thesis
    by (auto simp: table_step_def)
next
  case (CallStore i c)
  with assms store_replaces [OF assms(1), of i] show ?thesis
    by (auto simp: table_step_def split: option.splits if_splits)
qed

lemma run_laws:
  assumes "inv r" "table_run add look store remove admissible calls r w = (ids, r', w')"
  shows "inv r' \<and> (\<forall>i \<in> set ids. \<not> given r i \<and> given r' i) \<and> distinct ids \<and>
    (\<forall>i. given r i \<longrightarrow> given r' i \<and> (look r i = None \<longrightarrow> look r' i = None))"
  using assms
proof (induction calls arbitrary: r w ids)
  case Nil
  then show ?case by simp
next
  case (Cons call calls)
  obtain is1 r1 w1 where s: "table_step add look store remove admissible call r w = (is1, r1, w1)"
    by (metis prod_cases3)
  obtain is2 where run: "table_run add look store remove admissible calls r1 w1 = (is2, r', w')"
    and ids: "ids = is1 @ is2"
    using Cons.prems(2) s by (auto split: prod.splits)
  from step_laws [OF Cons.prems(1) s] have first: "inv r1"
    "\<forall>i \<in> set is1. \<not> given r i \<and> given r1 i" "distinct is1"
    "\<forall>i. given r i \<longrightarrow> given r1 i \<and> (look r i = None \<longrightarrow> look r1 i = None)"
    by blast+
  from Cons.IH [OF first(1) run] first show ?case
    unfolding ids by (auto 4 3)
qed

end

section \<open>The registry provides it\<close>

text \<open>What may happen to a connection while it is registered: its buffers change within bounds.\<close>

definition same_peer :: "Connection \<Rightarrow> Connection \<Rightarrow> bool" where
  "same_peer c c' \<longleftrightarrow> conn_id c' = conn_id c \<and> conn_fd c' = conn_fd c \<and> limits c' = limits c \<and>
     in_inv c' \<and> out_inv c'"

lemma id_value_eq_iff: "i = j \<longleftrightarrow> id_value i = id_value (j :: ConnectionId)"
  by (cases i; cases j) simp

lemma length_update_mem:
  "k \<in> fst ` set xs \<Longrightarrow> length (AList.update k v xs) = length xs"
  by (induction xs) auto

lemma length_delete_mem:
  "distinct (map fst xs) \<Longrightarrow> k \<in> fst ` set xs \<Longrightarrow> Suc (length (AList.delete k xs)) = length xs"
  by (induction xs) (auto simp: delete_id)

lemma registry_add:
  assumes "reg_inv r" "Add K fd r w = (Inr i, r', w')"
  shows "i = next_id r" "id_value i < id_value (next_id r')" "0 < id_value i" "is_valid fd"
    "r' = r\<lparr>next_id := \<lparr>id_value = id_value i + 1\<rparr>,
            connections := (id_value i, new_Connection i fd (reg_limits r)) # connections r\<rparr>"
  using assms below_incr [of "id_value i" "id_value i"]
  by (auto simp: Add_def Let_def reg_inv_def split: if_splits prod.splits sum.splits)

lemma registry_unused: "reg_inv r \<Longrightarrow> map_of (connections r) (id_value (next_id r)) = None"
  unfolding reg_inv_def entry_ok_def by (metis less_irrefl option.exhaust)

lemma registry_add_fails:
  "reg_inv r \<Longrightarrow> Add K fd r w = (Inl e, r', w') \<Longrightarrow> r' = r"
  using registry_unused [of r]
  by (auto simp: Add_def Let_def split: if_splits prod.splits sum.splits)

lemma reg_inv_delete:
  "reg_inv r \<Longrightarrow> reg_inv (r\<lparr>connections := AList.delete k (connections r)\<rparr>)"
  by (auto simp: reg_inv_def entry_ok_def delete_conv' distinct_delete split: if_splits)

lemma registry_remove:
  assumes "reg_inv r" "Remove K i r w = (b, r', w')"
  shows "reg_inv r'" "b \<longleftrightarrow> Find r i \<noteq> None" "Find r' = (Find r)(i := None)" "next_id r' = next_id r"
    "registry_size r' = registry_size r - (if b then 1 else 0)" "reg_limits r' = reg_limits r"
proof -
  let ?gone = "AList.delete (id_value i) (connections r)"
  have len: "length ?gone = length (connections r) - 1" if "map_of (connections r) (id_value i) = Some c" for c
    using length_delete_mem [of "connections r" "id_value i"] assms(1) that
    by (force simp: reg_inv_def dest: map_of_SomeD)
  show "reg_inv r'" "b \<longleftrightarrow> Find r i \<noteq> None" "next_id r' = next_id r" "reg_limits r' = reg_limits r"
    "registry_size r' = registry_size r - (if b then 1 else 0)"
    using assms len by (auto simp: Remove_def Find_def registry_size_def reg_inv_delete split: option.splits)
  show "Find r' = (Find r)(i := None)"
    using assms by (auto simp: Remove_def Find_def fun_eq_iff delete_conv' id_value_eq_iff split: option.splits)
qed

lemma registry_store:
  assumes "reg_inv r" "Find r i = Some c" "same_peer c c'"
  shows "reg_inv (Store i c' r)" "Find (Store i c' r) = (Find r)(i \<mapsto> c')"
    "next_id (Store i c' r) = next_id r" "registry_size (Store i c' r) = registry_size r"
    "reg_limits (Store i c' r) = reg_limits r"
proof -
  have mem: "id_value i \<in> fst ` set (connections r)"
    using assms(2) by (force simp: Find_def dest: map_of_SomeD)
  have ok: "entry_ok r (id_value i) c'"
    using assms by (auto simp: reg_inv_def Find_def same_peer_def entry_ok_def)
  then show "reg_inv (Store i c' r)"
    using assms(1) by (auto simp: reg_inv_def Store_def update_conv' distinct_update entry_ok_def split: if_splits)
  show "Find (Store i c' r) = (Find r)(i \<mapsto> c')"
    by (auto simp: Find_def Store_def fun_eq_iff update_conv' id_value_eq_iff)
  show "registry_size (Store i c' r) = registry_size r"
    using mem by (simp add: registry_size_def Store_def length_update_mem)
qed (simp_all add: Store_def)

interpretation registry: id_table reg_inv "Add K" Find Store "Remove K" same_peer
    "\<lambda>i fd r. new_Connection i fd (reg_limits r)" issued registry_size for K
proof unfold_locales
  fix r r' fd w i w'
  assume inv: "reg_inv r" and add: "Add K fd r w = (Inr i, r', w')"
  note facts = registry_add [OF inv add]
  show "reg_inv r' \<and> \<not> issued r i \<and> (\<forall>j. issued r' j \<longleftrightarrow> issued r j \<or> j = i) \<and>
      Find r' = (Find r)(i \<mapsto> new_Connection i fd (reg_limits r)) \<and>
      registry_size r' = registry_size r + 1"
  proof (intro conjI)
    have "k < id_value i + 1 \<longleftrightarrow> k < id_value i \<or> k = id_value i" for k
      using unat_incr [of "id_value i" "id_value i + 1"] facts(2,5)
      by (auto simp: word_less_nat_alt less_Suc_eq word_unat_eq_iff)
    moreover have "id_value (next_id r') = id_value i + 1" "id_value (next_id r) = id_value i"
      using facts(1) by (simp_all add: facts(5))
    ultimately show "\<forall>j. issued r' j \<longleftrightarrow> issued r j \<or> j = i"
      using facts(3) unfolding issued_def id_value_eq_iff by metis
    have "entry_ok r' k c" if "entry_ok r k c" for k c
      using that facts(1,2,5) by (auto simp: entry_ok_def)
    moreover have "entry_ok r' (id_value i) (new_Connection i fd (reg_limits r))"
      using facts(2-) by (simp add: entry_ok_def)
    moreover have "id_value i \<notin> fst ` set (connections r)"
      using registry_unused [OF inv] facts(1) by (simp add: map_of_eq_None_iff)
    ultimately show "reg_inv r'"
      using inv facts(2,3) by (simp add: reg_inv_def) (auto simp: facts(5))
    show "\<not> issued r i" using facts(1) by (simp add: issued_def)
    show "Find r' = (Find r)(i \<mapsto> new_Connection i fd (reg_limits r))"
      by (auto simp: facts(5) Find_def fun_eq_iff id_value_eq_iff)
    show "registry_size r' = registry_size r + 1"
      by (simp add: facts(5) registry_size_def)
  qed
next
  fix r i c
  assume "reg_inv r" "Find r i = Some c"
  then show "issued r i \<and> 0 < registry_size r"
    unfolding reg_inv_def Find_def issued_def registry_size_def
    by (metis entry_ok_def length_greater_0_conv map_of.simps(1) option.distinct(1))
next
  fix r r' i w b w'
  assume "reg_inv r" "Remove K i r w = (b, r', w')"
  note facts = registry_remove [OF this]
  from facts(4) have "issued r' = issued r" by (simp add: issued_def fun_eq_iff)
  with facts show "reg_inv r' \<and> (b \<longleftrightarrow> Find r i \<noteq> None) \<and> Find r' = (Find r)(i := None) \<and>
      issued r' = issued r \<and> registry_size r' = registry_size r - (if b then 1 else 0)"
    by blast
next
  fix r i c c'
  assume "reg_inv r" "Find r i = Some c" "same_peer c c'"
  note facts = registry_store [OF this]
  from facts(3) have "issued (Store i c' r) = issued r" by (simp add: issued_def fun_eq_iff)
  with facts show "reg_inv (Store i c' r) \<and> Find (Store i c' r) = (Find r)(i \<mapsto> c') \<and>
      issued (Store i c' r) = issued r \<and> registry_size (Store i c' r) = registry_size r"
    by blast
qed (rule registry_add_fails)

section \<open>Properties\<close>

text \<open>
  Ids are never reused: over any sequence of \<^verbatim>\<open>Add\<close>, \<^verbatim>\<open>Remove\<close> and updates of registered
  connections, the ids that \<^verbatim>\<open>Add\<close> returns are pairwise different and different from all earlier
  ones, and an id that is not registered any more stays so; a result addressed to it finds nothing.
\<close>

theorem connection_ids_never_reused:
  assumes "reg_inv r"
    and "table_run (Add K) Find Store (Remove K) same_peer calls r w = (ids, r', w')"
  shows "reg_inv r' \<and> distinct ids \<and> (\<forall>i \<in> set ids. Find r i = None) \<and>
    (\<forall>i. issued r i \<and> Find r i = None \<longrightarrow> i \<notin> set ids \<and> Find r' i = None)"
proof -
  from registry.run_laws [OF assms] have "reg_inv r'" "distinct ids"
    "\<forall>i \<in> set ids. \<not> issued r i"
    "\<forall>i. issued r i \<longrightarrow> Find r i = None \<longrightarrow> Find r' i = None"
    by blast+
  moreover have "Find r i = None" if "\<not> issued r i" for i
    using registry.look_given [OF assms(1), of i] that by (cases "Find r i") auto
  ultimately show ?thesis by blast
qed

text \<open>
  Resources: a failed \<^verbatim>\<open>Add\<close> leaves the registry as it was and closes the descriptor it was
  given, if there was one; a successful one registers a connection that owns it, is non-blocking
  and empty, under an id that is neither the event key of the listener nor that of the workers'
  wake-up; \<^verbatim>\<open>Remove\<close> closes the descriptor of the connection it erases.
\<close>

theorem registry_owns_descriptors:
  assumes "reg_inv r"
  shows "(case Add K fd r w of
       (Inl e, r', w') \<Rightarrow> r' = r \<and>
         (\<exists>w1. w' = close_all K (if is_valid fd then [get fd] else []) w1)
     | (Inr i, r', w') \<Rightarrow> SetNonBlocking K (get fd) w = (Inr (), w') \<and>
         Find r' i = Some (new_Connection i fd (reg_limits r)) \<and>
         registry_size r' = registry_size r + 1 \<and> 0 < id_value i \<and> id_value i \<noteq> UINT64_MAX) \<and>
    (case Remove K i r w of
       (removed, r', w') \<Rightarrow> Find r' i = None \<and>
         w' = close_all K (case Find r i of None \<Rightarrow> [] | Some c \<Rightarrow> [get (conn_fd c)]) w)"
proof (intro conjI)
  have destroy: "destroy u = (if is_valid u then [get u] else [])" for u
    by (simp add: destroy_def reset_def is_valid_def get_def)
  obtain a r' w' where add: "Add K fd r w = (a, r', w')" by (metis prod_cases3)
  show "case Add K fd r w of
       (Inl e, r', w') \<Rightarrow> r' = r \<and>
         (\<exists>w1. w' = close_all K (if is_valid fd then [get fd] else []) w1)
     | (Inr i, r', w') \<Rightarrow> SetNonBlocking K (get fd) w = (Inr (), w') \<and>
         Find r' i = Some (new_Connection i fd (reg_limits r)) \<and>
         registry_size r' = registry_size r + 1 \<and> 0 < id_value i \<and> id_value i \<noteq> UINT64_MAX"
  proof (cases a)
    case (Inl e)
    with registry_add_fails [OF assms, of K fd w e r' w'] add registry_unused [OF assms]
    show ?thesis
      by (auto simp: Add_def Let_def destroy split: if_splits prod.splits sum.splits)
  next
    case (Inr i)
    note add = add [unfolded Inr]
    have "Find r' i = Some (new_Connection i fd (reg_limits r))" "registry_size r' = registry_size r + 1"
      using registry.add_succeeds [OF assms add] by simp_all
    moreover have "SetNonBlocking K (get fd) w = (Inr (), w')" "id_value i \<noteq> UINT64_MAX"
      using add by (auto simp: Add_def Let_def split: if_splits prod.splits sum.splits)
    ultimately show ?thesis
      using add registry_add(3) [OF assms add] by simp
  qed
  show "case Remove K i r w of
       (removed, r', w') \<Rightarrow> Find r' i = None \<and>
         w' = close_all K (case Find r i of None \<Rightarrow> [] | Some c \<Rightarrow> [get (conn_fd c)]) w"
  proof -
    obtain b r' w' where rem: "Remove K i r w = (b, r', w')" by (metis prod_cases3)
    have "is_valid (conn_fd c)" if "Find r i = Some c" for c
      using that assms by (auto simp: Find_def reg_inv_def entry_ok_def)
    with registry_remove(3) [OF assms rem] rem show ?thesis
      by (auto simp: Remove_def Find_def delete_conv' destroy close_all_def split: option.splits)
  qed
qed

text \<open>Witnesses for a fresh registry over the scripted system.\<close>

abbreviation sample_registry :: ConnectionRegistry where
  "sample_registry \<equiv> new_ConnectionRegistry default_ConnectionLimits"

theorem connection_ids_never_reused_witness:
  "\<exists>r' w'. table_run (Add scripted) Find Store (Remove scripted) same_peer
       [CallAdd (new_UniqueFd 5), CallRemove \<lparr>id_value = 1\<rparr>, CallAdd (new_UniqueFd 5)]
       sample_registry empty_script = ([\<lparr>id_value = 1\<rparr>, \<lparr>id_value = 2\<rparr>], r', w') \<and>
     closed_fds w' = [5] \<and> reg_inv r'"
proof -
  let ?calls = "[CallAdd (new_UniqueFd 5), CallRemove \<lparr>id_value = 1\<rparr>, CallAdd (new_UniqueFd 5)]"
  obtain r' w' where run: "table_run (Add scripted) Find Store (Remove scripted) same_peer ?calls
      sample_registry empty_script = ([\<lparr>id_value = 1\<rparr>, \<lparr>id_value = 2\<rparr>], r', w')" "closed_fds w' = [5]"
    by (simp add: Let_def table_step_def Add_def Remove_def new_ConnectionRegistry_def is_valid_def
        new_UniqueFd_def const_defs UINT64_MAX_def SetNonBlocking_def scripted_def empty_script_def
        O_NONBLOCK_def close_all_def destroy_def reset_def new_Connection_def)
  with connection_ids_never_reused [OF new_ConnectionRegistry_inv run(1)] show ?thesis
    by blast
qed

theorem registry_owns_descriptors_witness:
  "reg_inv sample_registry \<and>
   (case Add scripted (new_UniqueFd (-1)) sample_registry empty_script of
      (Inl e, r', w') \<Rightarrow> r' = sample_registry | (Inr i, r', w') \<Rightarrow> 0 < id_value i)"
  using registry_owns_descriptors [OF new_ConnectionRegistry_inv, of default_ConnectionLimits scripted
      "new_UniqueFd (-1)" empty_script] new_ConnectionRegistry_inv
  by (auto split: prod.splits sum.splits)

end
