(* ===== verification/Bounded_Queue.thy ===== *)
theory Bounded_Queue
  imports Pulse_Prelude "HOL-Library.Multiset"
begin

text \<open>
  The bounded queue between the reactor and the workers
  (\<^verbatim>\<open>include/pulsecore/core/bounded_queue.hpp\<close>). Every operation runs under the queue's mutex,
  so it is one atomic step; \<open>Pop\<close> waits while the predicate of its condition variable is false,
  which the model reports as \<open>None\<close>. The interface \<open>bounded_fifo\<close> states what the producers and
  consumers rely on, and its lemmas follow any interleaving of calls.
\<close>

section \<open>The queue\<close>

record 'a BoundedQueue =
  capacity :: nat
  items :: "'a list"
  closed :: bool

definition new_BoundedQueue :: "nat \<Rightarrow> exn + 'a BoundedQueue" where
  "new_BoundedQueue cap =
     (if cap = 0 then Inl (InvalidArgument ''bounded queue capacity must be greater than zero'')
      else Inr \<lparr>capacity = cap, items = [], closed = False\<rparr>)"

definition TryPush :: "'a BoundedQueue \<Rightarrow> 'a \<Rightarrow> bool \<times> 'a BoundedQueue" where
  "TryPush q item =
     (if closed q \<or> length (items q) \<ge> capacity q then (False, q)
      else (True, q\<lparr>items := items q @ [item]\<rparr>))"

definition Pop :: "'a BoundedQueue \<Rightarrow> ('a option \<times> 'a BoundedQueue) option" where
  "Pop q =
     (if \<not> (closed q \<or> items q \<noteq> []) then None
      else if items q = [] then Some (None, q)
      else Some (Some (hd (items q)), q\<lparr>items := tl (items q)\<rparr>))"

definition Close :: "'a BoundedQueue \<Rightarrow> 'a BoundedQueue" where
  "Close q = q\<lparr>closed := True\<rparr>"

definition queue_size :: "'a BoundedQueue \<Rightarrow> nat" where
  "queue_size q = length (items q)"

section \<open>The interface\<close>

text \<open>A history of calls: what the producers got accepted and what the consumers received.\<close>

datatype 'a queue_call = CallPush 'a | CallPop | CallClose

definition queue_step ::
  "('q \<Rightarrow> 'a \<Rightarrow> bool \<times> 'q) \<Rightarrow> ('q \<Rightarrow> ('a option \<times> 'q) option) \<Rightarrow> ('q \<Rightarrow> 'q) \<Rightarrow>
   'q \<Rightarrow> 'a queue_call \<Rightarrow> 'a list \<times> 'a list \<times> 'q" where
  "queue_step push pop close q call =
     (case call of
        CallPush x \<Rightarrow> (case push q x of (ok, q') \<Rightarrow> (if ok then [x] else [], [], q'))
      | CallPop \<Rightarrow>
          (case pop q of
             None \<Rightarrow> ([], [], q)
           | Some (None, q') \<Rightarrow> ([], [], q')
           | Some (Some x, q') \<Rightarrow> ([], [x], q'))
      | CallClose \<Rightarrow> ([], [], close q))"

fun queue_run ::
  "('q \<Rightarrow> 'a \<Rightarrow> bool \<times> 'q) \<Rightarrow> ('q \<Rightarrow> ('a option \<times> 'q) option) \<Rightarrow> ('q \<Rightarrow> 'q) \<Rightarrow>
   'q \<Rightarrow> 'a queue_call list \<Rightarrow> 'a list \<times> 'a list \<times> 'q" where
  "queue_run push pop close q [] = ([], [], q)"
| "queue_run push pop close q (c # cs) =
     (case queue_step push pop close q c of (ins, outs, q') \<Rightarrow>
        case queue_run push pop close q' cs of (ins', outs', q'') \<Rightarrow> (ins @ ins', outs @ outs', q''))"

locale bounded_fifo =
  fixes push :: "'q \<Rightarrow> 'a \<Rightarrow> bool \<times> 'q"
    and pop :: "'q \<Rightarrow> ('a option \<times> 'q) option"
    and close :: "'q \<Rightarrow> 'q"
    and contents :: "'q \<Rightarrow> 'a list"
    and limit :: "'q \<Rightarrow> nat"
    and is_closed :: "'q \<Rightarrow> bool"
  assumes push_accepts: "push q x = (True, q') \<Longrightarrow> contents q' = contents q @ [x] \<and>
      limit q' = limit q \<and> is_closed q' = is_closed q \<and>
      \<not> is_closed q \<and> length (contents q) < limit q"
    and push_rejects: "push q x = (False, q') \<Longrightarrow> q' = q \<and>
      (is_closed q \<or> limit q \<le> length (contents q))"
    and pop_item: "pop q = Some (Some x, q') \<Longrightarrow> contents q = x # contents q' \<and>
      limit q' = limit q \<and> is_closed q' = is_closed q"
    and pop_end: "pop q = Some (None, q') \<Longrightarrow> q' = q \<and> contents q = [] \<and> is_closed q"
    and pop_waits: "pop q = None \<longleftrightarrow> contents q = [] \<and> \<not> is_closed q"
    and close_keeps: "contents (close q) = contents q \<and> limit (close q) = limit q \<and>
      is_closed (close q)"
begin

lemma step_laws:
  assumes "queue_step push pop close q c = (ins, outs, q')"
  shows "contents q @ ins = outs @ contents q'" "limit q' = limit q"
    "length (contents q) \<le> limit q \<Longrightarrow> length (contents q') \<le> limit q"
    "is_closed q \<Longrightarrow> ins = [] \<and> is_closed q'"
  using assms
  by (auto simp: queue_step_def close_keeps split: queue_call.splits prod.splits option.splits if_splits
      dest!: push_accepts push_rejects pop_item pop_end)

lemma run_laws:
  assumes "queue_run push pop close q cs = (ins, outs, q')"
  shows "contents q @ ins = outs @ contents q' \<and> limit q' = limit q \<and>
    (length (contents q) \<le> limit q \<longrightarrow> length (contents q') \<le> limit q) \<and>
    (is_closed q \<longrightarrow> ins = [] \<and> is_closed q')"
  using assms
proof (induction cs arbitrary: q ins outs q')
  case Nil
  then show ?case by simp
next
  case (Cons c cs)
  obtain i1 o1 q1 where s: "queue_step push pop close q c = (i1, o1, q1)"
    by (metis prod_cases3)
  obtain i2 o2 where r: "queue_run push pop close q1 cs = (i2, o2, q')"
    and eq: "ins = i1 @ i2" "outs = o1 @ o2"
    using Cons.prems s by (auto split: prod.splits)
  have "contents q @ ins = outs @ contents q'"
    using step_laws(1) [OF s] Cons.IH [OF r] by (simp add: eq) (metis append.assoc)
  then show ?case
    using step_laws(2,3,4) [OF s] Cons.IH [OF r] by (auto simp: eq)
qed

text \<open>Closed queues are drained: one pop per item delivers all of them, then the end is reported.\<close>

lemma pop_closed:
  "is_closed q \<Longrightarrow> contents q = [] \<Longrightarrow> pop q = Some (None, q)"
  using pop_waits [of q] pop_item [of q] pop_end [of q]
  by (metis list.distinct(1) not_None_eq surj_pair)

lemma run_drain:
  "is_closed q \<Longrightarrow>
     \<exists>q'. queue_run push pop close q (replicate (length (contents q)) CallPop) =
       ([], contents q, q') \<and> pop q' = Some (None, q')"
proof (induction "contents q" arbitrary: q)
  case Nil
  then show ?case
    by (metis list.size(3) pop_closed queue_run.simps(1) replicate_0)
next
  case (Cons x xs)
  then obtain q1 where p: "pop q = Some (Some x, q1)"
    using pop_waits [of q] pop_end [of q] pop_item [of q]
    by (metis list.distinct(1) list.inject not_None_eq surj_pair)
  then have "xs = contents q1" "is_closed q1"
    using pop_item [OF p] Cons.hyps(2) Cons.prems by (metis list.inject, simp)
  with Cons.hyps(1) obtain q' where
    "queue_run push pop close q1 (replicate (length xs) CallPop) = ([], xs, q')"
    "pop q' = Some (None, q')"
    by blast
  then show ?case
    by (intro exI [of _ q']) (simp add: Cons.hyps(2) [symmetric] queue_step_def p)
qed

end

interpretation bq: bounded_fifo TryPush Pop Close items capacity closed
  by unfold_locales (auto simp: TryPush_def Pop_def Close_def split: if_splits)

section \<open>Properties\<close>

text \<open>
  C33. Under any interleaving of \<open>TryPush\<close>, \<open>Pop\<close> and \<open>Close\<close> calls on a fresh queue, the items that
  were delivered are, in order, the first of those that were accepted; the others are still queued,
  and there are never more of them than the capacity.
\<close>

theorem bounded_queue_is_fifo:
  assumes "new_BoundedQueue cap = Inr q"
    and "queue_run TryPush Pop Close q calls = (accepted, delivered, q')"
  shows "accepted = delivered @ items q' \<and> length (items q') \<le> cap"
proof -
  have "items q = []" "capacity q = cap"
    using assms(1) by (auto simp: new_BoundedQueue_def split: if_splits)
  with bq.run_laws [OF assms(2)] show ?thesis by simp
qed

theorem bounded_queue_is_fifo_witness:
  "\<exists>q. new_BoundedQueue 2 = Inr q \<and>
     (\<exists>q'. queue_run TryPush Pop Close q
        [CallPush (1::nat), CallPush 2, CallPush 3, CallPop, CallPush 4, CallClose, CallPush 5, CallPop] =
        ([1, 2, 4], [1, 2], q') \<and> [1, 2, 4] = [1, 2] @ items q' \<and> length (items q') \<le> 2)"
proof -
  define q :: "nat BoundedQueue" where "q = \<lparr>capacity = 2, items = [], closed = False\<rparr>"
  have q: "new_BoundedQueue 2 = Inr q"
    by (simp add: new_BoundedQueue_def q_def)
  obtain q' where run: "queue_run TryPush Pop Close q
      [CallPush 1, CallPush 2, CallPush 3, CallPop, CallPush 4, CallClose, CallPush 5, CallPop] =
      ([1, 2, 4], [1, 2], q')"
    by (simp add: q_def queue_step_def TryPush_def Pop_def Close_def)
  from bounded_queue_is_fifo [OF q run] q run show ?thesis by blast
qed

text \<open>
  Shutdown of the queue: after \<open>Close\<close> no call sequence gets anything accepted, popping as
  often as there are items delivers all of them in order without waiting, and the next \<open>Pop\<close>
  reports the end.
\<close>

theorem closed_queue_refuses_and_drains:
  "fst (queue_run TryPush Pop Close (Close q) calls) = [] \<and>
   (\<exists>q'. queue_run TryPush Pop Close (Close q) (replicate (length (items q)) CallPop) =
      ([], items q, q') \<and> Pop q' = Some (None, q'))"
proof (intro conjI)
  obtain ins outs q' where "queue_run TryPush Pop Close (Close q) calls = (ins, outs, q')"
    by (metis prod_cases3)
  from this bq.run_laws [OF this]
  show "fst (queue_run TryPush Pop Close (Close q) calls) = []"
    by (simp add: bq.close_keeps)
qed (use bq.run_drain [of "Close q"] in \<open>simp add: bq.close_keeps\<close>)

end
