(* ===== verification/Handler.thy ===== *)
theory Handler
  imports Codec
begin

text \<open>
  The request handler (\<^verbatim>\<open>include/pulsecore/core/handler.hpp\<close>,
  \<^verbatim>\<open>src/core/handler.cpp\<close>): echo requests, the bounded synthetic workload, and error
  responses. The lemmas give the exact acceptance condition of a
  work request and the bound on its cost, and that every response to a decodable request can be
  encoded again.
\<close>

section \<open>Definitions\<close>

definition kMaxWorkIterations :: u32 where
  [const_defs]: "kMaxWorkIterations = 1000000"

definition kMaxWorkUnits :: u64 where
  [const_defs]: "kMaxWorkUnits = 64 * 1024 * 1024"

text \<open>A \<^verbatim>\<open>std::string_view\<close> becomes the bytes of its characters.\<close>

definition ErrorPayload :: "string \<Rightarrow> byte list" where
  "ErrorPayload message = map (\<lambda>c. of_nat (of_char c)) message"

definition ErrorResponse :: "u64 \<Rightarrow> string \<Rightarrow> Message" where
  "ErrorResponse rid message =
     \<lparr>msg_type = kErrorResponse, request_id = rid, payload = ErrorPayload message\<rparr>"

text \<open>\<^verbatim>\<open>handler.cpp\<close> has its own copies of the field helpers.\<close>

definition handler_AppendU32 :: "byte list \<Rightarrow> u32 \<Rightarrow> byte list" where
  "handler_AppendU32 out v = out @
     [ucast (drop_bit 24 v AND 0xFF),
      ucast (drop_bit 16 v AND 0xFF),
      ucast (drop_bit 8 v AND 0xFF),
      ucast (v AND 0xFF)]"

definition handler_AppendU64 :: "byte list \<Rightarrow> u64 \<Rightarrow> byte list" where
  "handler_AppendU64 out v = out @
     [ucast (drop_bit 56 v AND 0xFF),
      ucast (drop_bit 48 v AND 0xFF),
      ucast (drop_bit 40 v AND 0xFF),
      ucast (drop_bit 32 v AND 0xFF),
      ucast (drop_bit 24 v AND 0xFF),
      ucast (drop_bit 16 v AND 0xFF),
      ucast (drop_bit 8 v AND 0xFF),
      ucast (v AND 0xFF)]"

definition handler_ReadU32 :: "byte list \<Rightarrow> u32" where
  "handler_ReadU32 bytes =
     push_bit 24 (ucast (bytes ! 0)) OR
     push_bit 16 (ucast (bytes ! 1)) OR
     push_bit 8 (ucast (bytes ! 2)) OR
     ucast (bytes ! 3)"

definition kIterationBytes :: nat where
  [const_defs]: "kIterationBytes = 4"

definition kFnvOffset :: u64 where
  [const_defs]: "kFnvOffset = 1469598103934665603"

definition kFnvPrime :: u64 where
  [const_defs]: "kFnvPrime = 1099511628211"

text \<open>The loop over the seed bytes, and the loop over the rounds with its 32-bit counter.\<close>

fun mix_seed :: "u64 \<Rightarrow> byte list \<Rightarrow> u64" where
  "mix_seed hash [] = hash"
| "mix_seed hash (b # seed) = mix_seed ((hash XOR ucast b) * kFnvPrime) seed"

function work_rounds :: "u32 \<Rightarrow> u32 \<Rightarrow> byte list \<Rightarrow> u64 \<Rightarrow> u64" where
  "work_rounds round iterations seed hash =
     (if round < iterations then
        let hash = (hash XOR ucast round) * kFnvPrime;
            hash = mix_seed hash seed;
            hash = hash XOR drop_bit 32 hash
        in work_rounds (round + 1) iterations seed hash
      else hash)"
  by pat_completeness auto
termination
proof (relation "measure (\<lambda>(round, iterations, seed, hash). unat iterations - unat round)", goal_cases)
  case 1
  then show ?case by simp
next
  case (2 round iterations seed hash)
  then show ?case
    by (auto simp: unat_incr word_less_nat_alt)
qed

declare work_rounds.simps [simp del]

definition ComputeWorkResponsePayload :: "byte list \<Rightarrow> byte list option" where
  "ComputeWorkResponsePayload request_bytes =
     (if length request_bytes < kIterationBytes then None
      else
        let iterations = handler_ReadU32 (take kIterationBytes request_bytes) in
        if iterations > kMaxWorkIterations then None
        else
          let seed = drop kIterationBytes request_bytes;
              seed_work_units = (if seed = [] then 1 else of_nat (length seed) :: u64)
          in if iterations > 0 \<and> seed_work_units > kMaxWorkUnits div ucast iterations then None
             else Some (handler_AppendU64 [] (work_rounds 0 iterations seed kFnvOffset)))"

definition EncodeWorkRequestPayload :: "u32 \<Rightarrow> byte list \<Rightarrow> byte list" where
  "EncodeWorkRequestPayload iterations seed = handler_AppendU32 [] iterations @ seed"

definition HandleOwnedRequest :: "Message \<Rightarrow> Message" where
  "HandleOwnedRequest request =
     (if msg_type request = kEchoRequest then
        \<lparr>msg_type = kEchoResponse, request_id = request_id request, payload = payload request\<rparr>
      else if msg_type request = kWorkRequest then
        (case ComputeWorkResponsePayload (payload request) of
           Some p \<Rightarrow> \<lparr>msg_type = kWorkResponse, request_id = request_id request, payload = p\<rparr>
         | None \<Rightarrow> ErrorResponse (request_id request) ''invalid work request payload'')
      else if msg_type request = kEchoResponse \<or> msg_type request = kWorkResponse \<or>
              msg_type request = kErrorResponse then
        \<lparr>msg_type = kErrorResponse, request_id = request_id request,
         payload = ErrorPayload ''unexpected response message from client''\<rparr>
      else ErrorResponse (request_id request) ''unknown request message'')"

definition HandleRequest :: "Message \<Rightarrow> Message" where
  "HandleRequest request =
     HandleOwnedRequest \<lparr>msg_type = msg_type request, request_id = request_id request,
       payload = payload request\<rparr>"

section \<open>Lemmas\<close>

text \<open>The handler's private field helpers agree with the codec's.\<close>

lemma handler_fields:
  "handler_AppendU32 = AppendU32" "handler_AppendU64 = AppendU64"
  "handler_ReadU32 bs = ReadU32 bs 0"
  by (simp_all add: fun_eq_iff handler_AppendU32_def handler_AppendU64_def handler_ReadU32_def
      append_field_defs read_field_defs numeral_2_eq_2 numeral_3_eq_3)

lemma ReadU32_take: "n \<ge> 4 \<Longrightarrow> ReadU32 (take n bs) 0 = ReadU32 bs 0"
  by (simp add: ReadU32_def)

lemma ReadU32_AppendU32: "ReadU32 (AppendU32 [] v @ rest) 0 = v"
  by (simp add: ReadU32_def AppendU32_def cat_bytes_u32)

lemma request_id_HandleOwnedRequest: "request_id (HandleOwnedRequest r) = request_id r"
  by (simp add: HandleOwnedRequest_def ErrorResponse_def split: option.splits)

lemma HandleRequest_eq: "HandleRequest r = HandleOwnedRequest r"
  by (cases r) (simp add: HandleRequest_def)

lemma length_ErrorPayload [simp]: "length (ErrorPayload s) = length s"
  by (simp add: ErrorPayload_def)

lemma length_ComputeWorkResponsePayload:
  "ComputeWorkResponsePayload bs = Some p \<Longrightarrow> length p = 8"
  by (auto simp: ComputeWorkResponsePayload_def handler_fields Let_def split: if_splits)

text \<open>One round of the workload, and the whole workload as a fold over the round numbers.\<close>

definition work_round :: "byte list \<Rightarrow> nat \<Rightarrow> u64 \<Rightarrow> u64" where
  "work_round seed r hash =
     (let h = fold (\<lambda>b h. (h XOR ucast b) * kFnvPrime) seed ((hash XOR of_nat r) * kFnvPrime)
      in h XOR drop_bit 32 h)"

definition work_digest :: "nat \<Rightarrow> byte list \<Rightarrow> u64" where
  "work_digest n seed = fold (work_round seed) [0..<n] kFnvOffset"

lemma mix_seed_fold: "mix_seed hash seed = fold (\<lambda>b h. (h XOR ucast b) * kFnvPrime) seed hash"
  by (induction hash seed rule: mix_seed.induct) simp_all

lemma work_rounds_fold:
  "work_rounds r n seed hash = fold (work_round seed) [unat r..<unat n] hash"
proof (induction r n seed hash rule: work_rounds.induct)
  case (1 r n seed hash)
  show ?case
  proof (cases "r < n")
    case True
    then have "[unat r..<unat n] = unat r # [unat (r + 1)..<unat n]"
      by (simp add: unat_incr upt_conv_Cons word_less_nat_alt)
    moreover have "work_rounds (r + 1) n seed (work_round seed (unat r) hash) =
        fold (work_round seed) [unat (r + 1)..<unat n] (work_round seed (unat r) hash)"
      using "1.IH" [OF True refl refl refl]
      by (simp add: work_round_def [of seed "unat r" hash] mix_seed_fold Let_def)
    moreover have "work_rounds r n seed hash =
        work_rounds (r + 1) n seed (work_round seed (unat r) hash)"
      using True by (subst work_rounds.simps) (simp add: work_round_def mix_seed_fold Let_def)
    ultimately show ?thesis by simp
  next
    case False
    then show ?thesis
      by (subst work_rounds.simps) (simp add: word_less_nat_alt)
  qed
qed

text \<open>
  The acceptance test divides instead of multiplying, so it cannot overflow; it is the product
  test.
\<close>

lemma work_units_test:
  fixes n :: u32 and k :: u64
  assumes "0 < n"
  shows "k > kMaxWorkUnits div ucast n \<longleftrightarrow> unat n * unat k > 64 * 1024 * 1024"
proof -
  have n: "unat (ucast n :: u64) = unat n"
    by (simp add: unat_ucast_up)
  have "k > kMaxWorkUnits div ucast n \<longleftrightarrow> unat k > 64 * 1024 * 1024 div unat n"
    by (simp add: word_less_nat_alt unat_div n kMaxWorkUnits_def)
  also have "\<dots> \<longleftrightarrow> unat n * unat k > 64 * 1024 * 1024"
    using assms by (simp add: div_less_iff_less_mult word_less_nat_alt mult.commute)
  finally show ?thesis .
qed

definition work_acceptable :: "nat \<Rightarrow> nat \<Rightarrow> bool" where
  "work_acceptable n seed_size \<longleftrightarrow> n \<le> 1000000 \<and> n * max 1 seed_size \<le> 64 * 1024 * 1024"

lemma ComputeWorkResponsePayload_eq:
  assumes "length bs \<le> SIZE_MAX"
  shows "ComputeWorkResponsePayload bs =
    (if 4 \<le> length bs \<and> work_acceptable (unat (ReadU32 bs 0)) (length bs - 4)
     then Some (AppendU64 [] (work_digest (unat (ReadU32 bs 0)) (drop 4 bs))) else None)"
proof (cases "4 \<le> length bs")
  case False
  then show ?thesis
    by (simp add: ComputeWorkResponsePayload_def kIterationBytes_def)
next
  case True
  let ?n = "ReadU32 bs 0" and ?seed = "drop 4 bs"
  let ?k = "if ?seed = [] then 1 else of_nat (length ?seed) :: u64"
  have k: "unat ?k = max 1 (length bs - 4)"
    using assms True unat_of_size [of "length bs - 4"] by (cases "length bs = 4") auto
  have "(?n > 0 \<and> ?k > kMaxWorkUnits div ucast ?n) \<longleftrightarrow> unat ?n * unat ?k > 64 * 1024 * 1024"
    using work_units_test [of ?n ?k] by (cases "?n = 0") (auto simp: word_neq_0_conv)
  moreover have "?n > kMaxWorkIterations \<longleftrightarrow> unat ?n > 1000000"
    by (simp add: word_less_nat_alt kMaxWorkIterations_def)
  ultimately show ?thesis
    using True k
    by (auto simp: ComputeWorkResponsePayload_def kIterationBytes_def handler_fields ReadU32_take
        work_acceptable_def work_digest_def work_rounds_fold Let_def not_less)
qed

lemma encodable_HandleOwnedRequest:
  assumes "length (payload r) \<le> 65536"
  shows "encodable (HandleOwnedRequest r)"
  using assms length_ComputeWorkResponsePayload [of "payload r"]
  by (auto simp: encodable_def HandleOwnedRequest_def ErrorResponse_def IsKnownMessageType_def
      split: option.splits)

section \<open>Properties\<close>

text \<open>
  C30. A work request is accepted exactly when its payload holds the iteration count, the count is
  at most 1,000,000 and the count times the seed size (an empty seed counts as one) is at most
  64 Mi units; its digest is then the fold of the mixing rounds \<open>0 \<dots> n - 1\<close> over the seed. The
  hypothesis only says that the payload is a vector that fits in memory.
\<close>

theorem work_request_accepted_iff:
  assumes "length bytes \<le> SIZE_MAX"
  shows "ComputeWorkResponsePayload bytes =
    (let n = unat (ReadU32 bytes 0); seed = drop 4 bytes in
     if 4 \<le> length bytes \<and> n \<le> 1000000 \<and> n * max 1 (length seed) \<le> 64 * 1024 * 1024
     then Some (AppendU64 [] (work_digest n seed)) else None)"
  using ComputeWorkResponsePayload_eq [OF assms] by (simp add: work_acceptable_def Let_def)

theorem work_request_accepted_iff_witness:
  "length [0, 0, 0, 1, 42 :: byte] \<le> SIZE_MAX \<and>
   ComputeWorkResponsePayload [0, 0, 0, 1, 42] = Some (AppendU64 [] (work_digest 1 [42]))"
proof -
  have "length [0, 0, 0, 1, 42 :: byte] \<le> SIZE_MAX"
    by (simp add: SIZE_MAX_def)
  then show ?thesis
    using work_request_accepted_iff [of "[0, 0, 0, 1, 42]"] by (simp add: ReadU32_def)
qed

text \<open>
  The client-side helper and the server agree: the payload that \<open>EncodeWorkRequestPayload\<close>
  builds from an iteration count and a seed within the limits is answered with the digest of
  exactly that count and seed, and with the request's id.
\<close>

theorem encoded_work_request_is_served:
  assumes "work_acceptable (unat iterations) (length seed)" and "length seed \<le> 65532"
    and "msg_type r = kWorkRequest" and "payload r = EncodeWorkRequestPayload iterations seed"
  shows "HandleOwnedRequest r =
    \<lparr>msg_type = kWorkResponse, request_id = request_id r,
     payload = AppendU64 [] (work_digest (unat iterations) seed)\<rparr>"
proof -
  have fits: "length (payload r) \<le> SIZE_MAX"
    using assms(2,4) by (simp add: EncodeWorkRequestPayload_def handler_fields SIZE_MAX_def)
  have "ComputeWorkResponsePayload (payload r) =
      Some (AppendU64 [] (work_digest (unat iterations) seed))"
    using assms(1,4) ComputeWorkResponsePayload_eq [OF fits]
    by (simp add: EncodeWorkRequestPayload_def handler_fields ReadU32_AppendU32)
  then show ?thesis
    using assms(3) by (simp add: HandleOwnedRequest_def const_defs)
qed

theorem encoded_work_request_is_served_witness:
  "work_acceptable (unat (2 :: u32)) (length [1, 2, 3 :: byte]) \<and>
   HandleOwnedRequest \<lparr>msg_type = kWorkRequest, request_id = 9,
     payload = EncodeWorkRequestPayload 2 [1, 2, 3]\<rparr> =
   \<lparr>msg_type = kWorkResponse, request_id = 9, payload = AppendU64 [] (work_digest 2 [1, 2, 3])\<rparr>"
proof -
  have "work_acceptable (unat (2 :: u32)) (length [1, 2, 3 :: byte])"
    by (simp add: work_acceptable_def)
  then show ?thesis
    using encoded_work_request_is_served [of 2 "[1, 2, 3]" "\<lparr>msg_type = kWorkRequest, request_id = 9,
      payload = EncodeWorkRequestPayload 2 [1, 2, 3]\<rparr>"] by simp
qed

text \<open>
  Whatever frame a client sends, the handler's response to it can be encoded: the size limit
  of requests carries over to responses, so the reply path never fails on encoding.
\<close>

theorem response_to_decoded_request_is_encodable:
  assumes "TryDecodeFrame bytes = Decoded request n"
  shows "\<exists>frame. EncodeMessage (HandleOwnedRequest request) = Some frame \<and>
           length frame \<le> kHeaderSize + unat kMaxPayloadSize"
proof -
  have "length (payload request) \<le> 65536"
    using TryDecodeFrame_DecodedD(1) [OF assms] by (simp add: encodable_def)
  then have "encodable (HandleOwnedRequest request)"
    by (rule encodable_HandleOwnedRequest)
  then show ?thesis
    by (simp add: EncodeMessage_eq) (simp add: encodable_def)
qed

theorem response_to_decoded_request_is_encodable_witness:
  "TryDecodeFrame sample_frame = Decoded sample_message 22 \<and>
   (\<exists>frame. EncodeMessage (HandleOwnedRequest sample_message) = Some frame)"
proof -
  have "TryDecodeFrame sample_frame = Decoded sample_message 22"
    using frames.dec_enc [OF EncodeMessage_sample, of "[]"] by (simp add: sample_frame_def)
  then show ?thesis
    using response_to_decoded_request_is_encodable [of sample_frame sample_message 22] by blast
qed

end
