(* ===== verification/Worker_Pool.thy ===== *)
theory Worker_Pool
  imports Bounded_Queue Handler Connection
begin

text \<open>
  The worker threads (\<^verbatim>\<open>include/pulsecore/network/worker_pool.hpp\<close>,
  \<^verbatim>\<open>src/network/worker_pool.cpp\<close>) and the condition-variable protocol of the queue they share.
  The pool is a state machine: each rule is one atomic action of one thread. A push and its
  \<^verbatim>\<open>notify_one\<close>, and a close and its \<^verbatim>\<open>notify_all\<close>, are separate actions because the queue
  notifies after it has released its mutex; a waiting worker may also wake up spuriously. The
  histories of accepted items and of completion calls are recorded beside the state. The lemmas show
  that no wake-up is lost, that every accepted item is answered exactly once, and that stopping the
  pool finishes.
\<close>

section \<open>Data\<close>

record WorkItem =
  wi_connection_id :: ConnectionId
  wi_sequence :: u64
  wi_request :: Message

record WorkResult =
  wr_connection_id :: ConnectionId
  wr_sequence :: u64
  wr_response :: Message

record WorkerPoolConfig =
  worker_count :: nat
  queue_capacity :: nat

definition default_WorkerPoolConfig :: WorkerPoolConfig where
  "default_WorkerPoolConfig = \<lparr>worker_count = 2, queue_capacity = 1024\<rparr>"

type_synonym WorkHandler = "Message \<Rightarrow> exn + Message"

definition WorkerHandlerErrorResponse :: "u64 \<Rightarrow> Message" where
  "WorkerHandlerErrorResponse i =
     \<lparr>msg_type = kErrorResponse, request_id = i, payload = ErrorPayload ''worker handler failed''\<rparr>"

text \<open>Where a worker thread is in \<^verbatim>\<open>WorkerLoop\<close>.\<close>

datatype worker =
    Ready
  | Waiting
  | Handling WorkItem
  | Exited

record WorkerPool =
  pool_queue :: "WorkItem BoundedQueue"
  workers :: "worker list"
  notifies :: nat
  notify_alls :: nat
  accepted :: "WorkItem list"
  completed :: "WorkResult list"

section \<open>Operations\<close>

text \<open>
  The constructor: the queue is built before the other arguments are checked, and when a thread
  cannot be created the threads started before it are stopped. \<open>spawn\<close> says which thread creations
  fail, and an empty \<^verbatim>\<open>std::function\<close> is \<open>None\<close>.
\<close>

fun start_workers :: "(nat \<Rightarrow> exn option) \<Rightarrow> nat \<Rightarrow> nat \<Rightarrow> exn option" where
  "start_workers spawn i 0 = None"
| "start_workers spawn i (Suc n) =
     (case spawn i of Some e \<Rightarrow> Some e | None \<Rightarrow> start_workers spawn (Suc i) n)"

definition new_WorkerPool ::
  "WorkerPoolConfig \<Rightarrow> bool \<Rightarrow> WorkHandler option \<Rightarrow> (nat \<Rightarrow> exn option) \<Rightarrow> exn + WorkerPool" where
  "new_WorkerPool config has_completion handler spawn =
     (case new_BoundedQueue (queue_capacity config) of
        Inl e \<Rightarrow> Inl e
      | Inr q \<Rightarrow>
          if worker_count config = 0
          then Inl (InvalidArgument ''worker count must be greater than zero'')
          else if \<not> has_completion
          then Inl (InvalidArgument ''worker completion callback must be set'')
          else if handler = None
          then Inl (InvalidArgument ''worker handler must be set'')
          else (case start_workers spawn 0 (worker_count config) of
                  Some e \<Rightarrow> Inl e
                | None \<Rightarrow> Inr \<lparr>pool_queue = q, workers = replicate (worker_count config) Ready,
                             notifies = 0, notify_alls = 0, accepted = [], completed = []\<rparr>))"

definition TrySubmit :: "WorkerPool \<Rightarrow> WorkItem \<Rightarrow> bool \<times> WorkerPool" where
  "TrySubmit p item =
     (case TryPush (pool_queue p) item of
        (False, q) \<Rightarrow> (False, p\<lparr>pool_queue := q\<rparr>)
      | (True, q) \<Rightarrow> (True, p\<lparr>pool_queue := q, notifies := notifies p + 1,
                              accepted := accepted p @ [item]\<rparr>))"

text \<open>The part of \<^verbatim>\<open>Stop\<close> before the joins.\<close>

definition StopPool :: "WorkerPool \<Rightarrow> WorkerPool" where
  "StopPool p = p\<lparr>pool_queue := Close (pool_queue p), notify_alls := notify_alls p + 1\<rparr>"

definition pending_work_count :: "WorkerPool \<Rightarrow> nat" where
  "pending_work_count p = queue_size (pool_queue p)"

text \<open>The body of \<^verbatim>\<open>WorkerLoop\<close> for an item: a handler that throws gives the error response.\<close>

definition work_result :: "WorkHandler \<Rightarrow> WorkItem \<Rightarrow> WorkResult" where
  "work_result handler item =
     (let i = request_id (wi_request item);
          response = (case handler (wi_request item) of
                        Inl e \<Rightarrow> WorkerHandlerErrorResponse i
                      | Inr m \<Rightarrow> m)
      in \<lparr>wr_connection_id = wi_connection_id item, wr_sequence = wi_sequence item,
          wr_response = response\<rparr>)"

text \<open>
  One step of worker \<open>k\<close> inside \<^verbatim>\<open>WorkerLoop\<close>: the critical section of \<^verbatim>\<open>Pop\<close>, or handling an item and
  reporting its result. A worker that waits or has returned makes no step of its own.
\<close>

definition worker_step :: "WorkHandler \<Rightarrow> nat \<Rightarrow> WorkerPool \<Rightarrow> WorkerPool option" where
  "worker_step handler k p =
     (case workers p ! k of
        Ready \<Rightarrow>
          (case Pop (pool_queue p) of
             None \<Rightarrow> Some (p\<lparr>workers := (workers p)[k := Waiting]\<rparr>)
           | Some (None, q) \<Rightarrow> Some (p\<lparr>pool_queue := q, workers := (workers p)[k := Exited]\<rparr>)
           | Some (Some item, q) \<Rightarrow>
               Some (p\<lparr>pool_queue := q, workers := (workers p)[k := Handling item]\<rparr>))
      | Handling item \<Rightarrow>
          Some (p\<lparr>workers := (workers p)[k := Ready],
                 completed := completed p @ [work_result handler item]\<rparr>)
      | _ \<Rightarrow> None)"

definition wake :: "worker \<Rightarrow> worker" where
  "wake x = (if x = Waiting then Ready else x)"

section \<open>The pool as a state machine\<close>

datatype pool_action = Submitted WorkItem | Refused WorkItem | Closed | Notified | Worked nat | Spurious

inductive pool_step :: "WorkHandler \<Rightarrow> pool_action \<Rightarrow> WorkerPool \<Rightarrow> WorkerPool \<Rightarrow> bool"
  for handler :: WorkHandler where
  submit: "TrySubmit p item = (True, p') \<Longrightarrow> pool_step handler (Submitted item) p p'"
| refuse: "TrySubmit p item = (False, p') \<Longrightarrow> pool_step handler (Refused item) p p'"
| close: "pool_step handler Closed p (StopPool p)"
| notify_one: "0 < notifies p \<Longrightarrow> k < length (workers p) \<Longrightarrow> workers p ! k = Waiting \<Longrightarrow>
    pool_step handler Notified p
      (p\<lparr>notifies := notifies p - 1, workers := (workers p)[k := Ready]\<rparr>)"
| notify_none: "0 < notifies p \<Longrightarrow> Waiting \<notin> set (workers p) \<Longrightarrow>
    pool_step handler Notified p (p\<lparr>notifies := notifies p - 1\<rparr>)"
| notify_all: "0 < notify_alls p \<Longrightarrow>
    pool_step handler Notified p
      (p\<lparr>notify_alls := notify_alls p - 1, workers := map wake (workers p)\<rparr>)"
| work: "k < length (workers p) \<Longrightarrow> worker_step handler k p = Some p' \<Longrightarrow>
    pool_step handler (Worked k) p p'"
| spurious: "k < length (workers p) \<Longrightarrow> workers p ! k = Waiting \<Longrightarrow>
    pool_step handler Spurious p (p\<lparr>workers := (workers p)[k := Ready]\<rparr>)"

inductive pool_run :: "WorkHandler \<Rightarrow> pool_action list \<Rightarrow> WorkerPool \<Rightarrow> WorkerPool \<Rightarrow> bool"
  for handler :: WorkHandler where
  stop: "pool_run handler [] p p"
| step: "pool_step handler a p p1 \<Longrightarrow> pool_run handler as p1 p' \<Longrightarrow> pool_run handler (a # as) p p'"

inductive_cases pool_run_stopE: "pool_run handler [] p p'"
inductive_cases pool_run_stepE: "pool_run handler (a # as) p p'"

section \<open>Invariants\<close>

definition is_ready :: "worker \<Rightarrow> nat" where
  "is_ready x = (if x = Ready then 1 else 0)"

definition held :: "worker \<Rightarrow> WorkItem multiset" where
  "held x = (case x of Handling item \<Rightarrow> {#item#} | _ \<Rightarrow> {#})"

abbreviation ready_workers :: "WorkerPool \<Rightarrow> nat" where
  "ready_workers p \<equiv> sum_list (map is_ready (workers p))"

abbreviation held_items :: "WorkerPool \<Rightarrow> WorkItem multiset" where
  "held_items p \<equiv> sum_list (map held (workers p))"

text \<open>Every accepted item is queued, in the hands of a worker, or answered, exactly once.\<close>

definition work_conserved :: "WorkHandler \<Rightarrow> WorkerPool \<Rightarrow> bool" where
  "work_conserved handler p \<longleftrightarrow>
     (\<exists>taken. accepted p = taken @ items (pool_queue p) \<and>
        image_mset (work_result handler) (mset taken) =
          mset (completed p) + image_mset (work_result handler) (held_items p))"

text \<open>
  No wake-up is lost: while a worker waits there are at least as many ready workers and notifications
  under way as queued items, and if the queue is closed a \<^verbatim>\<open>notify_all\<close> is under way. Workers leave
  only a closed, empty queue.
\<close>

definition wakeups_kept :: "WorkerPool \<Rightarrow> bool" where
  "wakeups_kept p \<longleftrightarrow>
     (Waiting \<in> set (workers p) \<longrightarrow>
        length (items (pool_queue p)) \<le> notifies p + ready_workers p \<and>
        (closed (pool_queue p) \<longrightarrow> 0 < notify_alls p)) \<and>
     (Exited \<in> set (workers p) \<longrightarrow> closed (pool_queue p) \<and> items (pool_queue p) = [])"

definition pool_inv :: "WorkHandler \<Rightarrow> WorkerPool \<Rightarrow> bool" where
  "pool_inv handler p \<longleftrightarrow> work_conserved handler p \<and> wakeups_kept p \<and>
     length (items (pool_queue p)) \<le> capacity (pool_queue p) \<and> workers p \<noteq> []"

lemma held_update: "k < length ws \<Longrightarrow>
   sum_list (map held (ws[k := x])) + held (ws ! k) = sum_list (map held ws) + held x"
  by (rule sum_list_list_update)

lemma ready_update: "k < length ws \<Longrightarrow>
   sum_list (map is_ready (ws[k := x])) + is_ready (ws ! k) = sum_list (map is_ready ws) + is_ready x"
  by (rule sum_list_list_update)

lemma held_wake [simp]: "held (wake x) = held x"
  by (simp add: held_def wake_def split: worker.splits)

lemma TrySubmit_accepts:
  "TrySubmit p item = (True, p') \<longleftrightarrow>
     TryPush (pool_queue p) item = (True, pool_queue p') \<and>
     p' = p\<lparr>pool_queue := pool_queue p', notifies := notifies p + 1, accepted := accepted p @ [item]\<rparr>"
  by (auto simp: TrySubmit_def split: prod.splits bool.splits)

lemma TrySubmit_refuses: "TrySubmit p item = (False, p') \<Longrightarrow> p' = p"
  by (auto simp: TrySubmit_def TryPush_def split: prod.splits bool.splits if_splits)

text \<open>The steps of a worker, case by case.\<close>

lemma worker_step_cases:
  assumes "worker_step handler k p = Some p'"
  obtains (waits) "workers p ! k = Ready" "items (pool_queue p) = []" "\<not> closed (pool_queue p)"
      "p' = p\<lparr>workers := (workers p)[k := Waiting]\<rparr>"
  | (leaves) "workers p ! k = Ready" "items (pool_queue p) = []" "closed (pool_queue p)"
      "p' = p\<lparr>workers := (workers p)[k := Exited]\<rparr>"
  | (takes) item rest where "workers p ! k = Ready" "items (pool_queue p) = item # rest"
      "p' = p\<lparr>pool_queue := (pool_queue p)\<lparr>items := rest\<rparr>, workers := (workers p)[k := Handling item]\<rparr>"
  | (completes) item where "workers p ! k = Handling item"
      "p' = p\<lparr>workers := (workers p)[k := Ready],
              completed := completed p @ [work_result handler item]\<rparr>"
  using assms
  by (cases "items (pool_queue p)")
    (auto simp: worker_step_def Pop_def split: worker.splits if_splits)

lemma conserved_step:
  assumes "pool_step handler a p p'" "work_conserved handler p"
  shows "work_conserved handler p'"
  using assms
proof (cases rule: pool_step.cases)
  case (submit item)
  then have q: "TryPush (pool_queue p) item = (True, pool_queue p')"
    and p': "p' = p\<lparr>pool_queue := pool_queue p', notifies := notifies p + 1, accepted := accepted p @ [item]\<rparr>"
    by (simp_all only: TrySubmit_accepts)
  show ?thesis
    using bq.push_accepts [OF q] assms(2) by (subst p') (auto simp: work_conserved_def)
next
  case (notify_one k)
  with held_update [of k "workers p" Ready] assms(2) show ?thesis
    by (simp add: work_conserved_def held_def)
next
  case (work k)
  from work(3) show ?thesis
  proof (cases rule: worker_step_cases)
    case waits
    with held_update [OF work(2), of Waiting] assms(2) show ?thesis
      by (simp add: work_conserved_def held_def)
  next
    case leaves
    with held_update [OF work(2), of Exited] assms(2) show ?thesis
      by (simp add: work_conserved_def held_def)
  next
    case (takes item rest)
    from assms(2) obtain taken where "accepted p = taken @ item # rest"
      "image_mset (work_result handler) (mset taken) =
        mset (completed p) + image_mset (work_result handler) (held_items p)"
      by (auto simp: work_conserved_def takes(2))
    with takes held_update [OF work(2), of "Handling item"] show ?thesis
      by (auto simp: work_conserved_def held_def intro!: exI [of _ "taken @ [item]"])
  next
    case (completes item)
    have "image_mset (work_result handler) (held_items p) =
        add_mset (work_result handler item) (image_mset (work_result handler)
          (sum_list (map held ((workers p)[k := Ready]))))"
      using completes(1) held_update [OF work(2), of Ready] by (simp add: held_def flip: image_mset_add_mset)
    with assms(2) show ?thesis
      by (auto simp: work_conserved_def completes(2))
  qed
next
  case (spurious k)
  with held_update [of k "workers p" Ready] assms(2) show ?thesis
    by (simp add: work_conserved_def held_def)
qed (auto simp: work_conserved_def StopPool_def Close_def comp_def dest!: TrySubmit_refuses)

lemma in_update: "k < length ws \<Longrightarrow> y \<in> set (ws[k := x]) \<longleftrightarrow> y = x \<or> (\<exists>j < length ws. j \<noteq> k \<and> ws ! j = y)"
  by (auto simp: in_set_conv_nth nth_list_update)

lemma ready_set: "Ready \<in> set ws \<longleftrightarrow> 0 < sum_list (map is_ready ws)"
  by (induction ws) (auto simp: is_ready_def)

lemma no_waiting_after_wake [simp]: "Waiting \<notin> wake ` set ws"
  by (auto simp: wake_def)

lemma exited_wake [simp]: "Exited \<in> wake ` set ws \<longleftrightarrow> Exited \<in> set ws"
  by (auto simp: wake_def image_iff split: if_splits)

lemma wakeups_step:
  assumes "pool_step handler a p p'" "wakeups_kept p"
  shows "wakeups_kept p'"
  using assms
proof (cases rule: pool_step.cases)
  case (submit item)
  then have q: "TryPush (pool_queue p) item = (True, pool_queue p')"
    and p': "p' = p\<lparr>pool_queue := pool_queue p', notifies := notifies p + 1, accepted := accepted p @ [item]\<rparr>"
    by (simp_all only: TrySubmit_accepts)
  show ?thesis
    using bq.push_accepts [OF q] assms(2) by (subst p') (auto simp: wakeups_kept_def)
next
  case (notify_one k)
  then have "Waiting \<in> set (workers p)" by (metis nth_mem)
  with notify_one ready_update [of k "workers p" Ready] assms(2) show ?thesis
    by (auto simp: wakeups_kept_def is_ready_def dest!: set_update_subset_insert [THEN subsetD])
next
  case (work k)
  from work(3) show ?thesis
  proof (cases rule: worker_step_cases)
    case waits
    with assms(2) show ?thesis
      by (auto simp: wakeups_kept_def dest!: set_update_subset_insert [THEN subsetD])
  next
    case leaves
    with assms(2) show ?thesis
      by (auto simp: wakeups_kept_def dest!: set_update_subset_insert [THEN subsetD])
  next
    case (takes item rest)
    with ready_update [OF work(2), of "Handling item"] assms(2) show ?thesis
      by (auto simp: wakeups_kept_def is_ready_def dest!: set_update_subset_insert [THEN subsetD])
  next
    case (completes item)
    with ready_update [OF work(2), of Ready] assms(2) show ?thesis
      by (auto simp: wakeups_kept_def is_ready_def dest!: set_update_subset_insert [THEN subsetD])
  qed
next
  case (spurious k)
  then have "Waiting \<in> set (workers p)" by (metis nth_mem)
  with spurious ready_update [of k "workers p" Ready] assms(2) show ?thesis
    by (auto simp: wakeups_kept_def is_ready_def dest!: set_update_subset_insert [THEN subsetD])
qed (auto simp: wakeups_kept_def StopPool_def Close_def dest!: TrySubmit_refuses)

lemma pool_step_frame:
  assumes "pool_step handler a p p'"
  shows "capacity (pool_queue p') = capacity (pool_queue p)"
    "length (items (pool_queue p)) \<le> capacity (pool_queue p) \<Longrightarrow>
     length (items (pool_queue p')) \<le> capacity (pool_queue p)"
    "length (workers p') = length (workers p)"
    "closed (pool_queue p) \<Longrightarrow> closed (pool_queue p') \<and> accepted p' = accepted p"
  using assms
  by (cases rule: pool_step.cases;
      auto simp: TrySubmit_def TryPush_def StopPool_def Close_def split: if_splits
        elim!: worker_step_cases)+

lemma pool_step_inv [inv_intros]: "pool_step handler a p p' \<Longrightarrow> pool_inv handler p \<Longrightarrow> pool_inv handler p'"
  using conserved_step [of handler a p p'] wakeups_step [of handler a p p'] pool_step_frame [of handler a p p']
  by (auto simp: pool_inv_def)

lemma pool_run_inv: "pool_run handler as p p' \<Longrightarrow> pool_inv handler p \<Longrightarrow> pool_inv handler p'"
  by (induction rule: pool_run.induct) (auto intro: inv_intros)

lemma new_WorkerPool_inv:
  assumes "new_WorkerPool config oc h spawn = Inr p"
  shows "pool_inv handler p" "accepted p = []" "completed p = []"
    "length (workers p) = worker_count config" "capacity (pool_queue p) = queue_capacity config"
    "\<not> closed (pool_queue p)"
proof -
  have zero: "sum_list (replicate n (held Ready)) = {#}" for n
    by (induction n) (auto simp: held_def)
  show "pool_inv handler p" "accepted p = []" "completed p = []"
    "length (workers p) = worker_count config" "capacity (pool_queue p) = queue_capacity config"
    "\<not> closed (pool_queue p)"
    using assms
    by (auto simp: new_WorkerPool_def new_BoundedQueue_def pool_inv_def work_conserved_def zero
        wakeups_kept_def split: if_splits option.splits)
qed

section \<open>Progress\<close>

text \<open>
  The pool's own actions: those that are not calls of the client and not spurious wake-ups. A
  measure bounds them, and the pool can only come to rest when all its work is done.
\<close>

definition own_action :: "pool_action \<Rightarrow> bool" where
  "own_action a \<longleftrightarrow> (case a of Notified \<Rightarrow> True | Worked k \<Rightarrow> True | _ \<Rightarrow> False)"

definition load :: "worker \<Rightarrow> nat" where
  "load x = (case x of Handling item \<Rightarrow> 3 | Ready \<Rightarrow> 1 | _ \<Rightarrow> 0)"

definition pool_measure :: "WorkerPool \<Rightarrow> nat" where
  "pool_measure p = 4 * length (items (pool_queue p)) + sum_list (map load (workers p)) +
     2 * notifies p + (length (workers p) + 1) * notify_alls p"

lemma load_update: "k < length ws \<Longrightarrow>
   sum_list (map load (ws[k := x])) + load (ws ! k) = sum_list (map load ws) + load x"
  by (rule sum_list_list_update)

lemma load_wake: "sum_list (map load (map wake ws)) \<le> sum_list (map load ws) + length ws"
proof (induction ws)
  case (Cons x ws)
  have "load (wake x) \<le> load x + 1"
    by (simp add: load_def wake_def split: worker.splits)
  with Cons show ?case by simp
qed simp

lemma own_action_decreases:
  assumes "pool_step handler a p p'" "own_action a"
  shows "pool_measure p' < pool_measure p"
  using assms
proof (cases rule: pool_step.cases)
  case (notify_one k)
  with load_update [of k "workers p" Ready] show ?thesis
    by (simp add: pool_measure_def load_def)
next
  case notify_all
  with load_wake [of "workers p"] show ?thesis
    by (cases "notify_alls p") (auto simp: pool_measure_def)
next
  case (work k)
  from work(3) show ?thesis
  proof (cases rule: worker_step_cases)
    case waits
    with load_update [OF work(2), of Waiting] show ?thesis
      by (simp add: pool_measure_def load_def)
  next
    case leaves
    with load_update [OF work(2), of Exited] show ?thesis
      by (simp add: pool_measure_def load_def)
  next
    case (takes item rest)
    with load_update [OF work(2), of "Handling item"] show ?thesis
      by (simp add: pool_measure_def load_def)
  next
    case (completes item)
    with load_update [OF work(2), of Ready] show ?thesis
      by (simp add: pool_measure_def load_def)
  qed
qed (auto simp: own_action_def pool_measure_def)

lemma own_run_bounded:
  "pool_run handler as p p' \<Longrightarrow> list_all own_action as \<Longrightarrow> length as + pool_measure p' \<le> pool_measure p"
  by (induction rule: pool_run.induct) (auto dest: own_action_decreases)

definition at_rest :: "WorkHandler \<Rightarrow> WorkerPool \<Rightarrow> bool" where
  "at_rest handler p \<longleftrightarrow> (\<forall>a p'. own_action a \<longrightarrow> \<not> pool_step handler a p p')"

lemma at_rest_workers:
  assumes "at_rest handler p" "k < length (workers p)"
  shows "workers p ! k = Waiting \<or> workers p ! k = Exited"
proof -
  have "own_action (Worked k)" by (simp add: own_action_def)
  with assms(1) have "\<not> pool_step handler (Worked k) p p'" for p'
    by (simp add: at_rest_def)
  with work [OF assms(2)] have "worker_step handler k p = None"
    by (metis not_Some_eq)
  then show ?thesis
    by (cases "workers p ! k") (auto simp: worker_step_def split: option.splits)
qed

lemma at_rest_notified:
  assumes "at_rest handler p"
  shows "notifies p = 0 \<and> notify_alls p = 0"
proof (intro conjI; rule ccontr)
  have no: "\<not> pool_step handler Notified p p'" for p'
    using assms by (simp add: at_rest_def own_action_def)
  show False if "notify_alls p \<noteq> 0"
    using no notify_all [of p handler] that by blast
  show False if "notifies p \<noteq> 0"
    using no notify_one [of p _ handler] notify_none [of p handler] that
    by (metis in_set_conv_nth neq0_conv)
qed

lemma at_rest_done:
  assumes "pool_inv handler p" "at_rest handler p"
  shows "items (pool_queue p) = []" "mset (completed p) = image_mset (work_result handler) (mset (accepted p))"
    "set (workers p) = {if closed (pool_queue p) then Exited else Waiting}"
proof -
  have idle: "set (workers p) \<subseteq> {Waiting, Exited}"
    by (auto simp: in_set_conv_nth dest: at_rest_workers [OF assms(2)])
  have someone: "Waiting \<in> set (workers p) \<or> Exited \<in> set (workers p)"
    using assms(1) idle by (cases "workers p") (auto simp: pool_inv_def)
  have "ready_workers p = 0"
    using idle ready_set [of "workers p"] by auto
  with idle someone assms(1) at_rest_notified [OF assms(2)] show items: "items (pool_queue p) = []"
    and "set (workers p) = {if closed (pool_queue p) then Exited else Waiting}"
    by (auto simp: pool_inv_def wakeups_kept_def)
  have "sum_list (map held ws) = {#}" if "set ws \<subseteq> {Waiting, Exited}" for ws
    using that by (induction ws) (auto simp: held_def)
  from this [OF idle] have "held_items p = {#}" .
  with assms(1) items
  show "mset (completed p) = image_mset (work_result handler) (mset (accepted p))"
    by (auto simp: pool_inv_def work_conserved_def)
qed

lemma at_rest_reached: "\<exists>as p'. pool_run handler as p p' \<and> list_all own_action as \<and> at_rest handler p'"
proof (induction "pool_measure p" arbitrary: p rule: less_induct)
  case less
  show ?case
  proof (cases "at_rest handler p")
    case True
    then show ?thesis by (intro exI [of _ "[]"] exI [of _ p]) (simp add: pool_run.stop)
  next
    case False
    then obtain a p1 where a: "own_action a" "pool_step handler a p p1"
      by (auto simp: at_rest_def)
    from less [OF own_action_decreases [OF a(2,1)]] obtain as p' where
      "pool_run handler as p1 p'" "list_all own_action as" "at_rest handler p'" by blast
    with a show ?thesis
      by (intro exI [of _ "a # as"] exI [of _ p']) (simp add: pool_run.step)
  qed
qed

text \<open>Once the queue is closed, even spurious wake-ups are bounded.\<close>

definition closing_load :: "worker \<Rightarrow> nat" where
  "closing_load x = (case x of Handling item \<Rightarrow> 3 | Waiting \<Rightarrow> 2 | Ready \<Rightarrow> 1 | Exited \<Rightarrow> 0)"

definition closing_measure :: "WorkerPool \<Rightarrow> nat" where
  "closing_measure p = 4 * length (items (pool_queue p)) + sum_list (map closing_load (workers p)) +
     notifies p + notify_alls p"

lemma closing_update: "k < length ws \<Longrightarrow>
   sum_list (map closing_load (ws[k := x])) + closing_load (ws ! k) =
   sum_list (map closing_load ws) + closing_load x"
  by (rule sum_list_list_update)

lemma closing_wake: "sum_list (map closing_load (map wake ws)) \<le> sum_list (map closing_load ws)"
proof (induction ws)
  case (Cons x ws)
  have "closing_load (wake x) \<le> closing_load x"
    by (simp add: closing_load_def wake_def split: worker.splits)
  with Cons show ?case by simp
qed simp

lemma closing_action_decreases:
  assumes "pool_step handler a p p'" "own_action a \<or> a = Spurious" "closed (pool_queue p)"
  shows "closing_measure p' < closing_measure p"
  using assms
proof (cases rule: pool_step.cases)
  case (notify_one k)
  with closing_update [of k "workers p" Ready] show ?thesis
    by (simp add: closing_measure_def closing_load_def)
next
  case notify_all
  with closing_wake [of "workers p"] show ?thesis
    by (auto simp: closing_measure_def)
next
  case (work k)
  from work(3) show ?thesis
  proof (cases rule: worker_step_cases)
    case leaves
    with closing_update [OF work(2), of Exited] show ?thesis
      by (simp add: closing_measure_def closing_load_def)
  next
    case (takes item rest)
    with closing_update [OF work(2), of "Handling item"] show ?thesis
      by (simp add: closing_measure_def closing_load_def)
  next
    case (completes item)
    with closing_update [OF work(2), of Ready] show ?thesis
      by (simp add: closing_measure_def closing_load_def)
  qed (use assms(3) in simp)
next
  case (spurious k)
  with closing_update [of k "workers p" Ready] show ?thesis
    by (simp add: closing_measure_def closing_load_def)
qed (auto simp: own_action_def closing_measure_def)

lemma closed_run:
  assumes "pool_run handler as p p'" "closed (pool_queue p)" "list_all (\<lambda>a. own_action a \<or> a = Spurious) as"
  shows "length as + closing_measure p' \<le> closing_measure p" "closed (pool_queue p')" "accepted p' = accepted p"
  using assms
  by (induction rule: pool_run.induct)
    (fastforce dest: closing_action_decreases pool_step_frame(4))+

section \<open>Histories\<close>

fun submitted :: "pool_action list \<Rightarrow> WorkItem list" where
  "submitted [] = []"
| "submitted (Submitted item # as) = item # submitted as"
| "submitted (_ # as) = submitted as"

lemma accepted_step: "pool_step handler a p p' \<Longrightarrow> accepted p' = accepted p @ submitted [a]"
  by (induction rule: pool_step.induct)
    (auto simp: TrySubmit_def StopPool_def split: prod.splits bool.splits elim!: worker_step_cases)

lemma submitted_Cons: "submitted (a # as) = submitted [a] @ submitted as"
  by (cases a) auto

lemma accepted_run: "pool_run handler as p p' \<Longrightarrow> accepted p' = accepted p @ submitted as"
proof (induction rule: pool_run.induct)
  case (step a p p1 as p')
  then show ?case using accepted_step [OF step(1)] submitted_Cons [of a as] by simp
qed simp

text \<open>With one worker the completions come in the order of submission.\<close>

definition in_order :: "WorkHandler \<Rightarrow> WorkerPool \<Rightarrow> bool" where
  "in_order handler p \<longleftrightarrow>
     (\<exists>x taken. workers p = [x] \<and> accepted p = taken @ items (pool_queue p) \<and>
        map (work_result handler) taken =
          completed p @ (case x of Handling item \<Rightarrow> [work_result handler item] | _ \<Rightarrow> []))"

lemma in_order_step:
  assumes "pool_step handler a p p'" "in_order handler p"
  shows "in_order handler p'"
  using assms
proof (cases rule: pool_step.cases)
  case (submit item)
  then have q: "TryPush (pool_queue p) item = (True, pool_queue p')"
    and p': "p' = p\<lparr>pool_queue := pool_queue p', notifies := notifies p + 1, accepted := accepted p @ [item]\<rparr>"
    by (simp_all only: TrySubmit_accepts)
  show ?thesis
    using bq.push_accepts [OF q] assms(2) by (subst p') (auto simp: in_order_def)
next
  case (work k)
  then have k: "k = 0" using assms(2) by (auto simp: in_order_def)
  from work(3) show ?thesis
  proof (cases rule: worker_step_cases)
    case (takes item rest)
    from assms(2) obtain taken where "workers p = [Ready]" "accepted p = taken @ item # rest"
      "map (work_result handler) taken = completed p"
      using takes k by (auto simp: in_order_def)
    then show ?thesis
      by (auto simp: in_order_def takes(3) k intro!: exI [of _ "taken @ [item]"])
  qed (use assms(2) k in \<open>auto simp: in_order_def\<close>)
qed (use assms(2) in \<open>auto simp: in_order_def StopPool_def Close_def wake_def dest!: TrySubmit_refuses\<close>)

lemma in_order_run: "pool_run handler as p p' \<Longrightarrow> in_order handler p \<Longrightarrow> in_order handler p'"
  by (induction rule: pool_run.induct) (auto intro: in_order_step)

text \<open>A pool with one worker that serves one echo request, for the instances of the properties.\<close>

definition sample_config :: WorkerPoolConfig where
  "sample_config = \<lparr>worker_count = 1, queue_capacity = 2\<rparr>"

definition echo_handler :: WorkHandler where
  "echo_handler m = Inr (HandleOwnedRequest m)"

definition sample_item :: WorkItem where
  "sample_item = \<lparr>wi_connection_id = \<lparr>id_value = 1\<rparr>, wi_sequence = 0, wi_request = sample_message\<rparr>"

definition sample_pool :: "WorkItem list \<Rightarrow> worker \<Rightarrow> nat \<Rightarrow> WorkItem list \<Rightarrow> WorkResult list \<Rightarrow> WorkerPool" where
  "sample_pool its x n acc rs =
     \<lparr>pool_queue = \<lparr>capacity = 2, items = its, closed = False\<rparr>, workers = [x], notifies = n,
      notify_alls = 0, accepted = acc, completed = rs\<rparr>"

lemma new_sample_pool:
  "new_WorkerPool sample_config True (Some echo_handler) (\<lambda>_. None) = Inr (sample_pool [] Ready 0 [] [])"
  by (simp add: new_WorkerPool_def sample_config_def new_BoundedQueue_def sample_pool_def)

lemma run_sample_pool:
  "pool_run echo_handler [Worked 0, Submitted sample_item, Notified, Worked 0, Worked 0]
     (sample_pool [] Ready 0 [] [])
     (sample_pool [] Ready 0 [sample_item] [work_result echo_handler sample_item])"
proof (rule pool_run.step)
  show "pool_step echo_handler (Worked 0) (sample_pool [] Ready 0 [] []) (sample_pool [] Waiting 0 [] [])"
    by (rule work) (simp_all add: worker_step_def sample_pool_def Pop_def)
  have "pool_step echo_handler (Submitted sample_item) (sample_pool [] Waiting 0 [] [])
      (sample_pool [sample_item] Waiting 1 [sample_item] [])"
    by (rule submit) (simp add: TrySubmit_def TryPush_def sample_pool_def)
  moreover have "pool_step echo_handler Notified (sample_pool [sample_item] Waiting 1 [sample_item] [])
      (sample_pool [sample_item] Ready 0 [sample_item] [])"
    using notify_one [of "sample_pool [sample_item] Waiting 1 [sample_item] []" 0 echo_handler]
    by (simp add: sample_pool_def)
  moreover have "pool_step echo_handler (Worked 0) (sample_pool [sample_item] Ready 0 [sample_item] [])
      (sample_pool [] (Handling sample_item) 0 [sample_item] [])"
    by (rule work) (simp_all add: worker_step_def sample_pool_def Pop_def)
  moreover have "pool_step echo_handler (Worked 0) (sample_pool [] (Handling sample_item) 0 [sample_item] [])
      (sample_pool [] Ready 0 [sample_item] [work_result echo_handler sample_item])"
    by (rule work) (simp_all add: worker_step_def sample_pool_def)
  ultimately show "pool_run echo_handler [Submitted sample_item, Notified, Worked 0, Worked 0]
      (sample_pool [] Waiting 0 [] [])
      (sample_pool [] Ready 0 [sample_item] [work_result echo_handler sample_item])"
    by (blast intro: pool_run.intros)
qed

section \<open>Properties\<close>

text \<open>
  C35. Exactly-once processing: under every interleaving of submissions, notifications, worker steps,
  spurious wake-ups and closing, the items are taken in the order they were submitted, and each of
  them is still queued, in the hands of one worker, or was reported exactly once with the
  response of the handler to its own request (the error response if the handler threw), under its
  own connection id and sequence number. The queue never exceeds its capacity.
\<close>

theorem pool_processes_each_item_once:
  assumes "new_WorkerPool config True (Some handler) spawn = Inr p0" "pool_run handler as p0 p"
  shows "\<exists>taken. submitted as = taken @ items (pool_queue p) \<and>
     image_mset (work_result handler) (mset taken) =
       mset (completed p) + image_mset (work_result handler) (held_items p) \<and>
     length (items (pool_queue p)) \<le> queue_capacity config"
proof -
  note new = new_WorkerPool_inv [OF assms(1)]
  from pool_run_inv [OF assms(2)] new(1) have "pool_inv handler p" .
  moreover have "accepted p = submitted as"
    using accepted_run [OF assms(2)] new(2) by simp
  moreover have "capacity (pool_queue p) = capacity (pool_queue p0)"
    using assms(2) by (induction rule: pool_run.induct) (auto dest: pool_step_frame(1))
  ultimately show ?thesis
    using new(5) by (auto simp: pool_inv_def work_conserved_def)
qed

theorem pool_processes_each_item_once_witness:
  "\<exists>taken. submitted [Worked 0, Submitted sample_item, Notified, Worked 0, Worked 0] = taken \<and>
     image_mset (work_result echo_handler) (mset taken) = {#work_result echo_handler sample_item#}"
  using pool_processes_each_item_once [OF new_sample_pool run_sample_pool]
  by (auto simp: sample_pool_def held_def)

text \<open>
  C36. No lost wake-up, no deadlock: from every state the pool can reach, its own actions (without
  further spurious wake-ups) are finitely many, they do reach a state of rest, and at rest every
  submitted item has been reported, exactly once, while all workers wait, or have all left if the
  queue was closed.
\<close>

theorem pool_finishes_its_work:
  assumes "new_WorkerPool config True (Some handler) spawn = Inr p0" "pool_run handler as p0 p"
  shows "(\<forall>bs p'. pool_run handler bs p p' \<and> list_all own_action bs \<longrightarrow> length bs \<le> pool_measure p) \<and>
    (\<exists>bs p'. pool_run handler bs p p' \<and> list_all own_action bs \<and> at_rest handler p') \<and>
    (at_rest handler p \<longrightarrow>
       mset (completed p) = image_mset (work_result handler) (mset (submitted as)) \<and>
       set (workers p) = {if closed (pool_queue p) then Exited else Waiting})"
proof -
  note new = new_WorkerPool_inv [OF assms(1)]
  from pool_run_inv [OF assms(2)] new(1) have inv: "pool_inv handler p" .
  moreover have "accepted p = submitted as"
    using accepted_run [OF assms(2)] new(2) by simp
  ultimately show ?thesis
    using at_rest_done [OF inv] at_rest_reached [of handler p] own_run_bounded [of handler _ p]
    by (metis add_leD1)
qed

theorem pool_finishes_its_work_witness:
  "\<exists>bs p'. pool_run echo_handler bs
       (sample_pool [] Ready 0 [sample_item] [work_result echo_handler sample_item]) p' \<and>
     list_all own_action bs \<and> at_rest echo_handler p'"
  using pool_finishes_its_work [OF new_sample_pool run_sample_pool] by blast

text \<open>
  C37. \<^verbatim>\<open>Stop\<close> returns and loses nothing: once the queue is closed the actions of the pool, spurious
  wake-ups included, are bounded in number, no further item is accepted, and when no worker can
  move every worker has left its loop (the joins return) and everything accepted was reported.
\<close>

theorem stopping_the_pool_drains_it:
  assumes "new_WorkerPool config True (Some handler) spawn = Inr p0" "pool_run handler as p0 p"
    and "pool_run handler bs (StopPool p) p'" "list_all (\<lambda>a. own_action a \<or> a = Spurious) bs"
  shows "length bs \<le> closing_measure (StopPool p) \<and> accepted p' = submitted as \<and>
    (at_rest handler p' \<longrightarrow> set (workers p') = {Exited} \<and>
       mset (completed p') = image_mset (work_result handler) (mset (submitted as)))"
proof -
  note new = new_WorkerPool_inv [OF assms(1)]
  have inv: "pool_inv handler (StopPool p)"
    using pool_step_inv [OF close pool_run_inv [OF assms(2) new(1)]] .
  have sub: "accepted (StopPool p) = submitted as"
    using accepted_run [OF assms(2)] new(2) by (simp add: StopPool_def)
  have cl: "closed (pool_queue (StopPool p))"
    by (simp add: StopPool_def Close_def)
  note run = closed_run [OF assms(3) cl assms(4)]
  from pool_run_inv [OF assms(3) inv] have "pool_inv handler p'" .
  with run sub at_rest_done [OF this] show ?thesis by auto
qed

theorem stopping_the_pool_drains_it_witness:
  "\<exists>p'. pool_run echo_handler [Worked 0]
       (StopPool (sample_pool [] Ready 0 [sample_item] [work_result echo_handler sample_item])) p' \<and>
     workers p' = [Exited] \<and> accepted p' = [sample_item]"
proof -
  let ?p = "StopPool (sample_pool [] Ready 0 [sample_item] [work_result echo_handler sample_item])"
  let ?p' = "?p\<lparr>workers := [Exited]\<rparr>"
  have "pool_step echo_handler (Worked 0) ?p ?p'"
    by (rule work) (simp_all add: worker_step_def sample_pool_def StopPool_def Close_def Pop_def)
  then have run: "pool_run echo_handler [Worked 0] ?p ?p'"
    by (blast intro: pool_run.intros)
  with stopping_the_pool_drains_it [OF new_sample_pool run_sample_pool run] show ?thesis
    by (intro exI [of _ ?p']) (simp add: own_action_def)
qed

text \<open>With a single worker the results are reported in the order of submission.\<close>

theorem single_worker_keeps_order:
  assumes "new_WorkerPool config True (Some handler) spawn = Inr p0" "worker_count config = 1"
    and "pool_run handler as p0 p"
  shows "completed p = map (work_result handler) (take (length (completed p)) (submitted as))"
proof -
  note new = new_WorkerPool_inv [OF assms(1)]
  have "in_order handler p0"
    using assms(1,2) by (auto simp: new_WorkerPool_def new_BoundedQueue_def in_order_def
        split: if_splits option.splits)
  from in_order_run [OF assms(3) this] obtain taken rest where
    "accepted p = taken @ items (pool_queue p)" "map (work_result handler) taken = completed p @ rest"
    by (auto simp: in_order_def)
  moreover have "accepted p = submitted as"
    using accepted_run [OF assms(3)] new(2) by simp
  ultimately show ?thesis
    by (metis (no_types, lifting) append_eq_conv_conj length_map map_append take_all_iff
        take_append take_map linorder_le_cases append_Nil2 diff_is_0_eq take0)
qed

theorem single_worker_keeps_order_witness:
  "worker_count sample_config = 1 \<and>
   completed (sample_pool [] Ready 0 [sample_item] [work_result echo_handler sample_item]) =
     map (work_result echo_handler)
       (take 1 (submitted [Worked 0, Submitted sample_item, Notified, Worked 0, Worked 0]))"
  using single_worker_keeps_order [OF new_sample_pool _ run_sample_pool]
  by (simp add: sample_pool_def sample_config_def)

text \<open>
  The constructor throws exactly for a zero capacity, a zero worker count, a missing callback or
  handler, or a failing thread creation, in this order of precedence.
\<close>

theorem new_pool_errors:
  "new_WorkerPool config has_completion handler spawn =
     (if queue_capacity config = 0
      then Inl (InvalidArgument ''bounded queue capacity must be greater than zero'')
      else if worker_count config = 0
      then Inl (InvalidArgument ''worker count must be greater than zero'')
      else if \<not> has_completion
      then Inl (InvalidArgument ''worker completion callback must be set'')
      else if handler = None then Inl (InvalidArgument ''worker handler must be set'')
      else case find (\<lambda>i. spawn i \<noteq> None) [0..<worker_count config] of
             Some i \<Rightarrow> Inl (the (spawn i))
           | None \<Rightarrow> Inr \<lparr>pool_queue = \<lparr>capacity = queue_capacity config, items = [], closed = False\<rparr>,
               workers = replicate (worker_count config) Ready, notifies = 0, notify_alls = 0,
               accepted = [], completed = []\<rparr>)"
proof -
  have "start_workers spawn i n = map_option (the \<circ> spawn) (find (\<lambda>i. spawn i \<noteq> None) [i..<i + n])" for i n
    by (induction spawn i n rule: start_workers.induct) (auto simp: upt_rec split: option.splits)
  from this [of 0 "worker_count config"] show ?thesis
    by (auto simp: new_WorkerPool_def new_BoundedQueue_def split: option.splits)
qed

end
