(* ===== verification/Echo_Server.thy ===== *)
theory Echo_Server
  imports Effects Connection_Registry Worker_Pool
begin

text \<open>
  The reactor (\<^verbatim>\<open>include/pulsecore/network/epoll_echo_server.hpp\<close>,
  \<^verbatim>\<open>src/network/epoll_echo_server.cpp\<close>): its state and one program per member function, composed
  the way the code composes them. The state is the server object beside the state of the operating
  system. Pointers into the registry and references to flows are lookups by connection id; a
  dangling one would make a program not return, and the invariant theory shows that this never
  happens. Each handler runs as a whole between actions of the workers.
\<close>

section \<open>Constants\<close>

definition kDefaultMaxConnections :: nat where
  [const_defs]: "kDefaultMaxConnections = 1024"

definition kDefaultMaxInFlightRequestsPerConnection :: nat where
  [const_defs]: "kDefaultMaxInFlightRequestsPerConnection = 1024"

definition kListenBacklog :: nat where
  [const_defs]: "kListenBacklog = 128"

definition kListenerKey :: u64 where
  [const_defs]: "kListenerKey = 0"

definition kWorkerWakeupKey :: u64 where
  [const_defs]: "kWorkerWakeupKey = UINT64_MAX"

definition kShutdownSignalKey :: u64 where
  [const_defs]: "kShutdownSignalKey = UINT64_MAX - 1"

definition kEpollWaitTimeoutMs :: nat where
  [const_defs]: "kEpollWaitTimeoutMs = 50"

definition kMaxEpollEvents :: nat where
  [const_defs]: "kMaxEpollEvents = 64"

definition kMaxAcceptsPerEvent :: nat where
  [const_defs]: "kMaxAcceptsPerEvent = 64"

text \<open>The event flags of Linux.\<close>

definition EPOLLIN :: u32 where "EPOLLIN = 0x001"
definition EPOLLOUT :: u32 where "EPOLLOUT = 0x004"
definition EPOLLERR :: u32 where "EPOLLERR = 0x008"
definition EPOLLHUP :: u32 where "EPOLLHUP = 0x010"
definition EPOLLRDHUP :: u32 where "EPOLLRDHUP = 0x2000"

section \<open>State\<close>

record ShutdownSignalMaskState =
  previous_mask :: "int list"
  mask_active :: bool

record EpollEchoServerOptions =
  opt_worker_count :: nat
  opt_work_queue_capacity :: nat
  opt_max_read_bytes_per_event :: nat
  opt_max_write_bytes_per_event :: nat
  opt_max_connections :: nat
  opt_max_in_flight_requests_per_connection :: nat
  opt_connection_limits :: ConnectionLimits
  opt_handler :: "WorkHandler option"
  opt_shutdown_signals :: "int list"

definition default_EpollEchoServerOptions :: EpollEchoServerOptions where
  "default_EpollEchoServerOptions =
     \<lparr>opt_worker_count = 2, opt_work_queue_capacity = 1024,
      opt_max_read_bytes_per_event = kDefaultMaxReadBytesPerEvent,
      opt_max_write_bytes_per_event = kDefaultMaxWriteBytesPerEvent,
      opt_max_connections = kDefaultMaxConnections,
      opt_max_in_flight_requests_per_connection = kDefaultMaxInFlightRequestsPerConnection,
      opt_connection_limits = default_ConnectionLimits,
      opt_handler = Some (\<lambda>m. Inr (HandleOwnedRequest m)),
      opt_shutdown_signals = []\<rparr>"

record ConnectionFlow =
  next_request_sequence :: u64
  next_response_sequence :: u64
  completed_responses :: "u64 \<rightharpoonup> Message"
  close_after_flush :: bool
  registered_with_epoll :: bool

definition new_ConnectionFlow :: ConnectionFlow where
  "new_ConnectionFlow =
     \<lparr>next_request_sequence = 0, next_response_sequence = 0, completed_responses = Map.empty,
      close_after_flush = False, registered_with_epoll = False\<rparr>"

record EpollEchoServer =
  listener :: UniqueFd
  epoll :: UniqueFd
  signal_mask_state :: ShutdownSignalMaskState
  worker_wakeup :: UniqueFd
  shutdown_signal :: UniqueFd
  server_port :: u16
  registry :: ConnectionRegistry
  connection_flows :: "(u64 \<times> ConnectionFlow) list"
  completed_work :: "WorkResult list"
  stop_requested :: bool
  max_read_bytes_per_event :: nat
  max_write_bytes_per_event :: nat
  max_connections :: nat
  max_in_flight_requests_per_connection :: nat
  worker_pool :: WorkerPool

type_synonym ('w, 'a) server_io = "(EpollEchoServer \<times> 'w, 'a) io"

definition live_connection_count :: "EpollEchoServer \<Rightarrow> nat" where
  "live_connection_count sv = registry_size (registry sv)"

section \<open>Access to the state\<close>

definition server :: "(EpollEchoServer \<Rightarrow> 'a) \<Rightarrow> ('w, 'a) server_io" where
  "server f = peek (\<lambda>(sv, w). f sv)"

definition set_server :: "(EpollEchoServer \<Rightarrow> EpollEchoServer) \<Rightarrow> ('w, unit) server_io" where
  "set_server f = modify (\<lambda>(sv, w). (f sv, w))"

definition syscall :: "('w \<Rightarrow> 'a \<times> 'w) \<Rightarrow> ('w, 'a) server_io" where
  "syscall f = on_world (act f)"

definition find_flow :: "ConnectionId \<Rightarrow> EpollEchoServer \<Rightarrow> ConnectionFlow option" where
  "find_flow i sv = map_of (connection_flows sv) (id_value i)"

definition put_flow :: "ConnectionId \<Rightarrow> ConnectionFlow \<Rightarrow> EpollEchoServer \<Rightarrow> EpollEchoServer" where
  "put_flow i fl sv =
     sv\<lparr>connection_flows := AList.update (id_value i) fl (connection_flows sv)\<rparr>"

definition erase_flow :: "ConnectionId \<Rightarrow> EpollEchoServer \<Rightarrow> EpollEchoServer" where
  "erase_flow i sv = sv\<lparr>connection_flows := AList.delete (id_value i) (connection_flows sv)\<rparr>"

text \<open>Following the pointer to a connection, or the reference to a flow.\<close>

definition deref :: "'a option \<Rightarrow> ('s, 'a) io" where
  "deref x = (case x of None \<Rightarrow> (\<lambda>s. None) | Some a \<Rightarrow> ret a)"

definition connection_at :: "ConnectionId \<Rightarrow> ('w, Connection) server_io" where
  "connection_at i = andthen (server (\<lambda>sv. Find (registry sv) i)) deref"

definition flow_at :: "ConnectionId \<Rightarrow> ('w, ConnectionFlow) server_io" where
  "flow_at i = andthen (server (find_flow i)) deref"

definition set_flow :: "ConnectionId \<Rightarrow> (ConnectionFlow \<Rightarrow> ConnectionFlow) \<Rightarrow> ('w, unit) server_io" where
  "set_flow i f = andthen (flow_at i) (\<lambda>fl. set_server (put_flow i (f fl)))"

text \<open>A member function of the connection with id \<open>i\<close>.\<close>

definition on_connection ::
  "ConnectionId \<Rightarrow> (Connection \<Rightarrow> 'w \<Rightarrow> ('a, 'w) conn_outcome option) \<Rightarrow> ('w, 'a) server_io" where
  "on_connection i f = (\<lambda>(sv, w).
     case Find (registry sv) i of
       None \<Rightarrow> None
     | Some c \<Rightarrow>
         (case f c w of
            None \<Rightarrow> None
          | Some (r, c', w') \<Rightarrow> Some (r, (sv\<lparr>registry := Store i c' (registry sv)\<rparr>, w'))))"

definition close_fd :: "'w sys \<Rightarrow> UniqueFd \<Rightarrow> ('w, unit) server_io" where
  "close_fd K fd = syscall (\<lambda>w. ((), close_all K (destroy fd) w))"

definition remove_from_registry :: "'w sys \<Rightarrow> ConnectionId \<Rightarrow> ('w, bool) server_io" where
  "remove_from_registry K i = act (\<lambda>(sv, w).
     case Remove K i (registry sv) w of (b, r, w') \<Rightarrow> (b, (sv\<lparr>registry := r\<rparr>, w')))"

definition add_to_registry :: "'w sys \<Rightarrow> UniqueFd \<Rightarrow> ('w, ConnectionId) server_io" where
  "add_to_registry K fd = (\<lambda>(sv, w).
     case Add K fd (registry sv) w of (a, r, w') \<Rightarrow> Some (a, (sv\<lparr>registry := r\<rparr>, w')))"

section \<open>Events\<close>

definition EpollCtl ::
  "'w sys \<Rightarrow> int \<Rightarrow> epoll_op \<Rightarrow> int \<Rightarrow> epoll_event option \<Rightarrow> string \<Rightarrow> ('w, unit) server_io" where
  "EpollCtl K epoll_fd op fd event operation_name =
     andthen (syscall (sys_epoll_ctl K epoll_fd op fd event)) (\<lambda>r.
       case r of Inl e \<Rightarrow> throw (SyscallError operation_name e) | Inr _ \<Rightarrow> ret ())"

definition ListenerEvent :: epoll_event where
  "ListenerEvent = \<lparr>ev_events = EPOLLIN, ev_data = kListenerKey\<rparr>"

definition WorkerWakeupEvent :: epoll_event where
  "WorkerWakeupEvent = \<lparr>ev_events = EPOLLIN, ev_data = kWorkerWakeupKey\<rparr>"

definition ShutdownSignalEvent :: epoll_event where
  "ShutdownSignalEvent = \<lparr>ev_events = EPOLLIN, ev_data = kShutdownSignalKey\<rparr>"

definition ConnectionEvent :: "ConnectionId \<Rightarrow> bool \<Rightarrow> bool \<Rightarrow> epoll_event" where
  "ConnectionEvent i wants_read wants_write =
     \<lparr>ev_events = (if wants_read then EPOLLIN OR EPOLLRDHUP else 0) OR
                  (if wants_write then EPOLLOUT else 0),
      ev_data = id_value i\<rparr>"

text \<open>\<^verbatim>\<open>AcceptNonBlocking\<close>: the invalid descriptor means that no connection is waiting.\<close>

definition AcceptNonBlocking :: "'w sys \<Rightarrow> int \<Rightarrow> ('w, UniqueFd) server_io" where
  "AcceptNonBlocking K listener_fd =
     loop (\<lambda>_.
       andthen (syscall (sys_accept K listener_fd AcceptNonblockCloexec)) (\<lambda>r.
         case r of
           Inr fd \<Rightarrow> ret (Inr (new_UniqueFd fd))
         | Inl e \<Rightarrow>
             if e = EINTR then ret (Inl ())
             else if IsWouldBlock e then ret (Inr default_UniqueFd)
             else throw (SyscallError ''accept4'' e))) ()"

section \<open>Removing connections and epoll interest\<close>

definition RemoveConnection :: "'w sys \<Rightarrow> ConnectionId \<Rightarrow> ('w, unit) server_io" where
  "RemoveConnection K i =
     andthen (server (\<lambda>sv. Find (registry sv) i)) (\<lambda>connection.
       case connection of
         None \<Rightarrow> ret ()
       | Some c \<Rightarrow>
           andthen (server (\<lambda>sv. case find_flow i sv of None \<Rightarrow> True | Some fl \<Rightarrow> registered_with_epoll fl))
             (\<lambda>registered.
               seq (unless (\<not> registered)
                     (andthen (server (\<lambda>sv. get (epoll sv))) (\<lambda>ep.
                        andthen (syscall (sys_epoll_ctl K ep EPOLL_CTL_DEL (get (conn_fd c)) None)) (\<lambda>r.
                          case r of
                            Inl e \<Rightarrow> unless (e = ENOENT)
                                       (throw (SyscallError ''epoll_ctl(DEL connection)'' e))
                          | Inr _ \<Rightarrow> ret ()))))
                 (seq (set_server (erase_flow i))
                    (andthen (remove_from_registry K i) (\<lambda>removed. ret ())))))"

definition ShouldCloseAfterFlush :: "Connection \<Rightarrow> ConnectionFlow \<Rightarrow> bool" where
  "ShouldCloseAfterFlush c fl \<longleftrightarrow>
     close_after_flush fl \<and> \<not> has_pending_output c \<and>
     next_response_sequence fl \<ge> next_request_sequence fl"

definition UpdateInterest :: "'w sys \<Rightarrow> ConnectionId \<Rightarrow> ('w, unit) server_io" where
  "UpdateInterest K i =
     andthen (connection_at i) (\<lambda>c.
     andthen (flow_at i) (\<lambda>fl.
     andthen (server (\<lambda>sv. get (epoll sv))) (\<lambda>ep.
       let wants_read = \<not> close_after_flush fl;
           wants_write = has_pending_output c
       in
       if \<not> wants_read \<and> \<not> wants_write then
         unless (\<not> registered_with_epoll fl)
           (seq (andthen (syscall (sys_epoll_ctl K ep EPOLL_CTL_DEL (get (conn_fd c)) None)) (\<lambda>r.
                   case r of
                     Inl e \<Rightarrow> unless (e = ENOENT)
                                (throw (SyscallError ''epoll_ctl(DEL idle connection)'' e))
                   | Inr _ \<Rightarrow> ret ()))
              (set_flow i (\<lambda>fl. fl\<lparr>registered_with_epoll := False\<rparr>)))
       else
         let event = ConnectionEvent (conn_id c) wants_read wants_write in
         if registered_with_epoll fl
         then EpollCtl K ep EPOLL_CTL_MOD (get (conn_fd c)) (Some event) ''epoll_ctl(MOD connection)''
         else seq (EpollCtl K ep EPOLL_CTL_ADD (get (conn_fd c)) (Some event) ''epoll_ctl(ADD connection)'')
                (set_flow i (\<lambda>fl. fl\<lparr>registered_with_epoll := True\<rparr>)))))"

definition CloseAllConnections :: "'w sys \<Rightarrow> ('w, unit) server_io" where
  "CloseAllConnections K =
     loop (\<lambda>_. andthen (server connection_flows) (\<lambda>flows.
       case flows of
         [] \<Rightarrow> ret (Inr ())
       | (k, fl) # rest \<Rightarrow> seq (RemoveConnection K \<lparr>id_value = k\<rparr>) (ret (Inl ())))) ()"

section \<open>Requests and responses\<close>

fun SubmitWork :: "ConnectionId \<Rightarrow> Message list \<Rightarrow> ('w, bool) server_io" where
  "SubmitWork i [] = andthen (server (find_flow i)) (\<lambda>flow. ret (flow \<noteq> None))"
| "SubmitWork i (message # messages) =
     andthen (server (find_flow i)) (\<lambda>flow.
       case flow of
         None \<Rightarrow> ret False
       | Some fl \<Rightarrow>
           andthen (server max_in_flight_requests_per_connection) (\<lambda>limit.
             let in_flight = next_request_sequence fl - next_response_sequence fl in
             if unat in_flight \<ge> limit then ret False
             else
               let item = \<lparr>wi_connection_id = i, wi_sequence = next_request_sequence fl,
                           wi_request = message\<rparr>
               in
               andthen (act (\<lambda>(sv, w). case TrySubmit (worker_pool sv) item of
                                (ok, p) \<Rightarrow> (ok, (sv\<lparr>worker_pool := p\<rparr>, w)))) (\<lambda>ok.
                 if \<not> ok then ret False
                 else seq (set_flow i (\<lambda>fl. fl\<lparr>next_request_sequence := next_request_sequence fl + 1\<rparr>))
                        (SubmitWork i messages))))"

text \<open>The loop of \<^verbatim>\<open>FlushReadyResponses\<close>; \<open>False\<close> means that the connection was removed.\<close>

definition flush_loop :: "'w sys \<Rightarrow> ConnectionId \<Rightarrow> ('w, bool) server_io" where
  "flush_loop K i =
     loop (\<lambda>_. andthen (flow_at i) (\<lambda>fl.
       case completed_responses fl (next_response_sequence fl) of
         None \<Rightarrow> ret (Inr True)
       | Some response \<Rightarrow>
           andthen (on_connection i (\<lambda>c w. case QueueOutput c response of (ok, c') \<Rightarrow> Some (Inr ok, c', w)))
             (\<lambda>queued.
               if \<not> queued then seq (RemoveConnection K i) (ret (Inr False))
               else seq (set_flow i (\<lambda>fl. fl\<lparr>
                        next_response_sequence := next_response_sequence fl + 1,
                        completed_responses :=
                          (completed_responses fl)(next_response_sequence fl := None)\<rparr>))
                      (ret (Inl ()))))) ()"

definition FlushReadyResponses :: "'w sys \<Rightarrow> ConnectionId \<Rightarrow> ('w, bool) server_io" where
  "FlushReadyResponses K i =
     andthen (flush_loop K i) (\<lambda>alive.
       if \<not> alive then ret False
       else
         andthen (connection_at i) (\<lambda>c.
         andthen (flow_at i) (\<lambda>fl.
           if ShouldCloseAfterFlush c fl then seq (RemoveConnection K i) (ret False)
           else seq (UpdateInterest K i) (ret True))))"

text \<open>\<^verbatim>\<open>std::map::emplace\<close> does nothing when the key is present.\<close>

definition emplace :: "'k \<Rightarrow> 'v \<Rightarrow> ('k \<rightharpoonup> 'v) \<Rightarrow> ('k \<rightharpoonup> 'v)" where
  "emplace k v t = (if t k = None then t(k \<mapsto> v) else t)"

definition HandleCompletedWork :: "'w sys \<Rightarrow> WorkResult \<Rightarrow> ('w, unit) server_io" where
  "HandleCompletedWork K result =
     (let i = wr_connection_id result in
      andthen (server (\<lambda>sv. Find (registry sv) i)) (\<lambda>connection.
        if connection = None then ret ()
        else
          andthen (server (find_flow i)) (\<lambda>flow.
            if flow = None then ret ()
            else
              seq (set_flow i (\<lambda>fl. fl\<lparr>completed_responses :=
                     emplace (wr_sequence result) (wr_response result) (completed_responses fl)\<rparr>))
                (andthen (FlushReadyResponses K i) (\<lambda>alive. ret ())))))"

section \<open>Event handlers\<close>

text \<open>What \<^verbatim>\<open>HandleListenerEvent\<close> does with one accepted descriptor below the connection limit.\<close>

definition register_connection :: "'w sys \<Rightarrow> UniqueFd \<Rightarrow> ('w, unit) server_io" where
  "register_connection K client =
     andthen (add_to_registry K client) (\<lambda>i.
     andthen (server (\<lambda>sv. Find (registry sv) i)) (\<lambda>connection.
       case connection of
         None \<Rightarrow> throw (RuntimeError ''registered connection cannot be found'')
       | Some c \<Rightarrow>
           andthen (server (find_flow i)) (\<lambda>flow.
             if flow \<noteq> None then throw (RuntimeError ''connection flow already exists'')
             else
               seq (set_server (put_flow i new_ConnectionFlow))
                 (andthen (server (\<lambda>sv. get (epoll sv))) (\<lambda>ep.
                    catch
                      (seq (EpollCtl K ep EPOLL_CTL_ADD (get (conn_fd c))
                              (Some (ConnectionEvent i True (has_pending_output c)))
                              ''epoll_ctl(ADD connection)'')
                         (set_flow i (\<lambda>fl. fl\<lparr>registered_with_epoll := True\<rparr>)))
                      (\<lambda>e. seq (set_server (erase_flow i))
                             (andthen (remove_from_registry K i) (\<lambda>removed. throw e))))))))"

fun accept_connections :: "'w sys \<Rightarrow> nat \<Rightarrow> ('w, unit) server_io" where
  "accept_connections K 0 = ret ()"
| "accept_connections K (Suc n) =
     andthen (server (\<lambda>sv. get (listener sv))) (\<lambda>listener_fd.
     andthen (AcceptNonBlocking K listener_fd) (\<lambda>client.
       if \<not> is_valid client then ret ()
       else
         andthen (server (\<lambda>sv. registry_size (registry sv) \<ge> max_connections sv)) (\<lambda>full.
           seq (if full then close_fd K client else register_connection K client)
             (accept_connections K n))))"

definition HandleListenerEvent :: "'w sys \<Rightarrow> ('w, unit) server_io" where
  "HandleListenerEvent K = accept_connections K kMaxAcceptsPerEvent"

text \<open>
  \<^verbatim>\<open>HandleConnectionEvent\<close>: reading and submitting, then writing, each with its verdict on whether
  the connection is to be removed.
\<close>

definition read_and_submit :: "'w sys \<Rightarrow> ConnectionId \<Rightarrow> ('w, bool) server_io" where
  "read_and_submit K i =
     andthen (server max_read_bytes_per_event) (\<lambda>budget.
     andthen (on_connection i (\<lambda>c. ReadAvailable K c budget)) (\<lambda>read.
     andthen (SubmitWork i (ra_messages read)) (\<lambda>submitted.
       if ra_status read = kReadProtocolError then ret True
       else if ra_status read = kReadPeerClosed
       then seq (set_flow i (\<lambda>fl. fl\<lparr>close_after_flush := True\<rparr>)) (ret (\<not> submitted))
       else ret (\<not> submitted))))"

definition write_pending :: "'w sys \<Rightarrow> ConnectionId \<Rightarrow> ('w, bool) server_io" where
  "write_pending K i =
     andthen (server max_write_bytes_per_event) (\<lambda>budget.
     andthen (on_connection i (\<lambda>c. WriteAvailable K c budget)) (\<lambda>write.
       ret (wa_status write = kWritePeerClosed)))"

definition HandleConnectionEvent :: "'w sys \<Rightarrow> ConnectionId \<Rightarrow> u32 \<Rightarrow> ('w, unit) server_io" where
  "HandleConnectionEvent K i events =
     andthen (server (\<lambda>sv. Find (registry sv) i)) (\<lambda>connection.
       if connection = None then ret ()
       else
         andthen (server (find_flow i)) (\<lambda>flow.
           case flow of
             None \<Rightarrow> RemoveConnection K i
           | Some fl \<Rightarrow>
               let broken = (events AND EPOLLERR \<noteq> 0) in
               andthen
                 (if \<not> broken \<and> events AND (EPOLLIN OR EPOLLRDHUP OR EPOLLHUP) \<noteq> 0 \<and>
                     \<not> close_after_flush fl
                  then read_and_submit K i else ret broken) (\<lambda>should_remove.
               andthen
                 (if \<not> should_remove \<and> events AND EPOLLOUT \<noteq> 0
                  then write_pending K i else ret should_remove) (\<lambda>should_remove.
                 if should_remove then RemoveConnection K i
                 else
                   andthen (connection_at i) (\<lambda>c.
                   andthen (flow_at i) (\<lambda>fl.
                     if ShouldCloseAfterFlush c fl then RemoveConnection K i
                     else UpdateInterest K i))))))"

text \<open>
  Draining a wake-up descriptor whose entries have \<open>entry_size\<close> bytes; \<open>on_entry\<close> is done for each entry
  that was read.
\<close>

definition drain_fd ::
  "'w sys \<Rightarrow> UniqueFd \<Rightarrow> nat \<Rightarrow> string \<Rightarrow> ('w, unit) server_io \<Rightarrow> ('w, unit) server_io" where
  "drain_fd K fd entry_size name on_entry =
     loop (\<lambda>_. andthen (syscall (sys_read K (get fd) entry_size)) (\<lambda>r.
       case r of
         Inr n \<Rightarrow>
           if n = entry_size then seq on_entry (ret (Inl ()))
           else if n \<noteq> 0 then throw (RuntimeError (name @ '': short read''))
           else ret (Inr ())
       | Inl e \<Rightarrow>
           if e = EINTR then ret (Inl ())
           else if IsWouldBlock e then ret (Inr ())
           else throw (SyscallError name e))) ()"

definition HandleWorkerWakeup :: "'w sys \<Rightarrow> ('w, unit) server_io" where
  "HandleWorkerWakeup K =
     andthen (server worker_wakeup) (\<lambda>fd.
       seq (drain_fd K fd 8 ''read(eventfd)'' (ret ()))
         (andthen (server completed_work) (\<lambda>completed.
            seq (set_server (\<lambda>sv. sv\<lparr>completed_work := []\<rparr>))
              (for_each (HandleCompletedWork K) completed))))"

definition HandleShutdownSignal :: "'w sys \<Rightarrow> ('w, unit) server_io" where
  "HandleShutdownSignal K =
     andthen (server shutdown_signal) (\<lambda>fd.
       drain_fd K fd 128 ''read(signalfd)'' (set_server (\<lambda>sv. sv\<lparr>stop_requested := True\<rparr>)))"

section \<open>Wake-ups, stopping and the event loop\<close>

definition NotifyWorkerWakeup :: "'w sys \<Rightarrow> ('w, unit) server_io" where
  "NotifyWorkerWakeup K =
     andthen (server worker_wakeup) (\<lambda>fd.
       if \<not> is_valid fd then ret ()
       else
         loop (\<lambda>_. andthen (syscall (sys_write_u64 K (get fd) 1)) (\<lambda>r.
           ret (if r = Inl EINTR then Inl () else Inr ()))) ())"

definition StoreCompletedWork :: "'w sys \<Rightarrow> WorkResult \<Rightarrow> ('w, unit) server_io" where
  "StoreCompletedWork K result =
     seq (set_server (\<lambda>sv. sv\<lparr>completed_work := completed_work sv @ [result]\<rparr>))
       (NotifyWorkerWakeup K)"

definition Stop :: "'w sys \<Rightarrow> ('w, unit) server_io" where
  "Stop K = seq (set_server (\<lambda>sv. sv\<lparr>stop_requested := True\<rparr>)) (NotifyWorkerWakeup K)"

definition dispatch :: "'w sys \<Rightarrow> epoll_event \<Rightarrow> ('w, unit) server_io" where
  "dispatch K event =
     (let key = ev_data event in
      if key = kListenerKey then HandleListenerEvent K
      else if key = kWorkerWakeupKey then HandleWorkerWakeup K
      else if key = kShutdownSignalKey then HandleShutdownSignal K
      else HandleConnectionEvent K \<lparr>id_value = key\<rparr> (ev_events event))"

text \<open>The events of one \<^verbatim>\<open>epoll_wait\<close>, until a stop is requested.\<close>

primrec handle_events :: "'w sys \<Rightarrow> epoll_event list \<Rightarrow> ('w, unit) server_io" where
  "handle_events K [] = ret ()"
| "handle_events K (event # events) =
     andthen (server stop_requested) (\<lambda>stop.
       if stop then ret () else seq (dispatch K event) (handle_events K events))"

text \<open>
  \<^verbatim>\<open>Run\<close>. While the reactor waits in \<^verbatim>\<open>epoll_wait\<close> the other threads act: workers complete items and
  another thread may call \<^verbatim>\<open>Stop\<close>. Their activity is the parameter \<open>others\<close>, which runs before each
  test of the loop condition.
\<close>

definition Run :: "'w sys \<Rightarrow> (EpollEchoServer \<times> 'w \<Rightarrow> EpollEchoServer \<times> 'w) \<Rightarrow> ('w, unit) server_io" where
  "Run K others =
     seq (loop (\<lambda>_.
            seq (modify others)
              (andthen (server stop_requested) (\<lambda>stop.
                 if stop then ret (Inr ())
                 else
                   andthen (server (\<lambda>sv. get (epoll sv))) (\<lambda>ep.
                   andthen (syscall (sys_epoll_wait K ep kMaxEpollEvents kEpollWaitTimeoutMs)) (\<lambda>r.
                     case r of
                       Inl e \<Rightarrow>
                         if e = EINTR then ret (Inl ()) else throw (SyscallError ''epoll_wait'' e)
                     | Inr events \<Rightarrow> seq (handle_events K events) (ret (Inl ()))))))) ())
       (CloseAllConnections K)"

end
