(* ===== verification/Session.thy ===== *)
theory Session
  imports Echo_Server
begin

text \<open>
  The bookkeeping of one connection's requests, free of system calls: how the two sequence counters,
  the table of early responses and the results outstanding at the workers relate to the list of the
  connection's accepted requests. Sequence numbers are 64-bit words that wrap around; the relation is
  stated with the unbounded position of the next response, so it also holds after a wrap, because
  fewer than 2 to the 64 requests are in flight.
\<close>

section \<open>Histories\<close>

definition items_of :: "ConnectionId \<Rightarrow> WorkItem list \<Rightarrow> WorkItem list" where
  "items_of i its = filter (\<lambda>it. wi_connection_id it = i) its"

definition answer :: "WorkHandler \<Rightarrow> WorkItem \<Rightarrow> Message" where
  "answer h it = wr_response (work_result h it)"

text \<open>Results that have not been handed to their connection: on their way, or not yet computed.\<close>

definition outstanding :: "WorkHandler \<Rightarrow> WorkerPool \<Rightarrow> WorkResult list \<Rightarrow> WorkResult multiset" where
  "outstanding h p todo =
     mset todo + image_mset (work_result h) (mset (items (pool_queue p)) + held_items p)"

definition results_for :: "ConnectionId \<Rightarrow> WorkResult multiset \<Rightarrow> WorkResult multiset" where
  "results_for i R = filter_mset (\<lambda>r. wr_connection_id r = i) R"

lemma work_result_simps [simp]:
  "wr_connection_id (work_result h it) = wi_connection_id it"
  "wr_sequence (work_result h it) = wi_sequence it"
  "wr_response (work_result h it) = answer h it"
  by (simp_all add: work_result_def answer_def Let_def)

lemma items_of_append [simp]: "items_of i (xs @ ys) = items_of i xs @ items_of i ys"
  by (simp add: items_of_def)

lemma items_of_single [simp]:
  "items_of i [it] = (if wi_connection_id it = i then [it] else [])"
  by (simp add: items_of_def)

section \<open>A flow and its history\<close>

definition flow_tracks ::
  "WorkHandler \<Rightarrow> nat \<Rightarrow> WorkItem list \<Rightarrow> WorkResult multiset \<Rightarrow> nat \<Rightarrow> ConnectionFlow \<Rightarrow> bool" where
  "flow_tracks h mx its R n fl \<longleftrightarrow>
     next_request_sequence fl = of_nat (length its) \<and> next_response_sequence fl = of_nat n \<and>
     n \<le> length its \<and> length its - n \<le> mx \<and>
     (\<forall>k < length its. wi_sequence (its ! k) = of_nat k) \<and>
     (\<forall>s m. completed_responses fl s = Some m \<longrightarrow>
        (\<exists>k. n \<le> k \<and> k < length its \<and> s = of_nat k \<and> m = answer h (its ! k))) \<and>
     R = image_mset (work_result h)
           (mset (filter (\<lambda>it. completed_responses fl (wi_sequence it) = None) (drop n its)))"

lemma tracksD:
  assumes "flow_tracks h mx its R n fl"
  shows "next_request_sequence fl = of_nat (length its)" "next_response_sequence fl = of_nat n"
    "n \<le> length its" "length its - n \<le> mx" "k < length its \<Longrightarrow> wi_sequence (its ! k) = of_nat k"
    "completed_responses fl s = Some m \<Longrightarrow>
       \<exists>k. n \<le> k \<and> k < length its \<and> s = of_nat k \<and> m = answer h (its ! k)"
    "R = image_mset (work_result h)
       (mset (filter (\<lambda>it. completed_responses fl (wi_sequence it) = None) (drop n its)))"
  using assms unfolding flow_tracks_def by blast+

lemma of_nat_window:
  assumes "n \<le> k" "n \<le> l" "k - n \<le> SIZE_MAX" "l - n \<le> SIZE_MAX"
  shows "(of_nat k :: u64) = of_nat l \<longleftrightarrow> k = l"
proof
  assume "(of_nat k :: u64) = of_nat l"
  then have "(of_nat k - of_nat n :: u64) = of_nat l - of_nat n"
    by simp
  then have "(of_nat (k - n) :: u64) = of_nat (l - n)"
    using assms(1,2) by (simp only: of_nat_diff)
  then have "unat (of_nat (k - n) :: u64) = unat (of_nat (l - n) :: u64)"
    by (rule arg_cong)
  then have "k - n = l - n"
    by (simp only: unat_of_size assms(3,4))
  with assms(1,2) show "k = l" by simp
qed simp

lemma in_flight_count:
  assumes "flow_tracks h mx its R n fl" "mx \<le> SIZE_MAX"
  shows "unat (next_request_sequence fl - next_response_sequence fl) = length its - n"
proof -
  note t = tracksD [OF assms(1)]
  have "next_request_sequence fl - next_response_sequence fl = of_nat (length its - n)"
    using t(3) by (simp only: t(1,2) of_nat_diff)
  moreover have "length its - n \<le> SIZE_MAX"
    using t(4) assms(2) by simp
  ultimately show ?thesis by (simp add: unat_of_size)
qed

lemma tracks_new: "flow_tracks h mx [] {#} 0 new_ConnectionFlow"
  by (simp add: flow_tracks_def new_ConnectionFlow_def)

lemma tracks_response:
  assumes "flow_tracks h mx its R n fl" "completed_responses fl s = Some m"
  obtains k where "n \<le> k" "k < length its" "s = of_nat k" "m = answer h (its ! k)"
  using tracksD(6) [OF assms] that by blast

text \<open>A request is submitted: the history grows and its result becomes outstanding.\<close>

lemma tracks_submit:
  assumes t: "flow_tracks h mx its R n fl" and room: "length its - n < mx" "mx \<le> SIZE_MAX"
    and item: "wi_sequence item = next_request_sequence fl"
  shows "flow_tracks h mx (its @ [item]) (add_mset (work_result h item) R) n
    (fl\<lparr>next_request_sequence := next_request_sequence fl + 1\<rparr>)"
proof -
  note t' = tracksD [OF t]
  have seq: "wi_sequence item = of_nat (length its)"
    using item t'(1) by simp
  have none: "completed_responses fl (of_nat (length its)) = None"
  proof (rule ccontr)
    assume "completed_responses fl (of_nat (length its)) \<noteq> None"
    then obtain m where "completed_responses fl (of_nat (length its)) = Some m" by blast
    with t obtain k where k: "n \<le> k" "k < length its" "(of_nat (length its) :: u64) = of_nat k"
      by (rule tracks_response)
    moreover have "length its - n \<le> SIZE_MAX" using room by simp
    ultimately show False using of_nat_window [of n "length its" k] t'(3) by simp
  qed
  have "\<forall>s m. completed_responses fl s = Some m \<longrightarrow>
      (\<exists>k. n \<le> k \<and> k < length (its @ [item]) \<and> s = of_nat k \<and> m = answer h ((its @ [item]) ! k))"
    using t'(6) by (fastforce simp: nth_append)
  moreover have "\<forall>k < length (its @ [item]). wi_sequence ((its @ [item]) ! k) = of_nat k"
    using t'(5) seq by (auto simp: nth_append less_Suc_eq)
  moreover have "filter (\<lambda>it. completed_responses fl (wi_sequence it) = None) (drop n (its @ [item])) =
      filter (\<lambda>it. completed_responses fl (wi_sequence it) = None) (drop n its) @ [item]"
    using t'(3) seq none by simp
  ultimately show ?thesis
    using t'(1,2,3,7) room(1) unfolding flow_tracks_def by (simp add: add.commute Suc_diff_le)
qed

text \<open>A result arrives: it answers one of the requests in flight, which was not answered before.\<close>

lemma window_seq_inj:
  assumes "flow_tracks h mx its R n fl" "mx \<le> SIZE_MAX" "n \<le> k" "k < length its" "n \<le> l" "l < length its"
  shows "wi_sequence (its ! k) = wi_sequence (its ! l) \<longleftrightarrow> k = l"
  using assms(2-) tracksD(4) [OF assms(1)] of_nat_window [of n k l] tracksD(5) [OF assms(1)]
  by simp

lemma distinct_window:
  assumes "flow_tracks h mx its R n fl" "mx \<le> SIZE_MAX"
  shows "distinct (map wi_sequence (drop n its))"
  unfolding distinct_conv_nth
  using window_seq_inj [OF assms] by (auto simp: less_diff_conv add.commute)

lemma filter_unanswered:
  assumes "distinct (map g xs)" "x \<in> set xs" "t (g x) = None"
  shows "mset (filter (\<lambda>y. t (g y) = None) xs) =
         add_mset x (mset (filter (\<lambda>y. (t(g x \<mapsto> m)) (g y) = None) xs))"
  using assms
proof (induction xs)
  case (Cons y ys)
  have other: "filter (\<lambda>z. (t(g y \<mapsto> m)) (g z) = None) ys = filter (\<lambda>z. t (g z) = None) ys"
    using Cons.prems(1) by (intro filter_cong) (auto, metis imageI)
  show ?case
  proof (cases "x = y")
    case True
    with Cons.prems other show ?thesis by simp
  next
    case False
    with Cons.prems have "g y \<noteq> g x" by (auto simp: rev_image_eqI)
    with Cons False show ?thesis by simp
  qed
qed simp

lemma tracks_result:
  assumes t: "flow_tracks h mx its (add_mset r R) n fl" and mx: "mx \<le> SIZE_MAX"
  shows "flow_tracks h mx its R n
    (fl\<lparr>completed_responses := emplace (wr_sequence r) (wr_response r) (completed_responses fl)\<rparr>)"
proof -
  let ?open = "\<lambda>it. completed_responses fl (wi_sequence it) = None"
  have "r \<in># image_mset (work_result h) (mset (filter ?open (drop n its)))"
    using t unfolding flow_tracks_def by (metis union_single_eq_member)
  then obtain it where it: "it \<in> set (drop n its)" "?open it" "r = work_result h it"
    by auto
  then obtain k where k: "n \<le> k" "k < length its" "it = its ! k"
    by (auto simp: in_set_conv_nth less_diff_conv) (metis add.commute le_add1)
  let ?t = "(completed_responses fl)(wi_sequence it \<mapsto> answer h it)"
  have "mset (filter ?open (drop n its)) =
      add_mset it (mset (filter (\<lambda>it. ?t (wi_sequence it) = None) (drop n its)))"
    using distinct_window [OF t mx] it(1,2) by (rule filter_unanswered)
  then have "R = image_mset (work_result h) (mset (filter (\<lambda>it. ?t (wi_sequence it) = None) (drop n its)))"
    using tracksD(7) [OF t] it(3) by simp
  moreover have "emplace (wr_sequence r) (wr_response r) (completed_responses fl) = ?t"
    using it(2,3) by (simp add: emplace_def)
  moreover have "wi_sequence it = of_nat k"
    using tracksD(5) [OF t] k by simp
  ultimately show ?thesis
    using tracksD [OF t] k unfolding flow_tracks_def by (auto split: if_splits)
qed

text \<open>The next response is queued: the position moves on.\<close>

lemma tracks_flush:
  assumes t: "flow_tracks h mx its R n fl" and mx: "mx \<le> SIZE_MAX"
    and m: "completed_responses fl (next_response_sequence fl) = Some m"
  shows "n < length its" "m = answer h (its ! n)"
    "flow_tracks h mx its R (Suc n)
      (fl\<lparr>next_response_sequence := next_response_sequence fl + 1,
         completed_responses := (completed_responses fl)(next_response_sequence fl := None)\<rparr>)"
proof -
  from t m obtain k where k: "n \<le> k" "k < length its" "next_response_sequence fl = of_nat k"
    "m = answer h (its ! k)"
    by (rule tracks_response)
  have "k - n \<le> SIZE_MAX" using k(2) tracksD(4) [OF t] mx by simp
  with of_nat_window [of n n k] k(1,3) tracksD(2) [OF t] have "k = n"
    by simp
  with k show n: "n < length its" "m = answer h (its ! n)" by auto
  have key: "next_response_sequence fl = of_nat n" by (rule tracksD(2) [OF t])
  have seq: "wi_sequence (its ! n) = of_nat n" by (rule tracksD(5) [OF t n(1)])
  have "drop n its = its ! n # drop (Suc n) its"
    using n by (simp add: Cons_nth_drop_Suc)
  moreover have "completed_responses fl (wi_sequence (its ! n)) \<noteq> None"
    using m key seq by simp
  moreover have "filter (\<lambda>it. ((completed_responses fl)(of_nat n := None)) (wi_sequence it) = None) (drop (Suc n) its) =
      filter (\<lambda>it. completed_responses fl (wi_sequence it) = None) (drop (Suc n) its)"
    using distinct_window [OF t mx] seq \<open>drop n its = _\<close> by (intro filter_cong) force+
  moreover have "\<exists>l. Suc n \<le> l \<and> l < length its \<and> s = of_nat l \<and> m' = answer h (its ! l)"
    if "completed_responses fl s = Some m'" "s \<noteq> of_nat n" for s m'
    using tracks_response [OF t that(1)] that(2) by (metis le_neq_implies_less not_less_eq_eq not_less)
  ultimately show "flow_tracks h mx its R (Suc n)
      (fl\<lparr>next_response_sequence := next_response_sequence fl + 1,
         completed_responses := (completed_responses fl)(next_response_sequence fl := None)\<rparr>)"
    using t n key by (auto simp: flow_tracks_def add.commute split: if_splits)
qed

end
