(* ===== verification/Echo_Server_Invariant.thy ===== *)
theory Echo_Server_Invariant
  imports Session
begin

text \<open>
  What the reactor maintains. The structural invariant ties the flows to the registered connections
  and bounds their number. A session relates one connection to the history of its requests: the
  requests are what was parsed from the bytes received, the bytes sent and pending are the frames of
  the answers to the first of them, in order, and the answers still missing are outstanding at
  the workers. The network is observed through the bytes received and sent per descriptor and the
  set of open descriptors; the laws of the system calls on these observations are the hypotheses.
\<close>

section \<open>Observing the network\<close>

record 'w net =
  inbound :: "int \<Rightarrow> 'w \<Rightarrow> byte list"
  received :: "int \<Rightarrow> 'w \<Rightarrow> byte list"
  wire :: "int \<Rightarrow> 'w \<Rightarrow> byte list"
  opened :: "'w \<Rightarrow> int set"
  patience :: "int \<Rightarrow> 'w \<Rightarrow> nat"

definition same_net :: "'w net \<Rightarrow> 'w \<Rightarrow> 'w \<Rightarrow> bool" where
  "same_net N w w' \<longleftrightarrow> (\<forall>fd. received N fd w' = received N fd w \<and> wire N fd w' = wire N fd w) \<and>
     opened N w' = opened N w"

text \<open>Every call changes at most the observations of the descriptor it is applied to.\<close>

definition quiet :: "'w net \<Rightarrow> ('w \<Rightarrow> 'a \<times> 'w) \<Rightarrow> bool" where
  "quiet N call \<longleftrightarrow> (\<forall>w. same_net N w (snd (call w)))"

definition recv_observed :: "'w sys \<Rightarrow> 'w net \<Rightarrow> bool" where
  "recv_observed K N \<longleftrightarrow>
     (\<forall>fd n w r w'. sys_recv K fd n w = (r, w') \<longrightarrow>
        (\<forall>fd'. wire N fd' w' = wire N fd' w) \<and> opened N w' = opened N w \<and>
        (\<forall>fd'. fd' \<noteq> fd \<longrightarrow> received N fd' w' = received N fd' w) \<and>
        received N fd w' = received N fd w @ (case r of Inl e \<Rightarrow> [] | Inr bs \<Rightarrow> bs))"

definition send_observed :: "'w sys \<Rightarrow> 'w net \<Rightarrow> bool" where
  "send_observed K N \<longleftrightarrow>
     (\<forall>fd bs w r w'. sys_send K fd bs w = (r, w') \<longrightarrow>
        (\<forall>fd'. received N fd' w' = received N fd' w) \<and> opened N w' = opened N w \<and>
        (\<forall>fd'. fd' \<noteq> fd \<longrightarrow> wire N fd' w' = wire N fd' w))"

text \<open>A new connection gets a descriptor that is not open, and nothing has been sent on it.\<close>

definition accept_observed :: "'w sys \<Rightarrow> 'w net \<Rightarrow> bool" where
  "accept_observed K N \<longleftrightarrow>
     (\<forall>fd fl w r w'. sys_accept K fd fl w = (r, w') \<longrightarrow>
        (case r of
           Inl e \<Rightarrow> same_net N w w'
         | Inr fd' \<Rightarrow> 0 \<le> fd' \<and> fd' \<notin> opened N w \<and> opened N w' = insert fd' (opened N w) \<and>
             wire N fd' w' = [] \<and> received N fd' w' = [] \<and>
             (\<forall>x. x \<noteq> fd' \<longrightarrow> received N x w' = received N x w \<and> wire N x w' = wire N x w)))"

definition close_observed :: "'w sys \<Rightarrow> 'w net \<Rightarrow> bool" where
  "close_observed K N \<longleftrightarrow>
     (\<forall>fd w. opened N (sys_close K fd w) = opened N w - {fd} \<and>
        (\<forall>x. x \<noteq> fd \<longrightarrow> received N x (sys_close K fd w) = received N x w \<and>
           wire N x (sys_close K fd w) = wire N x w))"

definition others_quiet :: "'w sys \<Rightarrow> 'w net \<Rightarrow> bool" where
  "others_quiet K N \<longleftrightarrow>
     (\<forall>ep op fd ev. quiet N (sys_epoll_ctl K ep op fd ev)) \<and>
     (\<forall>ep n t. quiet N (sys_epoll_wait K ep n t)) \<and> (\<forall>fd n. quiet N (sys_read K fd n)) \<and>
     (\<forall>fd n. quiet N (sys_write_u64 K fd n)) \<and> (\<forall>fd. quiet N (sys_getfl K fd)) \<and>
     (\<forall>fd fl. quiet N (sys_setfl K fd fl))"

definition net_laws :: "'w sys \<Rightarrow> 'w net \<Rightarrow> bool" where
  "net_laws K N \<longleftrightarrow>
     recv_takes_stream K (inbound N) \<and> recv_settles K (patience N) \<and>
     send_extends_stream K (wire N) \<and> send_settles K (patience N) \<and>
     accept_settles K (patience N) \<and> read_settles K (patience N) \<and> write_settles K (patience N) \<and>
     recv_observed K N \<and> send_observed K N \<and> accept_observed K N \<and> close_observed K N \<and> others_quiet K N"

lemma net_lawsD:
  assumes "net_laws K N"
  shows "recv_takes_stream K (inbound N)" "recv_settles K (patience N)"
    "send_extends_stream K (wire N)" "send_settles K (patience N)"
    "accept_settles K (patience N)" "read_settles K (patience N)" "write_settles K (patience N)"
    "recv_observed K N" "send_observed K N" "accept_observed K N" "close_observed K N" "others_quiet K N"
  using assms by (simp_all add: net_laws_def)

lemma same_net_refl [simp]: "same_net N w w"
  by (simp add: same_net_def)

lemma same_net_trans: "same_net N w w1 \<Longrightarrow> same_net N w1 w2 \<Longrightarrow> same_net N w w2"
  by (simp add: same_net_def)

lemma quietD: "quiet N call \<Longrightarrow> call w = (r, w') \<Longrightarrow> same_net N w w'"
  unfolding quiet_def by (metis snd_conv)

section \<open>Rules for the accessors\<close>

lemma wp_server [wp_eqs]: "wp (server f) Q E = (\<lambda>(sv, w). Q (f sv) (sv, w))"
  by (simp add: server_def wp_eqs fun_eq_iff)

lemma wp_set_server [wp_eqs]: "wp (set_server f) Q E = (\<lambda>(sv, w). Q () (f sv, w))"
  by (simp add: set_server_def wp_eqs fun_eq_iff)

lemma wp_syscall [wp_eqs]: "wp (syscall f) Q E = (\<lambda>(sv, w). case f w of (x, w') \<Rightarrow> Q x (sv, w'))"
  by (simp add: syscall_def wp_eqs fun_eq_iff)

lemma wp_deref [wp_eqs]: "wp (deref x) Q E = (\<lambda>s. case x of None \<Rightarrow> False | Some a \<Rightarrow> Q a s)"
  by (simp add: deref_def wp_def ret_def fun_eq_iff split: option.splits)

lemma wp_connection_at [wp_eqs]:
  "wp (connection_at i) Q E =
     (\<lambda>(sv, w). case Find (registry sv) i of None \<Rightarrow> False | Some c \<Rightarrow> Q c (sv, w))"
  by (simp add: connection_at_def wp_eqs fun_eq_iff)

lemma wp_flow_at [wp_eqs]:
  "wp (flow_at i) Q E = (\<lambda>(sv, w). case find_flow i sv of None \<Rightarrow> False | Some fl \<Rightarrow> Q fl (sv, w))"
  by (simp add: flow_at_def wp_eqs fun_eq_iff)

lemma wp_set_flow [wp_eqs]:
  "wp (set_flow i f) Q E =
     (\<lambda>(sv, w). case find_flow i sv of None \<Rightarrow> False | Some fl \<Rightarrow> Q () (put_flow i (f fl) sv, w))"
  by (simp add: set_flow_def wp_eqs fun_eq_iff cong: option.case_cong)

lemma wp_on_connection:
  assumes "Find (registry sv) i = Some c" "f c w = Some (r, c', w')"
    and "case r of Inl e \<Rightarrow> E e (sv\<lparr>registry := Store i c' (registry sv)\<rparr>, w')
         | Inr x \<Rightarrow> Q x (sv\<lparr>registry := Store i c' (registry sv)\<rparr>, w')"
  shows "wp (on_connection i f) Q E (sv, w)"
  using assms by (cases r) (simp_all add: on_connection_def wp_def)

lemma wp_EpollCtl [wp_eqs]:
  "wp (EpollCtl K ep op fd ev name) Q E =
     (\<lambda>(sv, w). case sys_epoll_ctl K ep op fd ev w of
        (Inl e, w') \<Rightarrow> E (SyscallError name e) (sv, w') | (Inr _, w') \<Rightarrow> Q () (sv, w'))"
  by (auto simp: EpollCtl_def wp_eqs fun_eq_iff split: sum.splits)

section \<open>Structural invariant\<close>

definition core :: "EpollEchoServer \<Rightarrow> bool" where
  "core sv \<longleftrightarrow> reg_inv (registry sv) \<and> distinct (map fst (connection_flows sv)) \<and>
     (\<forall>i. find_flow i sv = None \<longleftrightarrow> Find (registry sv) i = None) \<and>
     registry_size (registry sv) \<le> max_connections sv \<and>
     max_in_flight_requests_per_connection sv \<le> SIZE_MAX"

lemma find_put_flow [simp]:
  "find_flow j (put_flow i fl sv) = (if j = i then Some fl else find_flow j sv)"
  by (simp add: find_flow_def put_flow_def update_conv' id_value_eq_iff)

lemma find_erase_flow [simp]:
  "find_flow j (erase_flow i sv) = (if j = i then None else find_flow j sv)"
  by (simp add: find_flow_def erase_flow_def delete_conv' id_value_eq_iff)

lemma put_flow_frame [simp]:
  "registry (put_flow i fl sv) = registry sv" "worker_pool (put_flow i fl sv) = worker_pool sv"
  "max_connections (put_flow i fl sv) = max_connections sv"
  "completed_work (put_flow i fl sv) = completed_work sv"
  "max_in_flight_requests_per_connection (put_flow i fl sv) = max_in_flight_requests_per_connection sv"
  "epoll (put_flow i fl sv) = epoll sv"
  by (simp_all add: put_flow_def)

lemma erase_flow_frame [simp]:
  "registry (erase_flow i sv) = registry sv" "worker_pool (erase_flow i sv) = worker_pool sv"
  "max_connections (erase_flow i sv) = max_connections sv"
  "completed_work (erase_flow i sv) = completed_work sv"
  "max_in_flight_requests_per_connection (erase_flow i sv) = max_in_flight_requests_per_connection sv"
  "epoll (erase_flow i sv) = epoll sv"
  by (simp_all add: erase_flow_def)

lemma find_flow_frame [simp]:
  "find_flow i (sv\<lparr>registry := r\<rparr>) = find_flow i sv"
  "find_flow i (sv\<lparr>worker_pool := p\<rparr>) = find_flow i sv"
  "find_flow i (sv\<lparr>completed_work := rs\<rparr>) = find_flow i sv"
  "find_flow i (sv\<lparr>stop_requested := b\<rparr>) = find_flow i sv"
  by (simp_all add: find_flow_def)

lemma core_put_flow:
  assumes "core sv" "find_flow i sv \<noteq> None"
  shows "core (put_flow i fl sv)"
proof -
  have "distinct (map fst (connection_flows (put_flow i fl sv)))"
    using assms(1) by (simp add: core_def put_flow_def distinct_update)
  with assms show ?thesis by (auto simp: core_def)
qed

lemma core_store:
  assumes "core sv" "Find (registry sv) i = Some c" "same_peer c c'"
  shows "core (sv\<lparr>registry := Store i c' (registry sv)\<rparr>)"
  using assms registry_store [of "registry sv" i c c'] by (auto simp: core_def)

lemma core_remove:
  assumes "core sv" "Remove K i (registry sv) w = (b, r, w')"
  shows "core ((erase_flow i sv)\<lparr>registry := r\<rparr>)"
  using assms registry_remove [OF _ assms(2)]
  by (auto simp: core_def erase_flow_def distinct_delete) (auto simp: find_flow_def delete_conv' id_value_eq_iff)

lemma core_pool [simp]: "core (sv\<lparr>worker_pool := p\<rparr>) = core sv"
  "core (sv\<lparr>completed_work := rs\<rparr>) = core sv" "core (sv\<lparr>stop_requested := b\<rparr>) = core sv"
  by (simp_all add: core_def)

section \<open>Sessions\<close>

text \<open>
  One connection and its history: \<open>extra\<close> are messages that were parsed and not yet submitted.
\<close>

definition session ::
  "WorkHandler \<Rightarrow> 'w net \<Rightarrow> nat \<Rightarrow> WorkItem list \<Rightarrow> WorkResult multiset \<Rightarrow> Message list \<Rightarrow>
   Connection \<Rightarrow> ConnectionFlow \<Rightarrow> 'w \<Rightarrow> bool" where
  "session h N mx its R extra c fl w \<longleftrightarrow>
     (\<exists>n. flow_tracks h mx its R n fl \<and>
        wire N (get (conn_fd c)) w @ pending c = concat (map (\<lambda>it. frame_of (answer h it)) (take n its)) \<and>
        (\<forall>it \<in> set (take n its). encodable (answer h it)) \<and>
        parse_stream frame_verdict (received N (get (conn_fd c)) w) =
          (map wi_request its @ extra, None, unread (decoder c)))"

text \<open>
  Between events no response that is due is held back, and a connection that is not watched by
  epoll has nothing to send, will be closed, and waits for a response.
\<close>

definition settled :: "Connection \<Rightarrow> ConnectionFlow \<Rightarrow> bool" where
  "settled c fl \<longleftrightarrow> completed_responses fl (next_response_sequence fl) = None \<and>
     (registered_with_epoll fl \<or>
      close_after_flush fl \<and> pending c = [] \<and> \<not> next_response_sequence fl \<ge> next_request_sequence fl)"

abbreviation session_at ::
  "WorkHandler \<Rightarrow> 'w net \<Rightarrow> WorkResult list \<Rightarrow> Message list \<Rightarrow> EpollEchoServer \<Rightarrow> 'w \<Rightarrow>
   ConnectionId \<Rightarrow> Connection \<Rightarrow> ConnectionFlow \<Rightarrow> bool" where
  "session_at h N todo extra sv w i c fl \<equiv>
     session h N (max_in_flight_requests_per_connection sv) (items_of i (accepted (worker_pool sv)))
       (results_for i (outstanding h (worker_pool sv) (todo @ completed_work sv))) extra c fl w"

definition descriptors_ok :: "'w net \<Rightarrow> ConnectionRegistry \<Rightarrow> 'w \<Rightarrow> bool" where
  "descriptors_ok N r w \<longleftrightarrow>
     (\<forall>i c. Find r i = Some c \<longrightarrow> get (conn_fd c) \<in> opened N w) \<and>
     (\<forall>i j c d. Find r i = Some c \<longrightarrow> Find r j = Some d \<longrightarrow> get (conn_fd c) = get (conn_fd d) \<longrightarrow> i = j)"

text \<open>
  The invariant, with the sessions of the connections in \<open>D\<close> left open and the results \<open>todo\<close> taken
  from the completion list and not yet handled; those still in the list are outstanding as well.
\<close>

definition Inv ::
  "WorkHandler \<Rightarrow> 'w net \<Rightarrow> ConnectionId set \<Rightarrow> WorkResult list \<Rightarrow> EpollEchoServer \<times> 'w \<Rightarrow> bool" where
  "Inv h N D todo = (\<lambda>(sv, w). core sv \<and> pool_inv h (worker_pool sv) \<and>
     (\<forall>it \<in> set (accepted (worker_pool sv)). issued (registry sv) (wi_connection_id it)) \<and>
     (\<forall>r \<in># outstanding h (worker_pool sv) (todo @ completed_work sv). issued (registry sv) (wr_connection_id r)) \<and>
     descriptors_ok N (registry sv) w \<and>
     (\<forall>i c fl. i \<notin> D \<longrightarrow> Find (registry sv) i = Some c \<longrightarrow> find_flow i sv = Some fl \<longrightarrow>
        session_at h N todo [] sv w i c fl \<and> settled c fl))"

lemma InvD:
  assumes "Inv h N D todo (sv, w)"
  shows "core sv" "descriptors_ok N (registry sv) w"
    "i \<notin> D \<Longrightarrow> Find (registry sv) i = Some c \<Longrightarrow> find_flow i sv = Some fl \<Longrightarrow>
       session_at h N todo [] sv w i c fl \<and> settled c fl"
    "pool_inv h (worker_pool sv)"
  using assms by (simp_all add: Inv_def)

lemma Inv_flow: "Inv h N D todo (sv, w) \<Longrightarrow> find_flow i sv = None \<longleftrightarrow> Find (registry sv) i = None"
  by (simp add: Inv_def core_def)

lemma Inv_open: "Inv h N {} todo s \<Longrightarrow> Inv h N D todo s"
  by (auto simp: Inv_def)

lemma Inv_close:
  assumes "Inv h N {i} todo (sv, w)"
    and "\<And>c fl. Find (registry sv) i = Some c \<Longrightarrow> find_flow i sv = Some fl \<Longrightarrow>
      session_at h N todo [] sv w i c fl \<and> settled c fl"
  shows "Inv h N {} todo (sv, w)"
proof -
  have "session_at h N todo [] sv w j c fl \<and> settled c fl"
    if "Find (registry sv) j = Some c" "find_flow j sv = Some fl" for j c fl
    using that assms(2) InvD(3) [OF assms(1), of j c fl] by (cases "j = i") auto
  with assms(1) show ?thesis by (simp add: Inv_def)
qed

lemma session_same_net:
  "session h N mx its R extra c fl w \<Longrightarrow> same_net N w w' \<Longrightarrow> session h N mx its R extra c fl w'"
  by (simp add: session_def same_net_def)

lemma session_frame:
  "session h N mx its R extra c fl w \<Longrightarrow> wire N (get (conn_fd c)) w' = wire N (get (conn_fd c)) w \<Longrightarrow>
   received N (get (conn_fd c)) w' = received N (get (conn_fd c)) w \<Longrightarrow>
   session h N mx its R extra c fl w'"
  by (simp add: session_def)

text \<open>Calls that change nothing but the observations of the descriptor of connection \<open>i\<close>.\<close>

definition only_at :: "'w net \<Rightarrow> int \<Rightarrow> 'w \<Rightarrow> 'w \<Rightarrow> bool" where
  "only_at N fd w w' \<longleftrightarrow> opened N w' = opened N w \<and>
     (\<forall>x. x \<noteq> fd \<longrightarrow> wire N x w' = wire N x w \<and> received N x w' = received N x w)"

lemma Inv_same_net: "Inv h N D todo (sv, w) \<Longrightarrow> same_net N w w' \<Longrightarrow> Inv h N D todo (sv, w')"
  by (auto simp: Inv_def descriptors_ok_def same_net_def session_def)

lemma Inv_far:
  assumes "Inv h N D todo (sv, w)"
    and far: "\<And>i c. Find (registry sv) i = Some c \<Longrightarrow> get (conn_fd c) \<in> opened N w' \<and>
      wire N (get (conn_fd c)) w' = wire N (get (conn_fd c)) w \<and>
      received N (get (conn_fd c)) w' = received N (get (conn_fd c)) w"
  shows "Inv h N D todo (sv, w')"
proof -
  have "session_at h N todo [] sv w' i c fl"
    if "session_at h N todo [] sv w i c fl" "Find (registry sv) i = Some c" for i c fl
    using session_frame [OF that(1)] far [OF that(2)] by blast
  moreover have "descriptors_ok N (registry sv) w'"
    using InvD(2) [OF assms(1)] far unfolding descriptors_ok_def by blast
  ultimately show ?thesis
    using assms(1) by (simp add: Inv_def)
qed

lemma Inv_only_at:
  assumes "Inv h N {i} todo (sv, w)" "Find (registry sv) i = Some c" "only_at N (get (conn_fd c)) w w'"
  shows "Inv h N {i} todo (sv, w')"
proof -
  have "session_at h N todo [] sv w' j d fl" if "j \<noteq> i" "Find (registry sv) j = Some d"
    "session_at h N todo [] sv w j d fl" for j d fl
  proof -
    have "get (conn_fd d) \<noteq> get (conn_fd c)"
      using assms(1,2) that(1,2) unfolding Inv_def descriptors_ok_def by auto
    with assms(3) show ?thesis
      by (intro session_frame [OF that(3)]) (auto simp: only_at_def)
  qed
  with assms show ?thesis
    by (auto simp: Inv_def descriptors_ok_def only_at_def)
qed

lemma Inv_put_flow:
  assumes "Inv h N {i} todo (sv, w)" "find_flow i sv \<noteq> None"
  shows "Inv h N {i} todo (put_flow i fl sv, w)"
  using assms core_put_flow [of sv i fl] by (auto simp: Inv_def)

lemma issued_store [simp]: "issued (Store i c r) = issued r"
  by (simp add: issued_def Store_def fun_eq_iff)

lemma Find_store [simp]: "Find (Store i c' r) = (Find r)(i \<mapsto> c')"
  by (simp add: Find_def Store_def fun_eq_iff update_conv' id_value_eq_iff)

lemma Inv_store:
  assumes "Inv h N {i} todo (sv, w)" "Find (registry sv) i = Some c" "same_peer c c'"
  shows "Inv h N {i} todo (sv\<lparr>registry := Store i c' (registry sv)\<rparr>, w)"
proof -
  have "descriptors_ok N (Store i c' (registry sv)) w"
    using assms by (auto simp: Inv_def descriptors_ok_def same_peer_def)
  with assms core_store [of sv i c c'] show ?thesis
    by (auto simp: Inv_def)
qed

text \<open>Removing the connection whose session is open.\<close>

lemma issued_remove: "reg_inv r \<Longrightarrow> Remove K i r w = (b, r', w') \<Longrightarrow> issued r' = issued r"
  using registry_remove(4) [of r K i w b r' w'] by (simp add: issued_def fun_eq_iff)

lemma destroy_valid: "destroy fd = (if is_valid fd then [get fd] else [])"
  by (simp add: destroy_def reset_def is_valid_def get_def)

lemma Inv_remove:
  assumes laws: "net_laws K N" and inv: "Inv h N {i} todo (sv, w)"
    and rem: "Remove K i (registry sv) w = (b, r, w')"
  shows "Inv h N {} todo ((erase_flow i sv)\<lparr>registry := r\<rparr>, w')"
proof (cases "Find (registry sv) i")
  case None
  with rem have "r = registry sv" "w' = w"
    by (auto simp: Remove_def Find_def)
  moreover have "core ((erase_flow i sv)\<lparr>registry := r\<rparr>)"
    using core_remove [OF InvD(1) [OF inv] rem] .
  ultimately show ?thesis
    using inv None by (auto simp: Inv_def)
next
  case (Some c)
  have reg: "reg_inv (registry sv)" using InvD(1) [OF inv] by (simp add: core_def)
  then have "is_valid (conn_fd c)"
    using Some by (auto simp: Find_def reg_inv_def entry_ok_def)
  with rem Some have w': "w' = sys_close K (get (conn_fd c)) w"
    by (simp add: Remove_def Find_def destroy_valid close_all_def)
  have far: "get (conn_fd d) \<noteq> get (conn_fd c)" if "j \<noteq> i" "Find (registry sv) j = Some d" for j d
    using InvD(2) [OF inv] Some that unfolding descriptors_ok_def by metis
  have net: "opened N w' = opened N w - {get (conn_fd c)}"
    "\<And>x. x \<noteq> get (conn_fd c) \<Longrightarrow> wire N x w' = wire N x w \<and> received N x w' = received N x w"
    using net_lawsD(11) [OF laws] unfolding w' close_observed_def by blast+
  have "session_at h N todo [] sv w' j d fl" if "j \<noteq> i" "Find (registry sv) j = Some d"
    "session_at h N todo [] sv w j d fl" for j d fl
    using session_frame [OF that(3)] net(2) [OF far [OF that(1,2)]] by blast
  moreover have "descriptors_ok N r w'"
    using InvD(2) [OF inv] registry_remove(3) [OF reg rem] net(1) far
    by (auto simp: descriptors_ok_def split: if_splits)
  moreover note core_remove [OF InvD(1) [OF inv] rem] issued_remove [OF reg rem] registry_remove(3) [OF reg rem]
  ultimately show ?thesis
    using inv by (auto simp: Inv_def split: if_splits)
qed

text \<open>Accepting a request of connection \<open>i\<close> into the pool, and taking a result from the list.\<close>

lemma outstanding_submit:
  assumes "TrySubmit p item = (True, p')"
  shows "outstanding h p' todo = add_mset (work_result h item) (outstanding h p todo)"
    "accepted p' = accepted p @ [item]"
  using assms by (auto simp: TrySubmit_def TryPush_def outstanding_def split: if_splits)

lemma outstanding_Cons: "outstanding h p (r # todo) = add_mset r (outstanding h p todo)"
  by (simp add: outstanding_def)

lemma results_for_add [simp]:
  "results_for i (add_mset r R) = (if wr_connection_id r = i then add_mset r (results_for i R) else results_for i R)"
  by (simp add: results_for_def)

lemma Inv_submit:
  assumes "Inv h N {i} todo (sv, w)" "TrySubmit (worker_pool sv) item = (True, p)"
    and "wi_connection_id item = i" "Find (registry sv) i \<noteq> None"
  shows "Inv h N {i} todo (sv\<lparr>worker_pool := p\<rparr>, w)"
proof -
  have "issued (registry sv) i"
    using registry.look_given [of "registry sv" i] assms(1,4) by (auto simp: Inv_def core_def)
  with assms outstanding_submit(1) [OF assms(2), of h "todo @ completed_work sv"] outstanding_submit(2) [OF assms(2)]
    pool_step_inv [OF pool_step.submit [OF assms(2), of h]] show ?thesis
    by (auto simp: Inv_def)
qed

lemma Inv_result:
  assumes "Inv h N D (r # todo) (sv, w)" "wr_connection_id r \<in> D \<or> Find (registry sv) (wr_connection_id r) = None"
  shows "Inv h N D todo (sv, w)"
proof -
  have "wr_connection_id r \<noteq> i" if "i \<notin> D" "Find (registry sv) i = Some c" for i c
    using assms(2) that by auto
  then have "session_at h N (r # todo) [] sv w i c fl = session_at h N todo [] sv w i c fl"
    if "i \<notin> D" "Find (registry sv) i = Some c" for i c fl
    using that by (simp add: outstanding_Cons)
  with assms(1) show ?thesis by (auto simp: Inv_def outstanding_Cons)
qed

section \<open>Exceptions\<close>

text \<open>
  The exceptions that may leave a handler: failed system calls, short reads of the wake-up
  descriptors, and the end of the id space. The internal errors of the code are not among them.
\<close>

definition external :: "exn \<Rightarrow> bool" where
  "external e \<longleftrightarrow> (\<exists>op err. e = SyscallError op err) \<or> e = RuntimeError ''read(eventfd): short read'' \<or>
     e = RuntimeError ''read(signalfd): short read'' \<or> e = RuntimeError ''connection id space exhausted''"

abbreviation fails :: "exn \<Rightarrow> EpollEchoServer \<times> 'w \<Rightarrow> bool" where
  "fails \<equiv> \<lambda>e s. external e"

lemma external_syscall [simp]: "external (SyscallError op err)"
  by (simp add: external_def)

section \<open>Removing connections and epoll interest\<close>

lemma net_epoll_ctl: "net_laws K N \<Longrightarrow> sys_epoll_ctl K ep op fd ev w = (r, w') \<Longrightarrow> same_net N w w'"
  using net_lawsD(12) [of K N] unfolding others_quiet_def by (metis quietD)

lemma RemoveConnection_inv:
  assumes laws: "net_laws K N" and inv: "Inv h N {i} todo (sv, w)"
  shows "wp (RemoveConnection K i) (\<lambda>_. Inv h N {} todo) fails (sv, w)"
proof (cases "Find (registry sv) i")
  case None
  then show ?thesis
    using inv by (auto simp: RemoveConnection_def wp_eqs intro: Inv_close)
next
  case (Some c)
  have rest: "wp (seq (set_server (erase_flow i)) (andthen (remove_from_registry K i) (\<lambda>removed. ret ())))
      (\<lambda>_. Inv h N {} todo) fails (sv, w')" if "same_net N w w'" for w'
    using Inv_remove [OF laws Inv_same_net [OF inv that]]
    by (auto simp: remove_from_registry_def wp_eqs split: prod.splits)
  show ?thesis
    using Some net_epoll_ctl [OF laws] rest
    by (auto simp: RemoveConnection_def wp_eqs split: prod.splits sum.splits)
qed

lemma session_flags [simp]:
  "session h N mx its R extra c (fl\<lparr>registered_with_epoll := b\<rparr>) w = session h N mx its R extra c fl w"
  "session h N mx its R extra c (fl\<lparr>close_after_flush := b\<rparr>) w = session h N mx its R extra c fl w"
  by (simp_all add: session_def flow_tracks_def)

text \<open>The state of a handler that has opened the session of connection \<open>i\<close>.\<close>

definition serving ::
  "WorkHandler \<Rightarrow> 'w net \<Rightarrow> WorkResult list \<Rightarrow> Message list \<Rightarrow> ConnectionId \<Rightarrow>
   Connection \<Rightarrow> ConnectionFlow \<Rightarrow> EpollEchoServer \<times> 'w \<Rightarrow> bool" where
  "serving h N todo extra i c fl = (\<lambda>(sv, w). Inv h N {i} todo (sv, w) \<and>
     Find (registry sv) i = Some c \<and> find_flow i sv = Some fl \<and>
     session_at h N todo extra sv w i c fl)"

lemma serving_open:
  assumes "Inv h N {} todo (sv, w)" "Find (registry sv) i = Some c" "find_flow i sv = Some fl"
  shows "serving h N todo [] i c fl (sv, w)" "settled c fl"
  using assms InvD(3) [OF assms(1), of i c fl] Inv_open [OF assms(1)] by (auto simp: serving_def)

lemma serving_same_net:
  "serving h N todo extra i c fl (sv, w) \<Longrightarrow> same_net N w w' \<Longrightarrow> serving h N todo extra i c fl (sv, w')"
  by (auto simp: serving_def intro: Inv_same_net session_same_net)

lemma serving_done:
  assumes "serving h N todo [] i c fl (sv, w)" "settled c fl"
  shows "Inv h N {} todo (sv, w)"
  using assms by (auto simp: serving_def intro: Inv_close)

lemma serving_put_flag:
  assumes "serving h N todo extra i c fl (sv, w)"
  shows "serving h N todo extra i c (fl\<lparr>registered_with_epoll := b\<rparr>)
      (put_flow i (fl\<lparr>registered_with_epoll := b\<rparr>) sv, w)"
    "serving h N todo extra i c (fl\<lparr>close_after_flush := b\<rparr>)
      (put_flow i (fl\<lparr>close_after_flush := b\<rparr>) sv, w)"
  using assms by (auto simp: serving_def intro: Inv_put_flow)

lemma serving_conn:
  assumes "serving h N todo extra i c fl (sv, w)"
  shows "in_inv c" "out_inv c" "limits c = reg_limits (registry sv)" "conn_id c = i"
  using assms by (auto simp: serving_def Inv_def core_def reg_inv_def Find_def entry_ok_def id_value_eq_iff)

lemma UpdateInterest_inv:
  assumes laws: "net_laws K N" and serving: "serving h N todo [] i c fl (sv, w)"
    and due: "completed_responses fl (next_response_sequence fl) = None"
    and stays: "\<not> ShouldCloseAfterFlush c fl"
  shows "wp (UpdateInterest K i) (\<lambda>_. Inv h N {} todo) fails (sv, w)"
proof -
  have at: "Find (registry sv) i = Some c" "find_flow i sv = Some fl"
    using serving by (auto simp: serving_def)
  note quiet = serving_same_net [OF serving net_epoll_ctl [OF laws]]
  have idle: "settled c (fl\<lparr>registered_with_epoll := b\<rparr>)" if "close_after_flush fl" "pending c = []" for b
    using that due stays by (simp add: settled_def ShouldCloseAfterFlush_def has_pending_output_abs)
  have watched: "settled c (fl\<lparr>registered_with_epoll := True\<rparr>)"
    "registered_with_epoll fl \<Longrightarrow> settled c fl"
    using due by (simp_all add: settled_def)
  have same: "fl\<lparr>registered_with_epoll := registered_with_epoll fl\<rparr> = fl" by simp
  show ?thesis
  proof (cases "close_after_flush fl \<and> pending c = []")
    case True
    with at idle idle [of "registered_with_epoll fl"] show ?thesis
      by (auto simp: UpdateInterest_def wp_eqs has_pending_output_abs same split: prod.splits sum.splits
          intro: serving_done [OF serving] serving_done [OF serving_put_flag(1) [OF quiet]])
  next
    case False
    with at watched show ?thesis
      by (cases "registered_with_epoll fl")
        (auto simp: UpdateInterest_def wp_eqs has_pending_output_abs Let_def split: prod.splits sum.splits
          intro: serving_done [OF quiet] serving_done [OF serving_put_flag(1) [OF quiet]])
  qed
qed

section \<open>Responses\<close>

lemma same_peer_queue:
  assumes "QueueOutput c m = (ok, c')" "in_inv c" "out_inv c"
  shows "same_peer c c'"
  using assms QueueOutput_accepts [of c m c'] QueueOutput_rejects [of c m c']
  by (cases ok) (auto simp: same_peer_def in_inv_def)

lemma serving_rejected:
  assumes "serving h N todo [] i c fl (sv, w)" "QueueOutput c m = (ok, c')"
  shows "Inv h N {i} todo (sv\<lparr>registry := Store i c' (registry sv)\<rparr>, w)"
  using assms serving_conn [OF assms(1)] same_peer_queue [OF assms(2)]
  by (auto simp: serving_def intro: Inv_store)

lemma serving_flushed:
  assumes serving: "serving h N todo [] i c fl (sv, w)"
    and due: "completed_responses fl (next_response_sequence fl) = Some m"
    and queue: "QueueOutput c m = (True, c')"
  defines "fl' \<equiv> fl\<lparr>next_response_sequence := next_response_sequence fl + 1,
      completed_responses := (completed_responses fl)(next_response_sequence fl := None)\<rparr>"
  shows "serving h N todo [] i c' fl' (put_flow i fl' (sv\<lparr>registry := Store i c' (registry sv)\<rparr>), w)"
proof -
  let ?its = "items_of i (accepted (worker_pool sv))"
  from serving obtain n where
    n: "flow_tracks h (max_in_flight_requests_per_connection sv) ?its
          (results_for i (outstanding h (worker_pool sv) (todo @ completed_work sv))) n fl"
      "wire N (get (conn_fd c)) w @ pending c = concat (map (\<lambda>it. frame_of (answer h it)) (take n ?its))"
      "\<forall>it \<in> set (take n ?its). encodable (answer h it)"
      "parse_stream frame_verdict (received N (get (conn_fd c)) w) =
         (map wi_request ?its, None, unread (decoder c))"
    by (auto simp: serving_def session_def)
  have mx: "max_in_flight_requests_per_connection sv \<le> SIZE_MAX"
    using serving by (simp add: serving_def Inv_def core_def)
  note step = tracks_flush [OF n(1) mx due]
  note q = QueueOutput_accepts [OF queue]
  have "take (Suc n) ?its = take n ?its @ [?its ! n]"
    using step(1) by (simp add: take_Suc_conv_app_nth)
  with n q step(2) have
    "wire N (get (conn_fd c')) w @ pending c' = concat (map (\<lambda>it. frame_of (answer h it)) (take (Suc n) ?its))"
    "\<forall>it \<in> set (take (Suc n) ?its). encodable (answer h it)"
    by (auto simp flip: append_assoc)
  with step(3) n(4) q have "session h N (max_in_flight_requests_per_connection sv) ?its
      (results_for i (outstanding h (worker_pool sv) (todo @ completed_work sv))) [] c' fl' w"
    unfolding session_def fl'_def by auto
  moreover have "Inv h N {i} todo (put_flow i fl' (sv\<lparr>registry := Store i c' (registry sv)\<rparr>), w)"
    using serving_rejected [OF serving queue] serving
    by (intro Inv_put_flow) (auto simp: serving_def)
  ultimately show ?thesis
    by (simp add: serving_def)
qed

text \<open>The flush loop returns because each round empties one slot of the table of early responses.\<close>

definition early_responses :: "ConnectionId \<Rightarrow> EpollEchoServer \<Rightarrow> nat" where
  "early_responses i sv = (case find_flow i sv of None \<Rightarrow> 0 | Some fl \<Rightarrow> card (dom (completed_responses fl)))"

lemma flush_loop_inv:
  assumes laws: "net_laws K N" and serving: "serving h N todo [] i c fl (sv, w)"
  shows "wp (flush_loop K i)
    (\<lambda>up s. if up then \<exists>c fl. serving h N todo [] i c fl s \<and>
                   completed_responses fl (next_response_sequence fl) = None
       else Inv h N {} todo s) fails (sv, w)"
  unfolding flush_loop_def
proof (rule wp_loop [where R = "measure (\<lambda>(_, sv, w). early_responses i sv)" and
      I = "\<lambda>_ s. \<exists>c fl. serving h N todo [] i c fl s"])
  fix u :: unit and s :: "EpollEchoServer \<times> 'a"
  assume "\<exists>c fl. serving h N todo [] i c fl s"
  then obtain c fl sv w where s: "s = (sv, w)" and serving: "serving h N todo [] i c fl (sv, w)"
    by (cases s) auto
  then have at: "Find (registry sv) i = Some c" "find_flow i sv = Some fl"
    by (auto simp: serving_def)
  let ?Q = "\<lambda>y s'. case y of
      Inl x' \<Rightarrow> (\<exists>c fl. serving h N todo [] i c fl s') \<and>
        ((x', s'), (u, s)) \<in> measure (\<lambda>(_, sv, w). early_responses i sv)
    | Inr up \<Rightarrow> if up then \<exists>c fl. serving h N todo [] i c fl s' \<and>
                   completed_responses fl (next_response_sequence fl) = None
       else Inv h N {} todo s'"
  let ?body = "\<lambda>fl. case completed_responses fl (next_response_sequence fl) of
         None \<Rightarrow> ret (Inr True)
       | Some response \<Rightarrow>
           andthen (on_connection i (\<lambda>c w. case QueueOutput c response of (ok, c') \<Rightarrow> Some (Inr ok, c', w)))
             (\<lambda>queued.
               if \<not> queued then seq (RemoveConnection K i) (ret (Inr False))
               else seq (set_flow i (\<lambda>fl. fl\<lparr>
                        next_response_sequence := next_response_sequence fl + 1,
                        completed_responses :=
                          (completed_responses fl)(next_response_sequence fl := None)\<rparr>))
                      (ret (Inl ())))"
  have "wp (?body fl) ?Q fails (sv, w)"
  proof (cases "completed_responses fl (next_response_sequence fl)")
    case None
    with serving show ?thesis by (auto simp: wp_eqs)
  next
    case (Some m)
    obtain ok c' where q: "QueueOutput c m = (ok, c')" by (metis surj_pair)
    let ?fl' = "fl\<lparr>next_response_sequence := next_response_sequence fl + 1,
      completed_responses := (completed_responses fl)(next_response_sequence fl := None)\<rparr>"
    let ?sv' = "sv\<lparr>registry := Store i c' (registry sv)\<rparr>"
    show ?thesis
    proof (cases ok)
      case False
      have "wp (RemoveConnection K i) (\<lambda>_. ?Q (Inr False)) fails (?sv', w)"
        using RemoveConnection_inv [OF laws serving_rejected [OF serving q]] by simp
      with False at q Some show ?thesis
        by (auto simp: wp_eqs intro!: wp_on_connection)
    next
      case True
      have "\<exists>c fl. serving h N todo [] i c fl (put_flow i ?fl' ?sv', w)"
        using serving_flushed [OF serving Some q [unfolded eqTrueI [OF True]]] by blast
      moreover have "early_responses i (put_flow i ?fl' ?sv') < early_responses i sv"
        using at Some by (auto simp: early_responses_def intro!: psubset_card_mono)
      ultimately show ?thesis
        using True at q Some s by (auto simp: wp_eqs intro!: wp_on_connection) blast
    qed
  qed
  with at show "wp (andthen (flow_at i) ?body) ?Q fails s"
    by (simp add: wp_eqs s)
qed (use serving in auto)

lemma FlushReadyResponses_inv:
  assumes laws: "net_laws K N" and serving: "serving h N todo [] i c fl (sv, w)"
  shows "wp (FlushReadyResponses K i) (\<lambda>_. Inv h N {} todo) fails (sv, w)"
proof -
  have rest: "wp (andthen (connection_at i) (\<lambda>c. andthen (flow_at i) (\<lambda>fl.
           if ShouldCloseAfterFlush c fl then seq (RemoveConnection K i) (ret False)
           else seq (UpdateInterest K i) (ret True)))) (\<lambda>_. Inv h N {} todo) fails s"
    if due: "\<exists>c fl. serving h N todo [] i c fl s \<and> completed_responses fl (next_response_sequence fl) = None" for s
  proof -
    obtain c fl sv w where s: "s = (sv, w)" "serving h N todo [] i c fl (sv, w)"
      "completed_responses fl (next_response_sequence fl) = None"
      using due by (cases s) blast
    then have "Find (registry sv) i = Some c" "find_flow i sv = Some fl" "Inv h N {i} todo (sv, w)"
      by (auto simp: serving_def)
    with s show ?thesis
      by (auto simp: wp_eqs intro: RemoveConnection_inv [OF laws] UpdateInterest_inv [OF laws])
  qed
  have "wp (flush_loop K i) (\<lambda>up. wp (if \<not> up then ret False else
      andthen (connection_at i) (\<lambda>c. andthen (flow_at i) (\<lambda>fl.
           if ShouldCloseAfterFlush c fl then seq (RemoveConnection K i) (ret False)
           else seq (UpdateInterest K i) (ret True)))) (\<lambda>_. Inv h N {} todo) fails) fails (sv, w)"
    using flush_loop_inv [OF laws serving] by (rule wp_mono) (auto simp: wp_ret rest split: if_splits)
  then show ?thesis
    by (simp add: FlushReadyResponses_def wp_andthen)
qed

lemma serving_result:
  assumes inv: "Inv h N {} (r # todo) (sv, w)" and i: "i = wr_connection_id r"
    and at: "Find (registry sv) i = Some c" "find_flow i sv = Some fl"
  defines "fl' \<equiv> fl\<lparr>completed_responses := emplace (wr_sequence r) (wr_response r) (completed_responses fl)\<rparr>"
  shows "serving h N todo [] i c fl' (put_flow i fl' sv, w)"
proof -
  have mx: "max_in_flight_requests_per_connection sv \<le> SIZE_MAX"
    using inv by (simp add: Inv_def core_def)
  have "session h N (max_in_flight_requests_per_connection sv) (items_of i (accepted (worker_pool sv)))
      (add_mset r (results_for i (outstanding h (worker_pool sv) (todo @ completed_work sv)))) [] c fl w"
    using InvD(3) [OF inv _ at] i by (simp add: outstanding_Cons)
  then have "session h N (max_in_flight_requests_per_connection sv) (items_of i (accepted (worker_pool sv)))
      (results_for i (outstanding h (worker_pool sv) (todo @ completed_work sv))) [] c fl' w"
    using tracks_result [OF _ mx] unfolding session_def fl'_def by blast
  moreover have "Inv h N {i} todo (put_flow i fl' sv, w)"
    using Inv_result [OF Inv_open [OF inv]] i at by (intro Inv_put_flow) auto
  ultimately show ?thesis
    using at by (simp add: serving_def)
qed

lemma HandleCompletedWork_inv:
  assumes laws: "net_laws K N" and inv: "Inv h N {} (r # todo) s"
  shows "wp (HandleCompletedWork K r) (\<lambda>_. Inv h N {} todo) fails s"
proof -
  obtain sv w where s: "s = (sv, w)" by (cases s)
  let ?i = "wr_connection_id r"
  note inv = inv [unfolded s]
  show ?thesis
  proof (cases "Find (registry sv) ?i")
    case None
    with inv show ?thesis
      by (auto simp: s HandleCompletedWork_def Let_def wp_eqs intro: Inv_result)
  next
    case (Some c)
    with Inv_flow [OF inv, of ?i] obtain fl where fl: "find_flow ?i sv = Some fl" by auto
    from FlushReadyResponses_inv [OF laws serving_result [OF inv refl Some fl]] Some fl show ?thesis
      by (simp add: s HandleCompletedWork_def Let_def wp_eqs)
  qed
qed

lemma completed_list_inv:
  assumes laws: "net_laws K N" and "Inv h N {} (rs @ todo) s"
  shows "wp (for_each (HandleCompletedWork K) rs) (\<lambda>_. Inv h N {} todo) fails s"
  using assms(2)
proof (induction rs arbitrary: s)
  case Nil
  then show ?case by (simp add: wp_eqs)
next
  case (Cons r rs)
  then have "wp (HandleCompletedWork K r) (\<lambda>_. Inv h N {} (rs @ todo)) fails s"
    by (intro HandleCompletedWork_inv [OF laws]) simp
  then show ?case
    unfolding for_each.simps wp_seq by (rule wp_mono) (auto intro: Cons.IH)
qed

end
