(* ===== verification/Echo_Server_Handlers.thy ===== *)
theory Echo_Server_Handlers
  imports Echo_Server_Invariant
begin

text \<open>
  Every event handler of the reactor returns, keeps the invariant, and throws only when a system call
  failed or the id space is used up.
\<close>

section \<open>Reading and submitting\<close>

text \<open>A session with nothing overdue, as the handlers leave it before they update the interest.\<close>

definition ready :: "WorkHandler \<Rightarrow> 'w net \<Rightarrow> WorkResult list \<Rightarrow> ConnectionId \<Rightarrow> EpollEchoServer \<times> 'w \<Rightarrow> bool" where
  "ready h N todo i s \<longleftrightarrow>
     (\<exists>c fl. serving h N todo [] i c fl s \<and> completed_responses fl (next_response_sequence fl) = None)"

lemma ready_cases:
  assumes "ready h N todo i s"
  obtains sv w c fl where "s = (sv, w)" "serving h N todo [] i c fl (sv, w)"
    "completed_responses fl (next_response_sequence fl) = None"
    "Find (registry sv) i = Some c" "find_flow i sv = Some fl" "Inv h N {i} todo (sv, w)"
  using assms by (cases s) (auto simp: ready_def serving_def)

text \<open>Submitting from a connection that is going to be removed keeps the other sessions.\<close>

definition doomed :: "WorkHandler \<Rightarrow> 'w net \<Rightarrow> WorkResult list \<Rightarrow> ConnectionId \<Rightarrow> EpollEchoServer \<times> 'w \<Rightarrow> bool" where
  "doomed h N todo i = (\<lambda>(sv, w). Inv h N {i} todo (sv, w) \<and> Find (registry sv) i \<noteq> None \<and>
     find_flow i sv \<noteq> None)"

lemma doomed_flow: "doomed h N todo i (sv, w) \<Longrightarrow> find_flow i sv \<noteq> None"
  "ready h N todo i (sv, w) \<Longrightarrow> find_flow i sv \<noteq> None"
  by (auto simp: doomed_def ready_def serving_def)

lemma submit_step:
  assumes "Inv h N {i} todo (sv, w)" "Find (registry sv) i \<noteq> None" "find_flow i sv \<noteq> None"
    and "TrySubmit (worker_pool sv) item = (ok, p)" "wi_connection_id item = i"
  shows "Inv h N {i} todo (sv\<lparr>worker_pool := p\<rparr>, w)"
    "ok \<Longrightarrow> Inv h N {i} todo (put_flow i fl (sv\<lparr>worker_pool := p\<rparr>), w)"
proof -
  show inv: "Inv h N {i} todo (sv\<lparr>worker_pool := p\<rparr>, w)"
    using assms Inv_submit [of h N i todo sv w item p] TrySubmit_refuses [of "worker_pool sv" item p]
    by (cases ok) auto
  then show "ok \<Longrightarrow> Inv h N {i} todo (put_flow i fl (sv\<lparr>worker_pool := p\<rparr>), w)"
    using assms(3) by (intro Inv_put_flow) simp_all
qed

lemma SubmitWork_doomed:
  "doomed h N todo i s \<Longrightarrow> wp (SubmitWork i ms) (\<lambda>_. doomed h N todo i) fails s"
proof (induction ms arbitrary: s)
  case Nil
  then show ?case by (cases s) (auto simp: wp_eqs)
next
  case (Cons m ms)
  obtain sv w fl where s: "s = (sv, w)" "find_flow i sv = Some fl" "Find (registry sv) i \<noteq> None"
    "Inv h N {i} todo (sv, w)"
    using Cons.prems by (cases s) (auto simp: doomed_def)
  let ?item = "\<lparr>wi_connection_id = i, wi_sequence = next_request_sequence fl, wi_request = m\<rparr>"
  obtain ok p where p: "TrySubmit (worker_pool sv) ?item = (ok, p)" by (metis surj_pair)
  have "find_flow i sv \<noteq> None" using s by simp
  note step = submit_step [OF s(4,3) this p]
  have "doomed h N todo i (sv\<lparr>worker_pool := p\<rparr>, w)"
    "ok \<Longrightarrow> doomed h N todo i (put_flow i fl' (sv\<lparr>worker_pool := p\<rparr>), w)" for fl'
    using step s by (auto simp: doomed_def)
  with Cons s p show ?case
    by (auto simp: wp_eqs Let_def split: prod.splits)
qed

lemma serving_submitted:
  assumes serving: "serving h N todo (m # ms) i c fl (sv, w)"
    and room: "unat (next_request_sequence fl - next_response_sequence fl) < max_in_flight_requests_per_connection sv"
    and submit: "TrySubmit (worker_pool sv)
      \<lparr>wi_connection_id = i, wi_sequence = next_request_sequence fl, wi_request = m\<rparr> = (True, p)"
  defines "fl' \<equiv> fl\<lparr>next_request_sequence := next_request_sequence fl + 1\<rparr>"
  shows "serving h N todo ms i c fl' (put_flow i fl' (sv\<lparr>worker_pool := p\<rparr>), w)"
proof -
  let ?item = "\<lparr>wi_connection_id = i, wi_sequence = next_request_sequence fl, wi_request = m\<rparr>"
  let ?its = "items_of i (accepted (worker_pool sv))"
  let ?R = "results_for i (outstanding h (worker_pool sv) (todo @ completed_work sv))"
  let ?mx = "max_in_flight_requests_per_connection sv"
  have mx: "?mx \<le> SIZE_MAX"
    using serving by (simp add: serving_def Inv_def core_def)
  from serving obtain n where n: "flow_tracks h ?mx ?its ?R n fl"
      "wire N (get (conn_fd c)) w @ pending c = concat (map (\<lambda>it. frame_of (answer h it)) (take n ?its))"
      "\<forall>it \<in> set (take n ?its). encodable (answer h it)"
      "parse_stream frame_verdict (received N (get (conn_fd c)) w) =
         (map wi_request ?its @ m # ms, None, unread (decoder c))"
    by (auto simp: serving_def session_def)
  have "length ?its - n < ?mx"
    using room in_flight_count [OF n(1) mx] by simp
  from tracks_submit [OF n(1) this mx, of ?item]
  have "flow_tracks h ?mx (?its @ [?item]) (add_mset (work_result h ?item) ?R) n fl'"
    by (simp add: fl'_def)
  with n(2-) tracksD(3) [OF n(1)]
  have "session h N ?mx (?its @ [?item]) (add_mset (work_result h ?item) ?R) ms c fl' w"
    unfolding session_def by (intro exI [of _ n]) simp
  then have "session_at h N todo ms (sv\<lparr>worker_pool := p\<rparr>) w i c fl'"
    using outstanding_submit(1) [OF submit, of h "todo @ completed_work sv"] outstanding_submit(2) [OF submit] by simp
  moreover have "Inv h N {i} todo (put_flow i fl' (sv\<lparr>worker_pool := p\<rparr>), w)"
    using serving submit_step(2) [OF _ _ _ submit, of h N i todo w] by (auto simp: serving_def)
  ultimately show ?thesis
    using serving by (simp add: serving_def)
qed

lemma SubmitWork_inv:
  assumes "serving h N todo ms i c fl s" "completed_responses fl (next_response_sequence fl) = None"
  shows "wp (SubmitWork i ms)
    (\<lambda>ok s. if ok then ready h N todo i s else doomed h N todo i s) fails s"
  using assms
proof (induction ms arbitrary: s fl)
  case Nil
  then show ?case by (cases s) (auto simp: wp_eqs ready_def serving_def)
next
  case (Cons m ms)
  obtain sv w where s: "s = (sv, w)" by (cases s)
  note serving = Cons.prems(1) [unfolded s]
  have at: "find_flow i sv = Some fl" "Find (registry sv) i = Some c" "Inv h N {i} todo (sv, w)"
    using serving by (auto simp: serving_def)
  let ?item = "\<lparr>wi_connection_id = i, wi_sequence = next_request_sequence fl, wi_request = m\<rparr>"
  obtain ok p where p: "TrySubmit (worker_pool sv) ?item = (ok, p)" by (metis surj_pair)
  have full: "doomed h N todo i (sv, w)" using at by (simp add: doomed_def)
  have refused: "doomed h N todo i (sv\<lparr>worker_pool := p\<rparr>, w)"
    using at submit_step(1) [OF at(3) _ _ p] by (simp add: doomed_def)
  let ?fl = "fl\<lparr>next_request_sequence := next_request_sequence fl + 1\<rparr>"
  have "wp (SubmitWork i ms) (\<lambda>ok s. if ok then ready h N todo i s else doomed h N todo i s) fails
      (put_flow i ?fl (sv\<lparr>worker_pool := p\<rparr>), w)"
    if "unat (next_request_sequence fl - next_response_sequence fl) < max_in_flight_requests_per_connection sv" ok
    using Cons.IH [OF serving_submitted [OF serving that(1)]] p that(2) Cons.prems(2) by simp
  with at full refused p show ?case
    by (auto simp: s wp_eqs Let_def not_le split: prod.splits)
qed

text \<open>What a read does to the session it belongs to.\<close>

lemma net_recv:
  assumes "net_laws K N" "sys_recv K fd n w = (r, w')"
  shows "only_at N fd w w'" "wire N fd w' = wire N fd w"
    "received N fd w' @ inbound N fd w' = received N fd w @ inbound N fd w"
proof -
  note K = net_lawsD(1) [OF assms(1)]
  from net_lawsD(8) [OF assms(1)] assms(2) have law: "(\<forall>fd'. wire N fd' w' = wire N fd' w) \<and> opened N w' = opened N w \<and>
      (\<forall>fd'. fd' \<noteq> fd \<longrightarrow> received N fd' w' = received N fd' w) \<and>
      received N fd w' = received N fd w @ (case r of Inl e \<Rightarrow> [] | Inr bs \<Rightarrow> bs)"
    unfolding recv_observed_def by blast
  then show "only_at N fd w w'" "wire N fd w' = wire N fd w" by (auto simp: only_at_def)
  show "received N fd w' @ inbound N fd w' = received N fd w @ inbound N fd w"
    using law recv_takes_streamD [OF K, of fd n w _ w'] assms(2) by (cases r) auto
qed

lemma only_at_trans: "only_at N fd w w1 \<Longrightarrow> only_at N fd w1 w2 \<Longrightarrow> only_at N fd w w2"
  by (simp add: only_at_def)

lemma only_at_refl [simp]: "only_at N fd w w"
  by (simp add: only_at_def)

lemma read_effect:
  assumes laws: "net_laws K N" and "in_inv c" "out_inv c"
    and ret: "ReadAvailable K c mx w = Some (res, c', w')"
  shows "same_peer c c'" "only_at N (get (conn_fd c)) w w'"
    "wire N (get (conn_fd c)) w' = wire N (get (conn_fd c)) w" "pending c' = pending c"
    "\<exists>bs new e. received N (get (conn_fd c)) w' = received N (get (conn_fd c)) w @ bs \<and>
       parse_stream frame_verdict (unread (decoder c) @ bs) = (new, e, unread (decoder c')) \<and>
       read_report [] False bs new e c' res"
proof -
  let ?fd = "get (conn_fd c)"
  note K = net_lawsD(1) [OF laws]
  from ReadAvailable_post [OF K assms(2) ret] obtain bs new e where
    cons: "consumed (inbound N) bs new e c w c' w'" and report: "read_report [] False bs new e c' res"
    by (auto simp: read_post_def)
  from cons obtain d where d: "c' = c\<lparr>decoder := d\<rparr>" and "in_inv c'"
    by (auto simp: consumed_def)
  then show "same_peer c c'" "pending c' = pending c"
    using assms(3) by (auto simp: same_peer_def out_inv_def pending_def)
  show "only_at N ?fd w w'"
    by (rule ReadAvailable_system [where P = "only_at N ?fd w", OF _ _ ret])
      (auto dest: net_recv(1) [OF laws] intro: only_at_trans)
  show "wire N ?fd w' = wire N ?fd w"
    by (rule ReadAvailable_system [where P = "\<lambda>w'. wire N ?fd w' = wire N ?fd w", OF _ _ ret])
      (auto dest: net_recv(2) [OF laws])
  have "received N ?fd w' @ inbound N ?fd w' = received N ?fd w @ inbound N ?fd w"
    by (rule ReadAvailable_system [where P = "\<lambda>w'. received N ?fd w' @ inbound N ?fd w' =
          received N ?fd w @ inbound N ?fd w", OF _ _ ret])
      (auto dest: net_recv(3) [OF laws])
  with cons have "received N ?fd w' = received N ?fd w @ bs"
    by (simp add: consumed_def)
  with cons report show "\<exists>bs new e. received N ?fd w' = received N ?fd w @ bs \<and>
       parse_stream frame_verdict (unread (decoder c) @ bs) = (new, e, unread (decoder c')) \<and>
       read_report [] False bs new e c' res"
    by (auto simp: consumed_def)
qed

lemma serving_read:
  assumes laws: "net_laws K N" and serving: "serving h N todo [] i c fl (sv, w)"
    and ret: "ReadAvailable K c mx w = Some (res, c', w')"
  defines "sv' \<equiv> sv\<lparr>registry := Store i c' (registry sv)\<rparr>"
  shows "case res of Inl e \<Rightarrow> external e
    | Inr r \<Rightarrow> if ra_status r = kReadProtocolError then doomed h N todo i (sv', w')
               else serving h N todo (ra_messages r) i c' fl (sv', w')"
proof -
  let ?fd = "get (conn_fd c)"
  note conn = serving_conn [OF serving]
  note eff = read_effect [OF laws conn(1,2) ret]
  have at: "Find (registry sv) i = Some c" "find_flow i sv = Some fl" "Inv h N {i} todo (sv, w)"
    using serving by (auto simp: serving_def)
  have inv: "Inv h N {i} todo (sv', w')"
    unfolding sv'_def using Inv_store [OF Inv_only_at [OF at(3,1) eff(2)] at(1) eff(1)] .
  have fd: "get (conn_fd c') = ?fd" using eff(1) by (simp add: same_peer_def)
  from eff(5) obtain bs new e where r: "received N ?fd w' = received N ?fd w @ bs"
    "parse_stream frame_verdict (unread (decoder c) @ bs) = (new, e, unread (decoder c'))"
    "read_report [] False bs new e c' res" by blast
  show ?thesis
  proof (cases res)
    case (Inl x)
    with r(3) show ?thesis by (auto simp: read_report_def)
  next
    case (Inr x)
    have "serving h N todo (ra_messages x) i c' fl (sv', w')" if ok: "ra_status x \<noteq> kReadProtocolError"
    proof -
      have e: "e = None" "ra_messages x = new"
        using r(3) Inr ok by (auto simp: read_report_def split: ReadAvailableStatus.splits)
      from serving obtain n where n: "flow_tracks h (max_in_flight_requests_per_connection sv)
            (items_of i (accepted (worker_pool sv))) (results_for i (outstanding h (worker_pool sv) (todo @ completed_work sv))) n fl"
          "wire N ?fd w @ pending c = concat (map (\<lambda>it. frame_of (answer h it))
             (take n (items_of i (accepted (worker_pool sv)))))"
          "\<forall>it \<in> set (take n (items_of i (accepted (worker_pool sv)))). encodable (answer h it)"
          "parse_stream frame_verdict (received N ?fd w) =
             (map wi_request (items_of i (accepted (worker_pool sv))), None, unread (decoder c))"
        by (auto simp: serving_def session_def)
      have "parse_stream frame_verdict (received N ?fd w') =
          (map wi_request (items_of i (accepted (worker_pool sv))) @ new, None, unread (decoder c'))"
        using frames.parse_append [of "received N ?fd w" bs] n(4) r(1,2) e(1) by simp
      with n(1-3) eff(3,4) e(2) fd inv at show ?thesis
        by (auto simp: serving_def session_def sv'_def)
    qed
    with inv at Inr show ?thesis
      by (auto simp: doomed_def sv'_def)
  qed
qed

lemma read_and_submit_inv:
  assumes laws: "net_laws K N" and serving: "serving h N todo [] i c fl (sv, w)"
    and due: "completed_responses fl (next_response_sequence fl) = None"
  shows "wp (read_and_submit K i)
    (\<lambda>remove s. if remove then doomed h N todo i s else ready h N todo i s) fails (sv, w)"
proof -
  note K = net_lawsD(1,2) [OF laws]
  obtain res c' w' where ret: "ReadAvailable K c (max_read_bytes_per_event sv) w = Some (res, c', w')"
    using ReadAvailable_returns [OF K serving_conn(1) [OF serving]] by (metis prod_cases3)
  let ?sv' = "sv\<lparr>registry := Store i c' (registry sv)\<rparr>"
  note read = serving_read [OF laws serving ret]
  have at: "Find (registry sv) i = Some c" using serving by (simp add: serving_def)
  show ?thesis
  proof (cases res)
    case (Inl e)
    with read at ret show ?thesis
      by (auto simp: read_and_submit_def wp_eqs intro!: wp_on_connection)
  next
    case (Inr r)
    have "wp (SubmitWork i (ra_messages r))
        (\<lambda>submitted. wp (if ra_status r = kReadProtocolError then ret True
           else if ra_status r = kReadPeerClosed
           then seq (set_flow i (\<lambda>fl. fl\<lparr>close_after_flush := True\<rparr>)) (ret (\<not> submitted))
           else ret (\<not> submitted))
          (\<lambda>remove s. if remove then doomed h N todo i s else ready h N todo i s) fails) fails (?sv', w')"
    proof (cases "ra_status r = kReadProtocolError")
      case True
      with read Inr have "doomed h N todo i (?sv', w')" by simp
      from SubmitWork_doomed [OF this] True show ?thesis
        by (simp add: wp_eqs)
    next
      case False
      have flag: "doomed h N todo i (put_flow i fl' sv, w)" if "doomed h N todo i (sv, w)" for fl' sv w
        using that by (auto simp: doomed_def intro: Inv_put_flow)
      have flag': "ready h N todo i (put_flow i (fl\<lparr>close_after_flush := True\<rparr>) sv, w)"
        if "ready h N todo i (sv, w)" "find_flow i sv = Some fl" for fl sv w
        using that serving_put_flag(2) [of h N todo "[]" i _ fl sv w True]
        by (auto simp: ready_def serving_def)
      from False read Inr have "serving h N todo (ra_messages r) i c' fl (?sv', w')" by simp
      from SubmitWork_inv [OF this due] show ?thesis
        by (rule wp_mono)
          (auto simp: wp_eqs False split: if_splits option.splits prod.splits intro: flag flag'
            dest: doomed_flow)
    qed
    with Inr at ret show ?thesis
      by (auto simp: read_and_submit_def wp_andthen wp_server intro!: wp_on_connection split del: if_split)
  qed
qed

section \<open>Writing\<close>

lemma net_send:
  assumes "net_laws K N" "sys_send K fd bs w = (r, w')"
  shows "only_at N fd w w'" "received N fd w' = received N fd w"
  using net_lawsD(9) [OF assms(1)] assms(2) unfolding send_observed_def only_at_def by blast+

lemma write_effect:
  assumes laws: "net_laws K N" and "in_inv c" "out_inv c"
    and ret: "WriteAvailable K c mx w = Some (res, c', w')"
  shows "same_peer c c'" "only_at N (get (conn_fd c)) w w'"
    "received N (get (conn_fd c)) w' = received N (get (conn_fd c)) w" "decoder c' = decoder c"
    "wire N (get (conn_fd c)) w' @ pending c' = wire N (get (conn_fd c)) w @ pending c"
    "res = Inl e \<Longrightarrow> external e"
proof -
  let ?fd = "get (conn_fd c)"
  from WriteAvailable_post [OF net_lawsD(3) [OF laws] ret] obtain k where
    k: "wrote (wire N) k c w c' w'" and err: "res = Inl e \<Longrightarrow> \<exists>x. e = SyscallError ''send'' x" for e
    by (cases res) (auto simp: write_post_def)
  then show "same_peer c c'" "decoder c' = decoder c"
    "wire N ?fd w' @ pending c' = wire N ?fd w @ pending c" "res = Inl e \<Longrightarrow> external e"
    using assms(2,3) by (auto simp: wrote_def same_peer_def in_inv_def)
  show "only_at N ?fd w w'"
    by (rule WriteAvailable_system [where P = "only_at N ?fd w", OF _ _ ret])
      (auto dest: net_send(1) [OF laws] intro: only_at_trans)
  show "received N ?fd w' = received N ?fd w"
    by (rule WriteAvailable_system [where P = "\<lambda>w'. received N ?fd w' = received N ?fd w", OF _ _ ret])
      (auto dest: net_send(2) [OF laws])
qed

lemma write_pending_inv:
  assumes laws: "net_laws K N" and "ready h N todo i s"
  shows "wp (write_pending K i)
    (\<lambda>remove s. if remove then doomed h N todo i s else ready h N todo i s) fails s"
  using assms(2)
proof (cases rule: ready_cases)
  case (1 sv w c fl)
  note conn = serving_conn [OF 1(2)]
  obtain res c' w' where ret: "WriteAvailable K c (max_write_bytes_per_event sv) w = Some (res, c', w')"
    using WriteAvailable_returns [OF net_lawsD(3,4) [OF laws]] by (metis prod_cases3)
  note eff = write_effect [OF laws conn(1,2) ret]
  let ?sv' = "sv\<lparr>registry := Store i c' (registry sv)\<rparr>"
  have inv: "Inv h N {i} todo (?sv', w')"
    using Inv_store [OF Inv_only_at [OF 1(6,4) eff(2)] 1(4) eff(1)] .
  then have "doomed h N todo i (?sv', w')" using 1 by (simp add: doomed_def)
  moreover have "ready h N todo i (?sv', w')"
    using 1 inv eff(1,3,4,5) by (auto simp: ready_def serving_def session_def same_peer_def)
  ultimately show ?thesis
    using 1 ret eff(6) by (cases res) (auto simp: write_pending_def wp_eqs intro!: wp_on_connection)
qed

section \<open>Connection events\<close>

lemma HandleConnectionEvent_inv:
  assumes laws: "net_laws K N" and inv: "Inv h N {} todo s"
  shows "wp (HandleConnectionEvent K i events) (\<lambda>_. Inv h N {} todo) fails s"
proof -
  obtain sv w where s: "s = (sv, w)" by (cases s)
  note inv = inv [unfolded s]
  let ?verdict = "\<lambda>remove s. if remove then doomed h N todo i s else ready h N todo i s"
  show ?thesis
  proof (cases "Find (registry sv) i")
    case None
    then show ?thesis using inv by (simp add: s HandleConnectionEvent_def wp_eqs)
  next
    case (Some c)
    with Inv_flow [OF inv] obtain fl where fl: "find_flow i sv = Some fl" by fastforce
    note opened = serving_open [OF inv Some fl]
    have due: "completed_responses fl (next_response_sequence fl) = None"
      using opened(2) by (simp add: settled_def)
    have start: "?verdict b (sv, w)" for b
      using opened(1) due Some fl by (auto simp: ready_def doomed_def serving_def)
    let ?broken = "events AND EPOLLERR \<noteq> 0"
    let ?read = "if \<not> ?broken \<and> events AND (EPOLLIN OR EPOLLRDHUP OR EPOLLHUP) \<noteq> 0 \<and>
        \<not> close_after_flush fl then read_and_submit K i else ret ?broken"
    let ?writing = "\<lambda>remove. if \<not> remove \<and> events AND EPOLLOUT \<noteq> 0 then write_pending K i else ret remove"
    let ?verdict_acted = "\<lambda>remove. if remove then RemoveConnection K i
        else andthen (connection_at i) (\<lambda>c. andthen (flow_at i) (\<lambda>fl.
          if ShouldCloseAfterFlush c fl then RemoveConnection K i else UpdateInterest K i))"
    have 1: "wp ?read ?verdict fails (sv, w)"
      by (rule wp_cond) (rule read_and_submit_inv [OF laws opened(1) due], simp only: wp_ret, rule start)
    have 2: "wp (?writing remove) ?verdict fails s" if "?verdict remove s" for remove s
    proof (rule wp_cond)
      assume "\<not> remove \<and> events AND EPOLLOUT \<noteq> 0"
      with that show "wp (write_pending K i) ?verdict fails s"
        by (intro write_pending_inv [OF laws]) simp
    qed (simp only: wp_ret, rule that)
    have 3: "wp (?verdict_acted remove) (\<lambda>_. Inv h N {} todo) fails s" if "?verdict remove s" for remove s
    proof (cases remove)
      case True
      with that show ?thesis
        by (cases s) (auto simp: doomed_def intro: RemoveConnection_inv [OF laws])
    next
      case False
      with that have "ready h N todo i s" by simp
      then show ?thesis
        using False
        by (cases rule: ready_cases)
          (auto simp: wp_eqs intro: RemoveConnection_inv [OF laws] UpdateInterest_inv [OF laws])
    qed
    have "wp ?read (\<lambda>remove. wp (?writing remove) (\<lambda>remove. wp (?verdict_acted remove) (\<lambda>_. Inv h N {} todo) fails) fails)
        fails (sv, w)"
      using 1 by (rule wp_mono) (auto intro!: wp_mono [OF 2] 3 split del: if_split)
    with Some fl show ?thesis
      by (simp add: s HandleConnectionEvent_def wp_andthen wp_server Let_def split del: if_split)
  qed
qed

section \<open>New connections\<close>

lemma AcceptNonBlocking_inv:
  assumes laws: "net_laws K N"
  shows "wp (AcceptNonBlocking K lfd)
    (\<lambda>client (sv', w'). sv' = sv \<and>
       (if is_valid client then \<exists>w1. same_net N w w1 \<and> get client \<notin> opened N w1 \<and>
            opened N w' = insert (get client) (opened N w1) \<and>
            wire N (get client) w' = [] \<and> received N (get client) w' = [] \<and>
            (\<forall>x. x \<noteq> get client \<longrightarrow> received N x w' = received N x w1 \<and> wire N x w' = wire N x w1)
        else same_net N w w')) fails (sv, w)"
  unfolding AcceptNonBlocking_def
proof (rule wp_loop [where R = "measure (\<lambda>(_, _, w). patience N lfd w)" and
      I = "\<lambda>_ (sv', w'). sv' = sv \<and> same_net N w w'"])
  fix u :: unit and s :: "EpollEchoServer \<times> 'a"
  assume "case s of (sv', w') \<Rightarrow> sv' = sv \<and> same_net N w w'"
  then obtain w1 where s: "s = (sv, w1)" and quiet: "same_net N w w1" by (cases s) auto
  obtain r w2 where acc: "sys_accept K lfd AcceptNonblockCloexec w1 = (r, w2)" by (metis surj_pair)
  note law = net_lawsD(10) [OF laws, unfolded accept_observed_def, rule_format, OF acc]
  show "wp (andthen (syscall (sys_accept K lfd AcceptNonblockCloexec)) (\<lambda>r.
         case r of
           Inl e \<Rightarrow>
             if e = EINTR then ret (Inl ())
             else if IsWouldBlock e then ret (Inr default_UniqueFd)
             else throw (SyscallError ''accept4'' e)
         | Inr fd \<Rightarrow> ret (Inr (new_UniqueFd fd))))
     (\<lambda>y s'. case y of
        Inl x' \<Rightarrow> (case s' of (sv', w') \<Rightarrow> sv' = sv \<and> same_net N w w') \<and>
           ((x', s'), (u, s)) \<in> measure (\<lambda>(_, _, w). patience N lfd w)
      | Inr client \<Rightarrow> (case s' of (sv', w') \<Rightarrow> sv' = sv \<and>
          (if is_valid client then \<exists>w1. same_net N w w1 \<and> get client \<notin> opened N w1 \<and>
            opened N w' = insert (get client) (opened N w1) \<and>
            wire N (get client) w' = [] \<and> received N (get client) w' = [] \<and>
            (\<forall>x. x \<noteq> get client \<longrightarrow> received N x w' = received N x w1 \<and> wire N x w' = wire N x w1)
          else same_net N w w'))) fails s"
  proof (cases r)
    case (Inl e)
    moreover have "same_net N w w2" using law Inl same_net_trans [OF quiet] by simp
    moreover have "e = EINTR \<Longrightarrow> patience N lfd w2 < patience N lfd w1"
      using net_lawsD(5) [OF laws] acc Inl by (auto simp: accept_settles_def)
    ultimately show ?thesis
      using acc by (simp add: s wp_eqs is_valid_def default_UniqueFd_def)
  next
    case (Inr fd)
    with law quiet acc show ?thesis
      by (auto simp: s wp_eqs is_valid_def new_UniqueFd_def get_def const_defs)
  qed
qed simp_all

text \<open>The state after a client was accepted and before it is registered.\<close>

definition accepted_client :: "WorkHandler \<Rightarrow> 'w net \<Rightarrow> WorkResult list \<Rightarrow> UniqueFd \<Rightarrow> EpollEchoServer \<times> 'w \<Rightarrow> bool" where
  "accepted_client h N todo client = (\<lambda>(sv, w). Inv h N {} todo (sv, w) \<and> is_valid client \<and>
     wire N (get client) w = [] \<and> received N (get client) w = [] \<and> get client \<in> opened N w \<and>
     (\<forall>i c. Find (registry sv) i = Some c \<longrightarrow> get (conn_fd c) \<noteq> get client))"

lemma accept_inv:
  assumes laws: "net_laws K N" and inv: "Inv h N {} todo (sv, w)"
  shows "wp (AcceptNonBlocking K lfd)
    (\<lambda>client s. if is_valid client then accepted_client h N todo client s else Inv h N {} todo s) fails (sv, w)"
proof (rule wp_mono [OF AcceptNonBlocking_inv [OF laws, of lfd sv w]])
  fix client s'
  assume post: "case s' of (sv', w') \<Rightarrow> sv' = sv \<and>
       (if is_valid client then \<exists>w1. same_net N w w1 \<and> get client \<notin> opened N w1 \<and>
            opened N w' = insert (get client) (opened N w1) \<and>
            wire N (get client) w' = [] \<and> received N (get client) w' = [] \<and>
            (\<forall>x. x \<noteq> get client \<longrightarrow> received N x w' = received N x w1 \<and> wire N x w' = wire N x w1)
        else same_net N w w')"
  show "if is_valid client then accepted_client h N todo client s' else Inv h N {} todo s'"
  proof (cases "is_valid client")
    case False
    with post inv show ?thesis by (cases s') (auto intro: Inv_same_net)
  next
    case True
    with post obtain w' w1 where s': "s' = (sv, w')" and new: "same_net N w w1" "get client \<notin> opened N w1"
      "opened N w' = insert (get client) (opened N w1)"
      "wire N (get client) w' = []" "received N (get client) w' = []"
      "\<forall>x. x \<noteq> get client \<longrightarrow> received N x w' = received N x w1 \<and> wire N x w' = wire N x w1"
      by (cases s') auto
    have inv1: "Inv h N {} todo (sv, w1)" using inv new(1) by (rule Inv_same_net)
    have far: "get (conn_fd c) \<noteq> get client" if "Find (registry sv) i = Some c" for i c
      using InvD(2) [OF inv1] that new(2) unfolding descriptors_ok_def by metis
    have "Inv h N {} todo (sv, w')"
      using inv1 new(3,6) far InvD(2) [OF inv1] unfolding descriptors_ok_def
      by (intro Inv_far [OF inv1]) blast
    with True new far s' show ?thesis
      by (auto simp: accepted_client_def)
  qed
qed auto

lemma SetNonBlocking_quiet:
  assumes laws: "net_laws K N" and "SetNonBlocking K fd w = (r, w')"
  shows "same_net N w w'" "r = Inl e \<Longrightarrow> external e"
proof -
  have q: "sys_getfl K fd w = (a, w1) \<Longrightarrow> same_net N w w1" "sys_setfl K fd fl w2 = (b, w3) \<Longrightarrow> same_net N w2 w3"
    for a w1 fl w2 b w3
    using net_lawsD(12) [OF laws] unfolding others_quiet_def by (metis quietD)+
  show "same_net N w w'"
    using assms(2) by (auto simp: SetNonBlocking_def split: prod.splits sum.splits if_splits
        dest!: q intro: same_net_trans)
  show "r = Inl e \<Longrightarrow> external e"
    using assms(2) by (auto simp: SetNonBlocking_def split: prod.splits sum.splits if_splits)
qed

lemma Add_outcome:
  assumes laws: "net_laws K N" and "reg_inv r" "is_valid fd" "Add K fd r w = (a, r', w')"
  shows "a = Inl e \<Longrightarrow> external e" "a = Inr i \<Longrightarrow> same_net N w w'"
proof -
  note q = SetNonBlocking_quiet [OF laws]
  show "a = Inl e \<Longrightarrow> external e"
    using assms(3,4) registry_unused [OF assms(2)] q(2)
    by (auto simp: Add_def Let_def external_def split: if_splits prod.splits sum.splits)
  show "a = Inr i \<Longrightarrow> same_net N w w'"
    using assms(3,4) by (auto simp: Add_def Let_def split: if_splits prod.splits sum.splits dest!: q(1))
qed

lemma serving_new:
  assumes client: "accepted_client h N todo client (sv, w)" and room: "registry_size (registry sv) < max_connections sv"
    and add: "Add K client (registry sv) w = (Inr i, r, w')" and quiet: "same_net N w w'"
  shows "find_flow i sv = None" "Find r i = Some (new_Connection i client (reg_limits (registry sv)))"
    "serving h N todo [] i (new_Connection i client (reg_limits (registry sv))) new_ConnectionFlow
       (put_flow i new_ConnectionFlow (sv\<lparr>registry := r\<rparr>), w')"
proof -
  let ?c = "new_Connection i client (reg_limits (registry sv))"
  let ?sv = "put_flow i new_ConnectionFlow (sv\<lparr>registry := r\<rparr>)"
  have inv: "Inv h N {} todo (sv, w')"
    using client quiet by (auto simp: accepted_client_def intro: Inv_same_net)
  have reg: "reg_inv (registry sv)" using InvD(1) [OF inv] by (simp add: core_def)
  note new = registry.add_succeeds [OF reg add]
  have fresh: "Find (registry sv) i = None"
    using registry.look_given [OF reg, of i] new by (cases "Find (registry sv) i") auto
  then show "find_flow i sv = None" using Inv_flow [OF inv] by simp
  show "Find r i = Some ?c" using new by simp
  have limits: "reg_limits r = reg_limits (registry sv)" using registry_add(5) [OF reg add] by simp
  have "distinct (map fst (connection_flows ?sv))"
    using InvD(1) [OF inv] by (simp add: core_def put_flow_def distinct_update)
  then have core: "core ?sv"
    using InvD(1) [OF inv] new room by (auto simp: core_def)
  have client': "wire N (get client) w' = []" "received N (get client) w' = []" "get client \<in> opened N w'"
    "\<And>j d. Find (registry sv) j = Some d \<Longrightarrow> get (conn_fd d) \<noteq> get client"
    using client quiet by (auto simp: accepted_client_def same_net_def)
  have "descriptors_ok N r w'"
    using InvD(2) [OF inv] new client'(3,4) unfolding descriptors_ok_def
    by (auto split: if_splits) (metis client'(4))+
  with core inv new have inv': "Inv h N {i} todo (?sv, w')"
    by (auto simp: Inv_def)
  have "items_of i (accepted (worker_pool sv)) = []"
    using inv new by (auto simp: Inv_def items_of_def filter_empty_conv)
  moreover have "results_for i (outstanding h (worker_pool sv) (todo @ completed_work sv)) = {#}"
    using inv new by (auto simp: Inv_def results_for_def filter_mset_eq_conv)
  moreover have "parse_stream frame_verdict [] = ([], None, [])"
    by (simp add: frames.parse_rules TryDecodeFrame_short)
  ultimately have "session_at h N todo [] ?sv w' i ?c new_ConnectionFlow"
    using client'(1,2) tracks_new unfolding session_def
    by (intro exI [of _ 0]) (simp add: new_Connection_def pending_def)
  with inv' new show "serving h N todo [] i ?c new_ConnectionFlow (?sv, w')"
    by (simp add: serving_def)
qed

lemma register_connection_inv:
  assumes laws: "net_laws K N" and client: "accepted_client h N todo client (sv, w)"
    and room: "registry_size (registry sv) < max_connections sv"
  shows "wp (register_connection K client) (\<lambda>_. Inv h N {} todo) fails (sv, w)"
proof -
  obtain a r w' where add: "Add K client (registry sv) w = (a, r, w')" by (metis prod_cases3)
  have reg: "reg_inv (registry sv)" and valid: "is_valid client"
    using client by (auto simp: accepted_client_def Inv_def core_def)
  note outcome = Add_outcome [OF laws reg valid add]
  show ?thesis
  proof (cases a)
    case (Inl e)
    with add outcome show ?thesis
      by (simp add: register_connection_def add_to_registry_def wp_andthen) (simp add: wp_def)
  next
    case (Inr i)
    let ?c = "new_Connection i client (reg_limits (registry sv))"
    let ?sv = "put_flow i new_ConnectionFlow (sv\<lparr>registry := r\<rparr>)"
    note new = serving_new [OF client room add [unfolded Inr] outcome(2) [OF Inr]]
    have watched: "Inv h N {} todo
        (put_flow i (new_ConnectionFlow\<lparr>registered_with_epoll := True\<rparr>) ?sv, w1)"
      if "sys_epoll_ctl K (get (epoll sv)) EPOLL_CTL_ADD (get (conn_fd ?c)) ev w' = (Inr (), w1)" for ev w1
      using serving_done [OF serving_put_flag(1) [OF serving_same_net [OF new(3) net_epoll_ctl [OF laws that]]]]
      by (simp add: settled_def new_ConnectionFlow_def)
    have "wp (add_to_registry K client) Q E (sv, w) = Q i (sv\<lparr>registry := r\<rparr>, w')" for Q E
      by (simp add: add_to_registry_def wp_def add Inr)
    with new(1,2) watched show ?thesis
      by (auto simp: register_connection_def remove_from_registry_def wp_eqs
          split: prod.splits sum.splits)
  qed
qed

lemma refused_client_inv:
  assumes laws: "net_laws K N" and client: "accepted_client h N todo client (sv, w)"
  shows "wp (close_fd K client) (\<lambda>_. Inv h N {} todo) fails (sv, w)"
proof -
  let ?w = "sys_close K (get client) w"
  have net: "opened N ?w = opened N w - {get client}"
    "\<And>x. x \<noteq> get client \<Longrightarrow> wire N x ?w = wire N x w \<and> received N x ?w = received N x w"
    using net_lawsD(11) [OF laws] unfolding close_observed_def by blast+
  have inv: "Inv h N {} todo (sv, w)" and valid: "is_valid client"
    and far: "\<And>j d. Find (registry sv) j = Some d \<Longrightarrow> get (conn_fd d) \<noteq> get client"
    using client by (auto simp: accepted_client_def)
  have "Inv h N {} todo (sv, ?w)"
    using net far InvD(2) [OF inv] unfolding descriptors_ok_def
    by (intro Inv_far [OF inv]) blast
  with valid show ?thesis
    by (simp add: close_fd_def wp_eqs destroy_valid close_all_def)
qed

lemma accept_connections_inv:
  assumes laws: "net_laws K N" and "Inv h N {} todo s"
  shows "wp (accept_connections K n) (\<lambda>_. Inv h N {} todo) fails s"
  using assms(2)
proof (induction n arbitrary: s)
  case 0
  then show ?case by (simp add: wp_eqs)
next
  case (Suc n)
  obtain sv w where s: "s = (sv, w)" by (cases s)
  let ?rest = "\<lambda>client. if \<not> is_valid client then ret ()
       else
         andthen (server (\<lambda>sv. registry_size (registry sv) \<ge> max_connections sv)) (\<lambda>full.
           seq (if full then close_fd K client else register_connection K client)
             (accept_connections K n))"
  have "wp (?rest client) (\<lambda>_. Inv h N {} todo) fails s'"
    if "if is_valid client then accepted_client h N todo client s' else Inv h N {} todo s'" for client s'
  proof (cases "is_valid client")
    case False
    with that show ?thesis by (simp add: wp_eqs)
  next
    case True
    obtain sv w where s': "s' = (sv, w)" by (cases s')
    with True that have client: "accepted_client h N todo client (sv, w)" by simp
    let ?full = "registry_size (registry sv) \<ge> max_connections sv"
    have "wp (if ?full then close_fd K client else register_connection K client)
        (\<lambda>_. Inv h N {} todo) fails (sv, w)"
      by (rule wp_cond) (auto intro: refused_client_inv [OF laws client] register_connection_inv [OF laws client])
    then have "wp (if ?full then close_fd K client else register_connection K client)
        (\<lambda>_. wp (accept_connections K n) (\<lambda>_. Inv h N {} todo) fails) fails (sv, w)"
      by (rule wp_mono) (auto intro: Suc.IH)
    with True show ?thesis
      by (simp add: s' wp_andthen wp_seq wp_server del: wp_if)
  qed
  then have "wp (AcceptNonBlocking K (get (listener sv))) (\<lambda>client. wp (?rest client) (\<lambda>_. Inv h N {} todo) fails)
      fails (sv, w)"
    by (rule wp_mono [OF accept_inv [OF laws Suc.prems [unfolded s]]]) auto
  then show ?case
    by (simp add: s wp_andthen wp_server split del: if_split)
qed

section \<open>Wake-ups and signals\<close>

abbreviation server_inv :: "WorkHandler \<Rightarrow> 'w net \<Rightarrow> EpollEchoServer \<times> 'w \<Rightarrow> bool" where
  "server_inv h N \<equiv> Inv h N {} []"

lemma Inv_stop [simp]: "Inv h N D todo (sv\<lparr>stop_requested := b\<rparr>, w) = Inv h N D todo (sv, w)"
  by (simp add: Inv_def)

lemma net_quiet:
  assumes "net_laws K N"
  shows "sys_read K fd n w = (r, w') \<Longrightarrow> same_net N w w'"
    "sys_write_u64 K fd v w = (r, w') \<Longrightarrow> same_net N w w'"
    "sys_epoll_wait K ep n t w = (es, w') \<Longrightarrow> same_net N w w'"
  using net_lawsD(12) [OF assms] unfolding others_quiet_def by (metis quietD)+

lemma drain_fd_inv:
  assumes laws: "net_laws K N" and inv: "Inv h N {} todo s"
    and entry: "\<And>sv w. Inv h N {} todo (sv, w) \<Longrightarrow>
      wp on_entry (\<lambda>_ (sv', w'). Inv h N {} todo (sv', w') \<and> w' = w) fails (sv, w)"
    and short: "external (RuntimeError (name @ '': short read''))"
  shows "wp (drain_fd K fd n name on_entry) (\<lambda>_. Inv h N {} todo) fails s"
  unfolding drain_fd_def
proof (rule wp_loop [where R = "measure (\<lambda>(_, _, w). patience N (get fd) w)" and I = "\<lambda>_. Inv h N {} todo"])
  fix u :: unit and s :: "EpollEchoServer \<times> 'a"
  assume inv: "Inv h N {} todo s"
  obtain sv w r w' where s: "s = (sv, w)" and read: "sys_read K (get fd) n w = (r, w')"
    by (metis surj_pair)
  let ?Q = "\<lambda>y s'. case y of
      Inl x' \<Rightarrow> Inv h N {} todo s' \<and> ((x', s'), (u, s)) \<in> measure (\<lambda>(_, _, w). patience N (get fd) w)
    | Inr z \<Rightarrow> Inv h N {} todo s'"
  have inv': "Inv h N {} todo (sv, w')"
    using inv net_quiet(1) [OF laws read] unfolding s by (rule Inv_same_net)
  have less: "patience N (get fd) w' < patience N (get fd) w" if "r = Inr n \<or> r = Inl EINTR"
    using net_lawsD(6) [OF laws] read that unfolding read_settles_def by blast
  have "wp (seq on_entry (ret (Inl ()))) ?Q fails (sv, w')" if "r = Inr n"
    unfolding wp_seq wp_ret using entry [OF inv'] by (rule wp_mono) (use less that s in auto)
  with inv' less short read
  show "wp (andthen (syscall (sys_read K (get fd) n)) (\<lambda>r.
       case r of
         Inl e \<Rightarrow>
           if e = EINTR then ret (Inl ())
           else if IsWouldBlock e then ret (Inr ())
           else throw (SyscallError name e)
       | Inr k \<Rightarrow>
           if k = n then seq on_entry (ret (Inl ()))
           else if k \<noteq> 0 then throw (RuntimeError (name @ '': short read''))
           else ret (Inr ()))) ?Q fails s"
    by (cases r) (auto simp: s wp_andthen wp_syscall wp_ret wp_throw)
qed (use inv in simp_all)

lemma HandleWorkerWakeup_inv:
  assumes laws: "net_laws K N" and inv: "server_inv h N s"
  shows "wp (HandleWorkerWakeup K) (\<lambda>_. server_inv h N) fails s"
proof -
  obtain sv w where s: "s = (sv, w)" by (cases s)
  let ?rest = "andthen (server completed_work) (\<lambda>completed.
            seq (set_server (\<lambda>sv. sv\<lparr>completed_work := []\<rparr>))
              (for_each (HandleCompletedWork K) completed))"
  have rest: "wp ?rest (\<lambda>_. server_inv h N) fails s'" if "server_inv h N s'" for s'
  proof -
    obtain sv w where s': "s' = (sv, w)" by (cases s')
    have "Inv h N {} (completed_work sv @ []) (sv\<lparr>completed_work := []\<rparr>, w)"
      using that by (simp add: s' Inv_def)
    from completed_list_inv [OF laws this] show ?thesis
      by (simp add: s' wp_eqs)
  qed
  have "wp (drain_fd K (worker_wakeup sv) 8 ''read(eventfd)'' (ret ())) (\<lambda>_. server_inv h N) fails (sv, w)"
    using inv by (intro drain_fd_inv [OF laws]) (auto simp: s wp_eqs external_def)
  then have "wp (drain_fd K (worker_wakeup sv) 8 ''read(eventfd)'' (ret ()))
      (\<lambda>_. wp ?rest (\<lambda>_. server_inv h N) fails) fails (sv, w)"
    by (rule wp_mono) (auto intro: rest)
  then show ?thesis
    by (simp only: s HandleWorkerWakeup_def wp_andthen wp_seq wp_server prod.case)
qed

lemma HandleShutdownSignal_inv:
  assumes laws: "net_laws K N" and inv: "server_inv h N s"
  shows "wp (HandleShutdownSignal K) (\<lambda>_. server_inv h N) fails s"
proof -
  obtain sv w where s: "s = (sv, w)" by (cases s)
  have "wp (drain_fd K (shutdown_signal sv) 128 ''read(signalfd)'' (set_server (\<lambda>sv. sv\<lparr>stop_requested := True\<rparr>)))
      (\<lambda>_. server_inv h N) fails (sv, w)"
    using inv by (intro drain_fd_inv [OF laws]) (auto simp: s wp_eqs external_def)
  then show ?thesis
    by (simp only: s HandleShutdownSignal_def wp_andthen wp_server prod.case)
qed

lemma dispatch_inv:
  assumes "net_laws K N" "server_inv h N s"
  shows "wp (dispatch K event) (\<lambda>_. server_inv h N) fails s"
  unfolding dispatch_def Let_def HandleListenerEvent_def
  using assms
  by (intro wp_cond accept_connections_inv HandleWorkerWakeup_inv HandleShutdownSignal_inv
      HandleConnectionEvent_inv)

lemma handle_events_inv:
  assumes "net_laws K N" "server_inv h N s"
  shows "wp (handle_events K events) (\<lambda>_. server_inv h N) fails s"
  using assms(2)
proof (induction events arbitrary: s)
  case Nil
  then show ?case by (simp add: wp_eqs)
next
  case (Cons event events)
  have "wp (dispatch K event) (\<lambda>_. wp (handle_events K events) (\<lambda>_. server_inv h N) fails) fails s"
    using dispatch_inv [OF assms(1) Cons.prems] by (rule wp_mono) (auto intro: Cons.IH)
  with Cons.prems show ?case
    by (cases s) (simp add: wp_eqs)
qed

section \<open>Other threads\<close>

lemma NotifyWorkerWakeup_keeps:
  assumes settles: "write_settles K waits" and start: "P w"
    and keeps: "\<And>v r v'. P v \<Longrightarrow> sys_write_u64 K (get (worker_wakeup sv)) 1 v = (r, v') \<Longrightarrow> P v'"
  shows "wp (NotifyWorkerWakeup K) (\<lambda>_ (sv', w'). sv' = sv \<and> P w') E (sv, w)"
proof -
  let ?fd = "get (worker_wakeup sv)"
  let ?I = "\<lambda>_ (sv', w'). sv' = sv \<and> P w'"
  let ?R = "measure (\<lambda>(_, _, w). waits ?fd w)"
  have "wp (loop (\<lambda>_. andthen (syscall (sys_write_u64 K ?fd 1)) (\<lambda>r.
           ret (if r = Inl EINTR then Inl () else Inr ()))) ()) ?I E (sv, w)"
  proof (rule wp_loop [where R = ?R and I = ?I])
    fix u :: unit and s :: "EpollEchoServer \<times> 'a"
    assume "case s of (sv', w') \<Rightarrow> sv' = sv \<and> P w'"
    then obtain v where s: "s = (sv, v)" and v: "P v" by (cases s) auto
    obtain r v' where wr: "sys_write_u64 K ?fd 1 v = (r, v')" by (metis surj_pair)
    have "r = Inl EINTR \<Longrightarrow> waits ?fd v' < waits ?fd v"
      using settles wr unfolding write_settles_def by blast
    with keeps [OF v wr] wr show "wp (andthen (syscall (sys_write_u64 K ?fd 1)) (\<lambda>r.
           ret (if r = Inl EINTR then Inl () else Inr ())))
       (\<lambda>y s'. case y of
          Inl x' \<Rightarrow> (case s' of (sv', w') \<Rightarrow> sv' = sv \<and> P w') \<and> ((x', s'), (u, s)) \<in> ?R
        | Inr z \<Rightarrow> (case s' of (sv', w') \<Rightarrow> sv' = sv \<and> P w')) E s"
      by (simp add: s wp_eqs)
  qed (use start in simp_all)
  with start show ?thesis
    by (simp add: NotifyWorkerWakeup_def wp_eqs)
qed

lemma NotifyWorkerWakeup_inv:
  assumes laws: "net_laws K N" and inv: "Inv h N {} todo (sv, w)"
  shows "wp (NotifyWorkerWakeup K) (\<lambda>_ (sv', w'). sv' = sv \<and> Inv h N {} todo (sv', w')) (\<lambda>_ _. False) (sv, w)"
  by (rule wp_mono [OF NotifyWorkerWakeup_keeps [OF net_lawsD(7) [OF laws], where P = "\<lambda>w. Inv h N {} todo (sv, w)"]])
    (use inv net_quiet(2) [OF laws] in \<open>auto intro: Inv_same_net\<close>)

end
