(* ===== verification/Server_Setup.thy ===== *)
theory Server_Setup
  imports Echo_Server_Handlers
begin

unbundle bit_operations_syntax

text \<open>
  Building and destroying the server (\<^verbatim>\<open>src/network/epoll_echo_server.cpp\<close>): the helpers that create
  its descriptors, the signal mask that is saved and restored, the constructor with the destructors
  that run when it throws half-way, and the destructor. The lemmas show that a constructor that
  throws leaves no descriptor open and the signal mask as it was.
\<close>

section \<open>Calls that throw\<close>

definition check :: "string \<Rightarrow> ('w \<Rightarrow> (errno + 'a) \<times> 'w) \<Rightarrow> ('w, 'a) io" where
  "check name call =
     andthen (act call) (\<lambda>r. case r of Inl e \<Rightarrow> throw (SyscallError name e) | Inr x \<Rightarrow> ret x)"

definition create_fd :: "string \<Rightarrow> ('w \<Rightarrow> (errno + int) \<times> 'w) \<Rightarrow> ('w, UniqueFd) io" where
  "create_fd name call = andthen (check name call) (\<lambda>fd. ret (new_UniqueFd fd))"

definition lift_exn :: "exn + 'a \<Rightarrow> ('w, 'a) io" where
  "lift_exn r = (case r of Inl e \<Rightarrow> throw e | Inr x \<Rightarrow> ret x)"

text \<open>A scope that owns a descriptor: an exception that leaves it closes the descriptor.\<close>

definition owning :: "'w sys \<Rightarrow> UniqueFd \<Rightarrow> ('w, 'a) io \<Rightarrow> ('w, 'a) io" where
  "owning K fd m = unwinding (modify (close_all K (destroy fd))) m"

section \<open>Addresses\<close>

text \<open>The byte order of a little-endian machine.\<close>

definition htons :: "u16 \<Rightarrow> u16" where
  "htons x = push_bit 8 x OR drop_bit 8 x"

abbreviation ntohs :: "u16 \<Rightarrow> u16" where
  "ntohs \<equiv> htons"

definition htonl :: "u32 \<Rightarrow> u32" where
  "htonl x = push_bit 24 x OR (push_bit 8 x AND 0x00FF0000) OR (drop_bit 8 x AND 0x0000FF00) OR drop_bit 24 x"

definition INADDR_LOOPBACK :: u32 where
  "INADDR_LOOPBACK = 0x7F000001"

definition LoopbackAddress :: "u16 \<Rightarrow> sockaddr_in" where
  "LoopbackAddress p = \<lparr>sin_addr = htonl INADDR_LOOPBACK, sin_port = htons p\<rparr>"

definition BoundPort :: "'w sys \<Rightarrow> int \<Rightarrow> ('w, u16) io" where
  "BoundPort K fd =
     andthen (check ''getsockname'' (sys_getsockname K fd)) (\<lambda>address. ret (ntohs (sin_port address)))"

section \<open>Descriptors and budgets\<close>

definition RequirePositiveBudget :: "nat \<Rightarrow> string \<Rightarrow> ('w, nat) io" where
  "RequirePositiveBudget v name =
     (if v = 0 then throw (InvalidArgument (name @ '' must be greater than zero'')) else ret v)"

definition RequireConnectionLimits :: "ConnectionLimits \<Rightarrow> ('w, ConnectionLimits) io" where
  "RequireConnectionLimits lim =
     andthen (RequirePositiveBudget (max_input_buffer lim) ''max input buffer'') (\<lambda>input.
     andthen (RequirePositiveBudget (max_output_buffer lim) ''max output buffer'') (\<lambda>output.
       ret (lim\<lparr>max_input_buffer := input, max_output_buffer := output\<rparr>)))"

definition CreateListener :: "'w sys \<Rightarrow> u16 \<Rightarrow> ('w, UniqueFd) io" where
  "CreateListener K p =
     andthen (create_fd ''socket'' (sys_socket K SocketNonblockCloexec)) (\<lambda>l.
       owning K l
         (seq (check ''setsockopt(SO_REUSEADDR)'' (sys_reuseaddr K (get l)))
         (seq (check ''bind'' (sys_bind K (get l) (LoopbackAddress p)))
         (seq (check ''listen'' (sys_listen K (get l) kListenBacklog))
            (ret l)))))"

definition CreateEpoll :: "'w sys \<Rightarrow> ('w, UniqueFd) io" where
  "CreateEpoll K = create_fd ''epoll_create1'' (sys_epoll_create1 K)"

definition CreateWorkerWakeup :: "'w sys \<Rightarrow> ('w, UniqueFd) io" where
  "CreateWorkerWakeup K = create_fd ''eventfd'' (sys_eventfd K)"

section \<open>Signals\<close>

fun add_signals :: "'w sys \<Rightarrow> int list \<Rightarrow> int list \<Rightarrow> ('w, int list) io" where
  "add_signals K signal_set [] = ret signal_set"
| "add_signals K signal_set (signal # signals) =
     (case lib_sigaddset K signal_set signal of
        Inl e \<Rightarrow> throw (SyscallError ''sigaddset'' e)
      | Inr signal_set' \<Rightarrow> add_signals K signal_set' signals)"

definition BuildSignalSet :: "'w sys \<Rightarrow> int list \<Rightarrow> ('w, int list) io" where
  "BuildSignalSet K signals =
     (case lib_sigemptyset K of
        Inl e \<Rightarrow> throw (SyscallError ''sigemptyset'' e)
      | Inr signal_set \<Rightarrow> add_signals K signal_set signals)"

definition new_ShutdownSignalMaskState :: ShutdownSignalMaskState where
  "new_ShutdownSignalMaskState = \<lparr>previous_mask = [], mask_active = False\<rparr>"

definition BlockShutdownSignals :: "'w sys \<Rightarrow> int list \<Rightarrow> ('w, ShutdownSignalMaskState) io" where
  "BlockShutdownSignals K signals =
     (if signals = [] then ret new_ShutdownSignalMaskState
      else
        andthen (BuildSignalSet K signals) (\<lambda>signal_set.
        andthen (check ''pthread_sigmask(SIG_BLOCK)'' (sys_sigmask K SIG_BLOCK signal_set)) (\<lambda>previous.
          ret (new_ShutdownSignalMaskState\<lparr>previous_mask := previous, mask_active := True\<rparr>))))"

definition CreateShutdownSignalFd :: "'w sys \<Rightarrow> int list \<Rightarrow> ('w, UniqueFd) io" where
  "CreateShutdownSignalFd K signals =
     (if signals = [] then ret default_UniqueFd
      else andthen (BuildSignalSet K signals) (\<lambda>signal_set. create_fd ''signalfd'' (sys_signalfd K signal_set)))"

definition Restore ::
  "'w sys \<Rightarrow> ShutdownSignalMaskState \<Rightarrow> ('w, ShutdownSignalMaskState) io" where
  "Restore K st =
     (if \<not> mask_active st then ret st
      else
        andthen (act (sys_sigmask K SIG_SETMASK (previous_mask st))) (\<lambda>ignored.
          ret (st\<lparr>mask_active := False\<rparr>)))"

definition destroy_mask :: "'w sys \<Rightarrow> ShutdownSignalMaskState \<Rightarrow> ('w, unit) io" where
  "destroy_mask K st = andthen (Restore K st) (\<lambda>st'. ret ())"

text \<open>The move constructor, and the move assignment to another object.\<close>

definition move_mask ::
  "ShutdownSignalMaskState \<Rightarrow> ShutdownSignalMaskState \<times> ShutdownSignalMaskState" where
  "move_mask other =
     (\<lparr>previous_mask = previous_mask other, mask_active = mask_active other\<rparr>, other\<lparr>mask_active := False\<rparr>)"

definition move_assign_mask ::
  "'w sys \<Rightarrow> ShutdownSignalMaskState \<Rightarrow> ShutdownSignalMaskState \<Rightarrow>
   ('w, ShutdownSignalMaskState \<times> ShutdownSignalMaskState) io" where
  "move_assign_mask K this other =
     andthen (Restore K this) (\<lambda>this.
       ret (this\<lparr>previous_mask := previous_mask other, mask_active := mask_active other\<rparr>,
            other\<lparr>mask_active := False\<rparr>))"

section \<open>The constructor\<close>

definition AddListenerToEpoll :: "'w sys \<Rightarrow> ('w, unit) server_io" where
  "AddListenerToEpoll K =
     andthen (server (\<lambda>sv. (get (epoll sv), get (listener sv)))) (\<lambda>(ep, fd).
       EpollCtl K ep EPOLL_CTL_ADD fd (Some ListenerEvent) ''epoll_ctl(ADD listener)'')"

definition AddWorkerWakeupToEpoll :: "'w sys \<Rightarrow> ('w, unit) server_io" where
  "AddWorkerWakeupToEpoll K =
     andthen (server (\<lambda>sv. (get (epoll sv), get (worker_wakeup sv)))) (\<lambda>(ep, fd).
       EpollCtl K ep EPOLL_CTL_ADD fd (Some WorkerWakeupEvent) ''epoll_ctl(ADD worker wakeup)'')"

definition AddShutdownSignalToEpoll :: "'w sys \<Rightarrow> ('w, unit) server_io" where
  "AddShutdownSignalToEpoll K =
     andthen (server (\<lambda>sv. (get (epoll sv), shutdown_signal sv))) (\<lambda>(ep, fd).
       if \<not> is_valid fd then ret ()
       else EpollCtl K ep EPOLL_CTL_ADD (get fd) (Some ShutdownSignalEvent) ''epoll_ctl(ADD shutdown signal)'')"

definition constructor_body :: "'w sys \<Rightarrow> ('w, unit) server_io" where
  "constructor_body K =
     andthen (server (\<lambda>sv. get (listener sv))) (\<lambda>fd.
     andthen (on_world (BoundPort K fd)) (\<lambda>p.
       seq (set_server (\<lambda>sv. sv\<lparr>server_port := p\<rparr>))
       (seq (AddListenerToEpoll K)
       (seq (AddWorkerWakeupToEpoll K)
          (AddShutdownSignalToEpoll K)))))"

definition build :: "EpollEchoServer \<Rightarrow> ('w, unit) server_io \<Rightarrow> ('w, EpollEchoServer) io" where
  "build sv body w =
     (case body (sv, w) of
        None \<Rightarrow> None
      | Some (Inl e, (sv', w')) \<Rightarrow> Some (Inl e, w')
      | Some (Inr _, (sv', w')) \<Rightarrow> Some (Inr sv', w'))"

text \<open>
  The members are initialised in the order of their declaration, and destroyed in the opposite
  order when a later initialiser or the body throws. The pool's threads have no work yet, so that
  stopping them touches nothing else. \<open>spawn\<close> says which thread creations fail.
\<close>

definition new_EpollEchoServer ::
  "'w sys \<Rightarrow> (nat \<Rightarrow> exn option) \<Rightarrow> u16 \<Rightarrow> EpollEchoServerOptions \<Rightarrow> ('w, EpollEchoServer) io" where
  "new_EpollEchoServer K spawn p options =
     andthen (CreateListener K p) (\<lambda>l. owning K l (
     andthen (CreateEpoll K) (\<lambda>ep. owning K ep (
     andthen (BlockShutdownSignals K (opt_shutdown_signals options)) (\<lambda>mask. unwinding (destroy_mask K mask) (
     andthen (CreateWorkerWakeup K) (\<lambda>wakeup. owning K wakeup (
     andthen (CreateShutdownSignalFd K (opt_shutdown_signals options)) (\<lambda>sig. owning K sig (
     andthen (RequireConnectionLimits (opt_connection_limits options)) (\<lambda>lim.
     andthen (RequirePositiveBudget (opt_max_read_bytes_per_event options) ''max read bytes per event'') (\<lambda>max_read.
     andthen (RequirePositiveBudget (opt_max_write_bytes_per_event options) ''max write bytes per event'') (\<lambda>max_write.
     andthen (RequirePositiveBudget (opt_max_connections options) ''max connections'') (\<lambda>max_conn.
     andthen (RequirePositiveBudget (opt_max_in_flight_requests_per_connection options)
               ''max in-flight requests per connection'') (\<lambda>max_flight.
     andthen (lift_exn (new_WorkerPool
               \<lparr>worker_count = opt_worker_count options, queue_capacity = opt_work_queue_capacity options\<rparr>
               True (opt_handler options) spawn)) (\<lambda>pool.
       build \<lparr>listener = l, epoll = ep, signal_mask_state = mask, worker_wakeup = wakeup,
              shutdown_signal = sig, server_port = 0, registry = new_ConnectionRegistry lim,
              connection_flows = [], completed_work = [], stop_requested = False,
              max_read_bytes_per_event = max_read, max_write_bytes_per_event = max_write,
              max_connections = max_conn, max_in_flight_requests_per_connection = max_flight,
              worker_pool = pool\<rparr>
         (constructor_body K)))))))))))))))))"

section \<open>The destructor\<close>

text \<open>
  Destroying the members, last to first: the connections that are still registered, the two
  wake-up descriptors, the signal mask, epoll and the listener.
\<close>

definition destroy_members :: "'w sys \<Rightarrow> ('w, unit) server_io" where
  "destroy_members K =
     seq (act (\<lambda>(sv, w). ((), (sv, close_all K
            (concat (map (\<lambda>(k, c). destroy (conn_fd c)) (connections (registry sv)))) w))))
     (andthen (server shutdown_signal) (\<lambda>sig. seq (close_fd K sig)
     (andthen (server worker_wakeup) (\<lambda>wakeup. seq (close_fd K wakeup)
     (andthen (server signal_mask_state) (\<lambda>mask. seq (on_world (destroy_mask K mask))
     (andthen (server epoll) (\<lambda>ep. seq (close_fd K ep)
     (andthen (server listener) (\<lambda>l. close_fd K l))))))))))"

text \<open>\<open>join\<close> is what the worker threads still do until the joins in \<^verbatim>\<open>WorkerPool::Stop\<close> return.\<close>

definition delete_EpollEchoServer ::
  "'w sys \<Rightarrow> (EpollEchoServer \<times> 'w \<Rightarrow> EpollEchoServer \<times> 'w) \<Rightarrow> ('w, unit) server_io" where
  "delete_EpollEchoServer K join =
     seq (Stop K)
     (seq (set_server (\<lambda>sv. sv\<lparr>worker_pool := StopPool (worker_pool sv)\<rparr>))
     (seq (modify join)
     (andthen (server signal_mask_state) (\<lambda>mask.
      andthen (on_world (Restore K mask)) (\<lambda>mask.
      seq (set_server (\<lambda>sv. sv\<lparr>signal_mask_state := mask\<rparr>))
        (destroy_members K))))))"

section \<open>Descriptors and the signal mask during construction\<close>

text \<open>
  Documented behaviour of the calls that set a server up: a creating call returns a descriptor that
  was not open or opens none, and the other calls open and close nothing; only
  \<^verbatim>\<open>pthread_sigmask\<close> changes the mask, returns the old one, and succeeds in setting a mask; the sources only set one that
  was in force before, so that the signals that cannot be blocked are not in it.
\<close>

definition creates :: "'w net \<Rightarrow> ('w \<Rightarrow> (errno + int) \<times> 'w) \<Rightarrow> bool" where
  "creates N call \<longleftrightarrow>
     (\<forall>w. case call w of
        (Inl e, w') \<Rightarrow> opened N w' = opened N w
      | (Inr fd, w') \<Rightarrow> 0 \<le> fd \<and> fd \<notin> opened N w \<and> opened N w' = insert fd (opened N w))"

definition keeps :: "('w \<Rightarrow> 'm) \<Rightarrow> ('w \<Rightarrow> 'a \<times> 'w) \<Rightarrow> bool" where
  "keeps f call \<longleftrightarrow> (\<forall>w. f (snd (call w)) = f w)"

definition setup_laws :: "'w sys \<Rightarrow> 'w net \<Rightarrow> ('w \<Rightarrow> int list) \<Rightarrow> bool" where
  "setup_laws K N sm \<longleftrightarrow>
     (\<forall>fl. creates N (sys_socket K fl) \<and> keeps sm (sys_socket K fl)) \<and>
     creates N (sys_epoll_create1 K) \<and> keeps sm (sys_epoll_create1 K) \<and>
     creates N (sys_eventfd K) \<and> keeps sm (sys_eventfd K) \<and>
     (\<forall>ss. creates N (sys_signalfd K ss) \<and> keeps sm (sys_signalfd K ss)) \<and>
     (\<forall>fd. keeps (opened N) (sys_reuseaddr K fd) \<and> keeps sm (sys_reuseaddr K fd)) \<and>
     (\<forall>fd a. keeps (opened N) (sys_bind K fd a) \<and> keeps sm (sys_bind K fd a)) \<and>
     (\<forall>fd n. keeps (opened N) (sys_listen K fd n) \<and> keeps sm (sys_listen K fd n)) \<and>
     (\<forall>fd. keeps (opened N) (sys_getsockname K fd) \<and> keeps sm (sys_getsockname K fd)) \<and>
     (\<forall>ep op fd ev. keeps (opened N) (sys_epoll_ctl K ep op fd ev) \<and> keeps sm (sys_epoll_ctl K ep op fd ev)) \<and>
     (\<forall>fd n. keeps (opened N) (sys_write_u64 K fd n) \<and> keeps sm (sys_write_u64 K fd n)) \<and>
     (\<forall>fd w. opened N (sys_close K fd w) = opened N w - {fd} \<and> sm (sys_close K fd w) = sm w) \<and>
     (\<forall>how ss. keeps (opened N) (sys_sigmask K how ss)) \<and>
     (\<forall>ss w e w'. sys_sigmask K SIG_BLOCK ss w = (Inl e, w') \<longrightarrow> sm w' = sm w) \<and>
     (\<forall>ss w old w'. sys_sigmask K SIG_BLOCK ss w = (Inr old, w') \<longrightarrow> old = sm w) \<and>
     (\<forall>ss w. sm (snd (sys_sigmask K SIG_SETMASK ss w)) = ss)"

lemma keepsD: "keeps f call \<Longrightarrow> call w = (r, w') \<Longrightarrow> f w' = f w"
  unfolding keeps_def by (metis snd_conv)

lemma setup_calls:
  assumes "setup_laws K N sm"
  shows "sys_epoll_ctl K ep op fd ev w = (r, w') \<Longrightarrow> opened N w' = opened N w \<and> sm w' = sm w"
    "sys_write_u64 K fd n w = (q, w') \<Longrightarrow> opened N w' = opened N w \<and> sm w' = sm w"
    "opened N (sys_close K fd w) = opened N w - {fd}" "sm (sys_close K fd w) = sm w"
    "sys_sigmask K how ss w = (x, w') \<Longrightarrow> opened N w' = opened N w"
    "sys_sigmask K SIG_BLOCK ss w = (Inl e, w') \<Longrightarrow> sm w' = sm w"
    "sys_sigmask K SIG_BLOCK ss w = (Inr old, w') \<Longrightarrow> old = sm w"
    "sys_sigmask K SIG_SETMASK ss w = (x, w') \<Longrightarrow> sm w' = ss"
proof -
  have k: "keeps (opened N) (sys_epoll_ctl K ep op fd ev)" "keeps sm (sys_epoll_ctl K ep op fd ev)"
    "keeps (opened N) (sys_write_u64 K fd n)" "keeps sm (sys_write_u64 K fd n)"
    "keeps (opened N) (sys_sigmask K how ss)"
    using assms by (simp_all add: setup_laws_def)
  show "sys_epoll_ctl K ep op fd ev w = (r, w') \<Longrightarrow> opened N w' = opened N w \<and> sm w' = sm w"
    "sys_write_u64 K fd n w = (q, w') \<Longrightarrow> opened N w' = opened N w \<and> sm w' = sm w"
    "sys_sigmask K how ss w = (x, w') \<Longrightarrow> opened N w' = opened N w"
    by (simp_all add: k [THEN keepsD])
  have "sm (snd (sys_sigmask K SIG_SETMASK ss w)) = ss"
    using assms by (simp add: setup_laws_def)
  then show "sys_sigmask K SIG_SETMASK ss w = (x, w') \<Longrightarrow> sm w' = ss" by simp
qed (use assms in \<open>unfold setup_laws_def, blast+\<close>)

text \<open>The descriptors that are open and the signal mask.\<close>

definition at :: "'w net \<Rightarrow> ('w \<Rightarrow> int list) \<Rightarrow> int set \<Rightarrow> int list \<Rightarrow> 'w \<Rightarrow> bool" where
  "at N sm os m w \<longleftrightarrow> opened N w = os \<and> sm w = m"

lemma check_keeps:
  assumes "keeps (opened N) call" "keeps sm call" "at N sm os m w"
  shows "wp (check name call) (\<lambda>_. at N sm os m) (\<lambda>_. at N sm os m) w"
  using assms by (auto simp: check_def wp_eqs at_def keeps_def split: sum.splits prod.splits) (metis snd_conv)+

lemma create_fd_opens:
  assumes "creates N call" "keeps sm call" "at N sm os m w"
  shows "wp (create_fd name call)
    (\<lambda>fd w'. is_valid fd \<and> get fd \<notin> os \<and> at N sm (insert (get fd) os) m w') (\<lambda>_. at N sm os m) w"
proof (cases "call w")
  case (Pair r w')
  have "sm w' = sm w" using assms(2) Pair unfolding keeps_def by (metis snd_conv)
  moreover have "case r of Inl e \<Rightarrow> opened N w' = opened N w
      | Inr fd \<Rightarrow> 0 \<le> fd \<and> fd \<notin> opened N w \<and> opened N w' = insert fd (opened N w)"
    using assms(1) [unfolded creates_def, rule_format, of w] Pair by (simp split: sum.splits)
  ultimately show ?thesis
    using assms(3) Pair
    by (cases r) (auto simp: create_fd_def check_def wp_eqs at_def is_valid_def get_def new_UniqueFd_def kInvalidFd_def)
qed

lemma close_all_at:
  assumes "setup_laws K N sm" "at N sm os m w"
  shows "at N sm (os - set fds) m (close_all K fds w)"
  using assms(2)
proof (induction fds arbitrary: os w)
  case (Cons fd fds)
  have "at N sm (os - {fd}) m (sys_close K fd w)"
    using assms(1) Cons.prems by (simp add: setup_laws_def at_def)
  from Cons.IH [OF this] have "at N sm (os - {fd} - set fds) m (close_all K (fd # fds) w)"
    by (simp add: close_all_def)
  moreover have "os - {fd} - set fds = os - set (fd # fds)" by auto
  ultimately show ?case by simp
qed (simp add: close_all_def)

lemma wp_owning:
  assumes laws: "setup_laws K N sm" and m: "wp p Q (\<lambda>_. at N sm (set (destroy fd) \<union> os) m) w"
    and "set (destroy fd) \<inter> os = {}"
  shows "wp (owning K fd p) Q (\<lambda>_. at N sm os m) w"
proof -
  have "at N sm os m (close_all K (destroy fd) w')" if "at N sm (set (destroy fd) \<union> os) m w'" for w'
    using close_all_at [OF laws that, of "destroy fd"] assms(3) by (simp add: Un_Diff Diff_triv Int_commute)
  with m show ?thesis by (auto simp: owning_def wp_eqs elim!: wp_mono)
qed

lemma set_destroy: "set (destroy fd) = (if is_valid fd then {get fd} else {})"
  by (auto simp: destroy_def reset_def is_valid_def get_def kInvalidFd_def)

lemma wp_keep:
  assumes "wp p (\<lambda>x w'. R x w') (\<lambda>_. at N sm os m) w" "\<And>x w'. R x w' \<Longrightarrow> wp (f x) Q (\<lambda>_. at N sm os m) w'"
  shows "wp (andthen p f) Q (\<lambda>_. at N sm os m) w"
  using assms by (auto simp: wp_eqs elim!: wp_mono)

text \<open>One step of the constructor: a descriptor is created and owned by the rest.\<close>

lemma wp_create_owning:
  assumes laws: "setup_laws K N sm"
    and created: "wp p (\<lambda>fd w'. is_valid fd \<and> get fd \<notin> os \<and> at N sm (insert (get fd) os) m w')
      (\<lambda>_. at N sm os m) w"
    and rest: "\<And>fd w'. is_valid fd \<Longrightarrow> get fd \<notin> os \<Longrightarrow> at N sm (insert (get fd) os) m w' \<Longrightarrow>
      wp (f fd) Q (\<lambda>_. at N sm (insert (get fd) os) m) w'"
  shows "wp (andthen p (\<lambda>fd. owning K fd (f fd))) Q (\<lambda>_. at N sm os m) w"
  by (rule wp_keep [OF created], rule wp_owning [OF laws]) (use rest in \<open>simp_all add: set_destroy\<close>)

lemma listener_opens:
  assumes laws: "setup_laws K N sm" and "at N sm os m w"
  shows "wp (andthen (create_fd ''socket'' (sys_socket K flags)) (\<lambda>l.
       owning K l
         (seq (check ''setsockopt(SO_REUSEADDR)'' (sys_reuseaddr K (get l)))
         (seq (check ''bind'' (sys_bind K (get l) address))
         (seq (check ''listen'' (sys_listen K (get l) backlog))
            (ret l))))))
    (\<lambda>fd w'. is_valid fd \<and> get fd \<notin> os \<and> at N sm (insert (get fd) os) m w') (\<lambda>_. at N sm os m) w"
proof (rule wp_create_owning [OF laws create_fd_opens])
  fix fd w'
  assume fd: "is_valid fd" "get fd \<notin> os" "at N sm (insert (get fd) os) m w'"
  let ?at = "at N sm (insert (get fd) os) m"
  have k: "wp (check n c) (\<lambda>_. ?at) (\<lambda>_. ?at) w''"
    if "?at w''" "c = sys_reuseaddr K f \<or> c = sys_bind K f a \<or> c = sys_listen K f b" for n c w'' f a b
    using that laws by (intro check_keeps) (auto simp: setup_laws_def)
  show "wp (seq (check ''setsockopt(SO_REUSEADDR)'' (sys_reuseaddr K (get fd)))
         (seq (check ''bind'' (sys_bind K (get fd) address))
         (seq (check ''listen'' (sys_listen K (get fd) backlog)) (ret fd))))
     (\<lambda>fd w'. is_valid fd \<and> get fd \<notin> os \<and> at N sm (insert (get fd) os) m w') (\<lambda>_. ?at) w'"
    unfolding seq_def
    by (rule wp_keep [OF k [OF fd(3)]], blast, rule wp_keep [OF k], assumption, blast, rule wp_keep [OF k], assumption, blast)
      (simp add: wp_eqs fd)
qed (use assms in \<open>simp_all add: setup_laws_def\<close>)

lemmas CreateListener_opens = listener_opens [where flags = SocketNonblockCloexec and backlog = kListenBacklog
  and address = "LoopbackAddress p", folded CreateListener_def] for p

text \<open>The signal set does not touch the system, and the mask is either untouched or saved.\<close>

lemma BuildSignalSet_pure: "wp (BuildSignalSet K signals) (\<lambda>_ w'. w' = w) (\<lambda>_ w'. w' = w) w"
proof -
  have "wp (add_signals K ss signals) (\<lambda>_ w'. w' = w) (\<lambda>_ w'. w' = w) w" for ss
    by (induction K ss signals rule: add_signals.induct) (auto simp: wp_eqs split: sum.splits)
  then show ?thesis by (auto simp: BuildSignalSet_def wp_eqs split: sum.splits)
qed

definition mask_saved :: "('w \<Rightarrow> int list) \<Rightarrow> int list \<Rightarrow> ShutdownSignalMaskState \<Rightarrow> 'w \<Rightarrow> bool" where
  "mask_saved sm m st w \<longleftrightarrow> (if mask_active st then previous_mask st = m else sm w = m)"

lemma BlockShutdownSignals_saves:
  assumes laws: "setup_laws K N sm" and w: "at N sm os m w"
  shows "wp (BlockShutdownSignals K signals)
    (\<lambda>st w'. at N sm os (sm w') w' \<and> mask_saved sm m st w' \<and> (mask_active st \<longleftrightarrow> signals \<noteq> [])) (\<lambda>_. at N sm os m) w"
proof (cases "signals = []")
  case True
  with w show ?thesis
    by (simp add: BlockShutdownSignals_def wp_eqs mask_saved_def new_ShutdownSignalMaskState_def at_def)
next
  case False
  have "wp (BuildSignalSet K signals) (\<lambda>_ w'. w' = w) (\<lambda>_. at N sm os m) w"
    by (rule wp_mono [OF BuildSignalSet_pure]) (use w in auto)
  moreover have "wp (check ''pthread_sigmask(SIG_BLOCK)'' (sys_sigmask K SIG_BLOCK ss))
      (\<lambda>old w'. at N sm os (sm w') w' \<and> old = m) (\<lambda>_. at N sm os m) w" for ss
  proof -
    obtain r w' where r: "sys_sigmask K SIG_BLOCK ss w = (r, w')" by (metis surj_pair)
    show ?thesis
    proof (cases r)
      case (Inl e)
      with r w setup_calls(5,6) [OF laws r [unfolded Inl]] show ?thesis by (simp add: check_def wp_eqs at_def)
    next
      case (Inr old)
      with r w setup_calls(5,7) [OF laws r [unfolded Inr]] show ?thesis by (simp add: check_def wp_eqs at_def)
    qed
  qed
  ultimately show ?thesis
    using False unfolding BlockShutdownSignals_def
    by (auto intro!: wp_keep simp: mask_saved_def new_ShutdownSignalMaskState_def wp_eqs elim!: wp_mono)
qed

lemma wp_masked:
  assumes laws: "setup_laws K N sm" and saved: "mask_saved sm m st w"
    and rest: "wp p Q (\<lambda>_. at N sm os (sm w)) w"
  shows "wp (unwinding (destroy_mask K st) p) Q (\<lambda>_. at N sm os m) w"
proof -
  have "wp (destroy_mask K st) (\<lambda>_. at N sm os m) (\<lambda>_. at N sm os m) w'" if w': "at N sm os (sm w) w'" for w'
  proof -
    obtain r w'' where r: "sys_sigmask K SIG_SETMASK (previous_mask st) w' = (r, w'')" by (metis surj_pair)
    note setup_calls(5,8) [OF laws r]
    with saved w' r show ?thesis
      by (auto simp: destroy_mask_def Restore_def wp_eqs at_def mask_saved_def split: if_splits)
  qed
  with rest show ?thesis by (auto simp: wp_eqs elim!: wp_mono)
qed

lemma CreateShutdownSignalFd_opens:
  assumes laws: "setup_laws K N sm" and w: "at N sm os m w"
  shows "wp (CreateShutdownSignalFd K signals)
    (\<lambda>fd w'. set (destroy fd) \<inter> os = {} \<and> at N sm (set (destroy fd) \<union> os) m w' \<and> (is_valid fd \<longleftrightarrow> signals \<noteq> []))
    (\<lambda>_. at N sm os m) w"
proof (cases "signals = []")
  case True
  with w show ?thesis
    by (simp add: CreateShutdownSignalFd_def wp_eqs set_destroy default_UniqueFd_def is_valid_def)
next
  case False
  have "wp (BuildSignalSet K signals) (\<lambda>_ w'. w' = w) (\<lambda>_. at N sm os m) w"
    by (rule wp_mono [OF BuildSignalSet_pure]) (use w in auto)
  moreover have "wp (create_fd ''signalfd'' (sys_signalfd K ss))
      (\<lambda>fd w'. set (destroy fd) \<inter> os = {} \<and> at N sm (set (destroy fd) \<union> os) m w' \<and> is_valid fd)
      (\<lambda>_. at N sm os m) w" for ss
  proof -
    have "creates N (sys_signalfd K ss)" "keeps sm (sys_signalfd K ss)"
      using laws by (simp_all add: setup_laws_def)
    from create_fd_opens [OF this w] show ?thesis by (rule wp_mono) (auto simp: set_destroy)
  qed
  ultimately show ?thesis
    using False by (auto intro!: wp_keep simp: CreateShutdownSignalFd_def)
qed

lemma wp_build [wp_eqs]:
  "wp (build sv body) Q E = (\<lambda>w. wp body (\<lambda>_ (sv', w'). Q sv' w') (\<lambda>e (sv', w'). E e w') (sv, w))"
  by (auto simp: build_def wp_def fun_eq_iff split: option.splits sum.splits prod.splits)

lemma EpollCtl_at:
  assumes "setup_laws K N sm" "at N sm os m w" "Q () sv"
  shows "wp (EpollCtl K ep op fd ev name) (\<lambda>x (sv', w'). Q x sv' \<and> at N sm os m w') (\<lambda>_ (sv', w'). at N sm os m w') (sv, w)"
proof -
  obtain r w' where r: "sys_epoll_ctl K ep op fd ev w = (r, w')" by (metis surj_pair)
  with setup_calls(1) [OF assms(1) r] assms(2,3) show ?thesis by (auto simp: wp_eqs at_def split: sum.splits)
qed

definition server_fds :: "EpollEchoServer \<Rightarrow> int set" where
  "server_fds sv = set (destroy (listener sv)) \<union> set (destroy (epoll sv)) \<union> set (destroy (worker_wakeup sv)) \<union>
     set (destroy (shutdown_signal sv))"

text \<open>A server that has just been built from its options.\<close>

definition fresh_server :: "EpollEchoServerOptions \<Rightarrow> EpollEchoServer \<Rightarrow> bool" where
  "fresh_server options sv \<longleftrightarrow>
     is_valid (listener sv) \<and> is_valid (epoll sv) \<and> is_valid (worker_wakeup sv) \<and>
     (is_valid (shutdown_signal sv) \<longleftrightarrow> opt_shutdown_signals options \<noteq> []) \<and>
     (mask_active (signal_mask_state sv) \<longleftrightarrow> opt_shutdown_signals options \<noteq> []) \<and>
     registry sv = new_ConnectionRegistry (opt_connection_limits options) \<and>
     0 < max_input_buffer (opt_connection_limits options) \<and> 0 < max_output_buffer (opt_connection_limits options) \<and>
     connection_flows sv = [] \<and> completed_work sv = [] \<and> \<not> stop_requested sv \<and>
     max_read_bytes_per_event sv = opt_max_read_bytes_per_event options \<and> 0 < max_read_bytes_per_event sv \<and>
     max_write_bytes_per_event sv = opt_max_write_bytes_per_event options \<and> 0 < max_write_bytes_per_event sv \<and>
     max_connections sv = opt_max_connections options \<and> 0 < max_connections sv \<and>
     max_in_flight_requests_per_connection sv = opt_max_in_flight_requests_per_connection options \<and>
     0 < max_in_flight_requests_per_connection sv \<and>
     (\<exists>spawn. new_WorkerPool
        \<lparr>worker_count = opt_worker_count options, queue_capacity = opt_work_queue_capacity options\<rparr>
        True (opt_handler options) spawn = Inr (worker_pool sv))"

lemma fresh_port [simp]: "fresh_server options (sv\<lparr>server_port := p\<rparr>) = fresh_server options sv"
  "server_fds (sv\<lparr>server_port := p\<rparr>) = server_fds sv"
  by (simp_all add: fresh_server_def server_fds_def)

lemma constructor_body_at:
  assumes laws: "setup_laws K N sm" and w: "at N sm os m w"
  shows "wp (constructor_body K) (\<lambda>_ (sv', w'). (\<exists>p. sv' = sv\<lparr>server_port := p\<rparr>) \<and> at N sm os m w')
    (\<lambda>_ (sv', w'). at N sm os m w') (sv, w)"
proof -
  let ?Q = "\<lambda>_ (sv', w'). (\<exists>p. sv' = sv\<lparr>server_port := p\<rparr>) \<and> at N sm os m w'"
  let ?E = "\<lambda>_ (sv' :: EpollEchoServer, w'). at N sm os m w'"
  have ctl: "wp (EpollCtl K ep op fd ev name) ?Q ?E s" if "?Q () s" for ep op fd ev name s
    using that EpollCtl_at [OF laws, of os m "snd s" "\<lambda>_ sv'. \<exists>p. sv' = sv\<lparr>server_port := p\<rparr>"]
    by (cases s) auto
  have add: "wp (AddListenerToEpoll K) ?Q ?E s" "wp (AddWorkerWakeupToEpoll K) ?Q ?E s"
    "wp (AddShutdownSignalToEpoll K) ?Q ?E s" if "?Q () s" for s
    using ctl [OF that] that
    by (auto simp: AddListenerToEpoll_def AddWorkerWakeupToEpoll_def AddShutdownSignalToEpoll_def wp_andthen wp_server
        wp_ret wp_if split: prod.splits)
  have port: "wp (BoundPort K fd) (\<lambda>_. at N sm os m) (\<lambda>_. at N sm os m) w" for fd
    unfolding BoundPort_def
    by (rule wp_keep [OF check_keeps [OF _ _ w]]) (use laws in \<open>simp_all add: setup_laws_def wp_eqs\<close>)
  have adds: "wp (seq (AddListenerToEpoll K) (seq (AddWorkerWakeupToEpoll K) (AddShutdownSignalToEpoll K))) ?Q ?E s"
    if "?Q () s" for s
    unfolding wp_seq
    by (rule wp_mono [OF add(1) [OF that]], rule wp_mono [OF add(2)]) (use add(3) in auto)
  have "wp (BoundPort K (get (listener sv)))
      (\<lambda>p w'. wp (seq (AddListenerToEpoll K) (seq (AddWorkerWakeupToEpoll K) (AddShutdownSignalToEpoll K))) ?Q ?E
        (sv\<lparr>server_port := p\<rparr>, w')) (\<lambda>e w'. ?E e (sv, w')) w"
    by (rule wp_mono [OF port]) (auto intro: adds)
  then show ?thesis
    by (simp add: constructor_body_def wp_andthen wp_server wp_on_world wp_set_server wp_seq)
qed

lemma wp_pure:
  assumes "at N sm os m w"
    and "\<And>x. r = Inr x \<Longrightarrow> wp (f x) Q (\<lambda>_. at N sm os m) w"
  shows "wp (andthen (lift_exn r) f) Q (\<lambda>_. at N sm os m) w"
  using assms by (cases r) (simp_all add: lift_exn_def wp_eqs)

lemma wp_budget:
  assumes "at N sm os m w" "0 < v \<Longrightarrow> wp (f v) Q (\<lambda>_. at N sm os m) w"
  shows "wp (andthen (RequirePositiveBudget v name) f) Q (\<lambda>_. at N sm os m) w"
  using assms by (simp add: RequirePositiveBudget_def wp_eqs)

lemma wp_limits:
  assumes "at N sm os m w"
    and "0 < max_input_buffer lim \<Longrightarrow> 0 < max_output_buffer lim \<Longrightarrow> wp (f lim) Q (\<lambda>_. at N sm os m) w"
  shows "wp (andthen (RequireConnectionLimits lim) f) Q (\<lambda>_. at N sm os m) w"
  using assms by (simp add: RequireConnectionLimits_def RequirePositiveBudget_def wp_eqs)

lemma new_EpollEchoServer_outcome:
  assumes laws: "setup_laws K N sm" and w: "at N sm os m w"
  shows "wp (new_EpollEchoServer K spawn p options)
    (\<lambda>sv w'. fresh_server options sv \<and> server_fds sv \<inter> os = {} \<and> at N sm (server_fds sv \<union> os) (sm w') w' \<and>
       mask_saved sm m (signal_mask_state sv) w') (\<lambda>_. at N sm os m) w"
    (is "wp _ ?Q _ _")
  unfolding new_EpollEchoServer_def CreateEpoll_def CreateWorkerWakeup_def
proof (rule wp_create_owning [OF laws CreateListener_opens [OF laws w]], goal_cases)
  case (1 l w1)
  note l = this
  have calls: "creates N (sys_epoll_create1 K)" "keeps sm (sys_epoll_create1 K)"
    "creates N (sys_eventfd K)" "keeps sm (sys_eventfd K)"
    using laws by (simp_all add: setup_laws_def)
  show ?case
  proof (rule wp_create_owning [OF laws create_fd_opens [OF calls(1,2) l(3)]], goal_cases)
    case (1 ep w2)
    note ep = this
    show ?case
    proof (rule wp_keep [OF BlockShutdownSignals_saves [OF laws ep(3)]], rule wp_masked [OF laws], goal_cases)
      case (1 mask w3)
      then show ?case by simp
    next
      case (2 mask w3)
      then have w3: "at N sm (insert (get ep) (insert (get l) os)) (sm w3) w3"
        and mask: "mask_saved sm m mask w3" "mask_active mask \<longleftrightarrow> opt_shutdown_signals options \<noteq> []"
        by simp_all
      show ?case
      proof (rule wp_create_owning [OF laws create_fd_opens [OF calls(3,4) w3]], goal_cases)
        case (1 wakeup w4)
        note wakeup = this
        show ?case
        proof (rule wp_keep [OF CreateShutdownSignalFd_opens [OF laws wakeup(3)]], rule wp_owning [OF laws], goal_cases)
          case (1 sig w5)
          then have w5: "at N sm (set (destroy sig) \<union> insert (get wakeup) (insert (get ep) (insert (get l) os))) (sm w3) w5"
            and sig: "set (destroy sig) \<inter> insert (get wakeup) (insert (get ep) (insert (get l) os)) = {}"
              "is_valid sig \<longleftrightarrow> opt_shutdown_signals options \<noteq> []"
            by simp_all
          have saved: "mask_saved sm m mask w'" if "at N sm os' (sm w3) w'" for os' w'
            using mask(1) that by (simp add: mask_saved_def at_def)
          show ?case
            by (intro wp_limits [OF w5] wp_budget [OF w5] wp_pure [OF w5], unfold wp_build,
                rule wp_mono [OF constructor_body_at [OF laws w5]])
              (use l ep mask wakeup sig saved in
                \<open>auto simp: fresh_server_def server_fds_def set_destroy at_def\<close>)
        next
          case (2 sig w5)
          then show ?case by simp
        qed
      qed
    qed
  qed
qed

text \<open>
  With positive budgets and a handler the only exceptions of the constructor are those of the
  system calls and of the thread creations.
\<close>

definition valid_options :: "EpollEchoServerOptions \<Rightarrow> bool" where
  "valid_options options \<longleftrightarrow>
     0 < opt_worker_count options \<and> 0 < opt_work_queue_capacity options \<and>
     0 < opt_max_read_bytes_per_event options \<and> 0 < opt_max_write_bytes_per_event options \<and>
     0 < opt_max_connections options \<and> 0 < opt_max_in_flight_requests_per_connection options \<and>
     0 < max_input_buffer (opt_connection_limits options) \<and> 0 < max_output_buffer (opt_connection_limits options) \<and>
     opt_handler options \<noteq> None"

definition system_failure :: "(nat \<Rightarrow> exn option) \<Rightarrow> exn \<Rightarrow> bool" where
  "system_failure spawn e \<longleftrightarrow> (\<exists>name err. e = SyscallError name err) \<or> (\<exists>i. spawn i = Some e)"

lemma system_failure_check [throw_intros]: "throws_only (system_failure spawn) (check name call)"
  unfolding check_def by (intro throw_intros) (simp add: system_failure_def)

lemma system_failure_calls [throw_intros]:
  "throws_only (system_failure spawn) (create_fd name call)"
  "throws_only (system_failure spawn) m \<Longrightarrow> throws_only (system_failure spawn) (owning K fd m)"
  "throws_only (system_failure spawn) (EpollCtl K ep op fd2 ev name)"
  "throws_only (system_failure spawn) (destroy_mask K st)"
  unfolding create_fd_def owning_def EpollCtl_def destroy_mask_def Restore_def syscall_def
  by (intro throw_intros; simp add: system_failure_def)+

lemma system_failure_signals [throw_intros]:
  "throws_only (system_failure spawn) (BuildSignalSet K signals)"
proof -
  have "throws_only (system_failure spawn) (add_signals K ss signals)" for ss
    by (induction K ss signals rule: add_signals.induct)
      (auto simp: system_failure_def intro!: throw_intros split: sum.splits)
  then show ?thesis
    unfolding BuildSignalSet_def by (intro throw_intros) (simp_all add: system_failure_def)
qed

lemma start_workers_throws: "start_workers spawn i n = Some e \<Longrightarrow> \<exists>j. spawn j = Some e"
  by (induction n arbitrary: i) (auto split: option.splits)

lemma new_EpollEchoServer_throws:
  assumes "valid_options options"
  shows "throws_only (system_failure spawn) (new_EpollEchoServer K spawn p options)"
proof -
  have limits: "RequireConnectionLimits (opt_connection_limits options) = ret (opt_connection_limits options)"
    using assms by (simp add: RequireConnectionLimits_def RequirePositiveBudget_def valid_options_def andthen_def ret_def fun_eq_iff)
  have budget: "0 < n \<Longrightarrow> RequirePositiveBudget n name = ret n" for n name
    by (simp add: RequirePositiveBudget_def)
  have pool: "throws_only (system_failure spawn) (lift_exn (new_WorkerPool
       \<lparr>worker_count = opt_worker_count options, queue_capacity = opt_work_queue_capacity options\<rparr>
       True (opt_handler options) spawn))"
    using assms start_workers_throws [of spawn 0 "opt_worker_count options"]
    by (auto simp: lift_exn_def new_WorkerPool_def new_BoundedQueue_def valid_options_def system_failure_def
        split: option.splits intro!: throw_intros)
  have built: "throws_only P body \<Longrightarrow> throws_only P (build sv body)" for P sv body
    by (rule throws_onlyI) (auto simp: build_def split: option.splits sum.splits prod.splits dest: throws_onlyD)
  have body: "throws_only (system_failure spawn) (constructor_body K)"
    unfolding constructor_body_def AddListenerToEpoll_def AddWorkerWakeupToEpoll_def AddShutdownSignalToEpoll_def
      BoundPort_def server_def set_server_def by (intro throw_intros)
  show ?thesis
    unfolding new_EpollEchoServer_def limits CreateListener_def CreateEpoll_def CreateWorkerWakeup_def
      BlockShutdownSignals_def CreateShutdownSignalFd_def
    using assms
    by (auto simp: budget valid_options_def intro!: throw_intros pool built body)
qed

lemma fresh_server_inv:
  assumes "fresh_server options sv" "opt_max_in_flight_requests_per_connection options \<le> SIZE_MAX"
  shows "server_inv h N (sv, w)"
proof -
  from assms(1) obtain config spawn where pool:
    "new_WorkerPool config True (opt_handler options) spawn = Inr (worker_pool sv)"
    unfolding fresh_server_def by blast
  note inv = new_WorkerPool_inv [OF pool]
  have "items (pool_queue (worker_pool sv)) = []" "held_items (worker_pool sv) = {#}"
    using inv(1) [of h] inv(2,3) by (auto simp: pool_inv_def work_conserved_def)
  then have "outstanding h (worker_pool sv) [] = {#}"
    by (simp add: outstanding_def)
  with assms inv show ?thesis
    by (auto simp: Inv_def fresh_server_def core_def descriptors_ok_def new_ConnectionRegistry_inv
        new_ConnectionRegistry_def registry_size_def Find_def find_flow_def reg_inv_def)
qed

section \<open>Destruction\<close>

definition connection_fds :: "ConnectionRegistry \<Rightarrow> int set" where
  "connection_fds r = set (concat (map (\<lambda>(k, c). destroy (conn_fd c)) (connections r)))"

text \<open>What the worker threads must leave alone while they are joined.\<close>

definition leaves_descriptors ::
  "'w net \<Rightarrow> ('w \<Rightarrow> int list) \<Rightarrow> (EpollEchoServer \<times> 'w \<Rightarrow> EpollEchoServer \<times> 'w) \<Rightarrow> bool" where
  "leaves_descriptors N sm join \<longleftrightarrow>
     (\<forall>sv w sv' w'. join (sv, w) = (sv', w') \<longrightarrow>
        opened N w' = opened N w \<and> sm w' = sm w \<and> registry sv' = registry sv \<and> listener sv' = listener sv \<and>
        epoll sv' = epoll sv \<and> worker_wakeup sv' = worker_wakeup sv \<and> shutdown_signal sv' = shutdown_signal sv \<and>
        signal_mask_state sv' = signal_mask_state sv)"

lemma Restore_restores:
  assumes laws: "setup_laws K N sm" and w: "at N sm os (sm w) w" and saved: "mask_saved sm m st w"
  shows "wp (Restore K st) (\<lambda>st' w'. \<not> mask_active st' \<and> at N sm os m w') E w"
proof -
  obtain r w' where r: "sys_sigmask K SIG_SETMASK (previous_mask st) w = (r, w')" by (metis surj_pair)
  note setup_calls(5,8) [OF laws r]
  with saved w r show ?thesis
    by (auto simp: Restore_def wp_eqs at_def mask_saved_def split: if_splits)
qed

lemma destroy_members_closes:
  assumes laws: "setup_laws K N sm" and w: "at N sm os m w" and inactive: "\<not> mask_active (signal_mask_state sv)"
  shows "wp (destroy_members K) (\<lambda>_ (sv', w'). at N sm (os - server_fds sv - connection_fds (registry sv)) m w')
    (\<lambda>_ _. False) (sv, w)"
proof -
  have close: "at N sm (os - a - set (destroy fd)) m (close_all K (destroy fd) w)" if "at N sm (os - a) m w" for a fd w
    using close_all_at [OF laws that] .
  let ?fds = "concat (map (\<lambda>(k, c). destroy (conn_fd c)) (connections (registry sv)))"
  have "at N sm (os - connection_fds (registry sv)) m (close_all K ?fds w)"
    using close_all_at [OF laws w, of ?fds] by (simp add: connection_fds_def)
  note c = close_all_at [OF laws close_all_at [OF laws close_all_at [OF laws close_all_at [OF laws this,
        of "destroy (shutdown_signal sv)"], of "destroy (worker_wakeup sv)"], of "destroy (epoll sv)"],
        of "destroy (listener sv)"]
  have "os - connection_fds (registry sv) - set (destroy (shutdown_signal sv)) - set (destroy (worker_wakeup sv)) -
      set (destroy (epoll sv)) - set (destroy (listener sv)) = os - server_fds sv - connection_fds (registry sv)"
    by (auto simp: server_fds_def)
  with c inactive show ?thesis
    by (simp add: destroy_members_def close_fd_def destroy_mask_def Restore_def wp_eqs)
qed

lemma delete_EpollEchoServer_releases:
  assumes laws: "setup_laws K N sm" "write_settles K (patience N)" and join: "leaves_descriptors N sm join"
    and saved: "mask_saved sm m (signal_mask_state sv) w"
  shows "wp (delete_EpollEchoServer K join)
    (\<lambda>_ (sv', w'). at N sm (opened N w - server_fds sv - connection_fds (registry sv)) m w') (\<lambda>_ _. False) (sv, w)"
proof -
  let ?os = "opened N w - server_fds sv - connection_fds (registry sv)"
  let ?sv = "sv\<lparr>stop_requested := True\<rparr>"
  have "wp (NotifyWorkerWakeup K) (\<lambda>_ (sv', w'). sv' = ?sv \<and> at N sm (opened N w) (sm w) w') (\<lambda>_ _. False) (?sv, w)"
    by (rule NotifyWorkerWakeup_keeps [OF laws(2)]) (auto simp: at_def dest: setup_calls(2) [OF laws(1)])
  moreover have "wp (seq (set_server (\<lambda>sv. sv\<lparr>worker_pool := StopPool (worker_pool sv)\<rparr>))
     (seq (modify join)
     (andthen (server signal_mask_state) (\<lambda>mask.
      andthen (on_world (Restore K mask)) (\<lambda>mask.
      seq (set_server (\<lambda>sv. sv\<lparr>signal_mask_state := mask\<rparr>)) (destroy_members K))))))
     (\<lambda>_ (sv', w'). at N sm ?os m w') (\<lambda>_ _. False) (?sv, w1)" if w1: "at N sm (opened N w) (sm w) w1" for w1
  proof -
    obtain sv2 w2 where j: "join (?sv\<lparr>worker_pool := StopPool (worker_pool sv)\<rparr>, w1) = (sv2, w2)" by (metis surj_pair)
    from join j have same: "opened N w2 = opened N w1" "sm w2 = sm w1" "registry sv2 = registry sv"
      "server_fds sv2 = server_fds sv" "signal_mask_state sv2 = signal_mask_state sv"
      unfolding leaves_descriptors_def server_fds_def by fastforce+
    with w1 saved have "at N sm (opened N w) (sm w2) w2" "mask_saved sm m (signal_mask_state sv2) w2"
      by (simp_all add: at_def mask_saved_def)
    from Restore_restores [OF laws(1) this] have
      "wp (Restore K (signal_mask_state sv2)) (\<lambda>st w3. wp (destroy_members K)
         (\<lambda>_ (sv', w'). at N sm ?os m w') (\<lambda>_ _. False) (sv2\<lparr>signal_mask_state := st\<rparr>, w3)) (\<lambda>_ _. False) w2"
    proof (rule wp_mono)
      fix st :: ShutdownSignalMaskState and w3 assume "\<not> mask_active st \<and> at N sm (opened N w) m w3"
      then show "wp (destroy_members K) (\<lambda>_ (sv', w'). at N sm ?os m w') (\<lambda>_ _. False) (sv2\<lparr>signal_mask_state := st\<rparr>, w3)"
        using destroy_members_closes [OF laws(1), of "opened N w" m w3 "sv2\<lparr>signal_mask_state := st\<rparr>"] same(3,4)
        by (simp add: server_fds_def)
    qed simp
    with j show ?thesis by (simp add: wp_eqs)
  qed
  ultimately show ?thesis
    unfolding delete_EpollEchoServer_def Stop_def wp_seq wp_set_server prod.case
    by (elim wp_mono) auto
qed

end
