(* ===== verification/Server_Frame.thy ===== *)
theory Server_Frame
  imports Server_Setup
begin

text \<open>
  What the reactor never loses track of, whether its programs return or throw: its configuration
  stays as it was built, and the open descriptors are those that were open before the
  server ran and, each once, those of the registered connections. The rules follow the constructs of
  the programs.
\<close>

section \<open>Configuration and descriptors\<close>

type_synonym server_config =
  "UniqueFd \<times> UniqueFd \<times> ShutdownSignalMaskState \<times> UniqueFd \<times> UniqueFd \<times> u16 \<times> nat \<times> nat \<times> nat \<times> nat \<times>
   ConnectionLimits"

definition config :: "EpollEchoServer \<Rightarrow> server_config" where
  "config sv = (listener sv, epoll sv, signal_mask_state sv, worker_wakeup sv, shutdown_signal sv, server_port sv,
     max_read_bytes_per_event sv, max_write_bytes_per_event sv, max_connections sv,
     max_in_flight_requests_per_connection sv, reg_limits (registry sv))"

definition fd_list :: "ConnectionRegistry \<Rightarrow> int list" where
  "fd_list r = map (\<lambda>(k, c). get (conn_fd c)) (connections r)"

definition accounts :: "'w net \<Rightarrow> int set \<Rightarrow> ConnectionRegistry \<Rightarrow> 'w \<Rightarrow> bool" where
  "accounts N base r w \<longleftrightarrow>
     distinct (map fst (connections r)) \<and> distinct (fd_list r) \<and>
     (\<forall>c \<in> snd ` set (connections r). is_valid (conn_fd c)) \<and>
     base \<inter> set (fd_list r) = {} \<and> opened N w = base \<union> set (fd_list r)"

definition framed :: "'w net \<Rightarrow> int set \<Rightarrow> server_config \<Rightarrow> EpollEchoServer \<times> 'w \<Rightarrow> bool" where
  "framed N base cfg = (\<lambda>(sv, w). config sv = cfg \<and> accounts N base (registry sv) w)"

lemma accounts_opened: "accounts N base r w \<Longrightarrow> opened N w' = opened N w \<Longrightarrow> accounts N base r w'"
  by (simp add: accounts_def)

lemma accounts_store:
  assumes "accounts N base r w" "Find r i = Some c" "conn_fd c' = conn_fd c"
  shows "accounts N base (Store i c' r) w"
proof -
  have same: "map (\<lambda>(k, c). (k, conn_fd c)) (AList.update k c' xs) = map (\<lambda>(k, c). (k, conn_fd c)) xs"
    if "map_of xs k = Some c" for k and xs :: "(u64 \<times> Connection) list"
    using that assms(3) by (induction xs) (auto split: if_splits)
  have keys: "map fst (connections r') = map fst (map (\<lambda>(k, c). (k, conn_fd c)) (connections r'))"
    "fd_list r' = map (get \<circ> snd) (map (\<lambda>(k, c). (k, conn_fd c)) (connections r'))"
    "(\<forall>c \<in> snd ` set (connections r'). is_valid (conn_fd c)) \<longleftrightarrow>
       (\<forall>d \<in> snd ` set (map (\<lambda>(k, c). (k, conn_fd c)) (connections r')). is_valid d)" for r'
    by (auto simp: fd_list_def)
  have "map (\<lambda>(k, c). (k, conn_fd c)) (connections (Store i c' r)) = map (\<lambda>(k, c). (k, conn_fd c)) (connections r)"
    using same assms(2) by (simp add: Store_def Find_def)
  with assms(1) show ?thesis unfolding accounts_def keys by simp
qed

lemma fd_list_delete:
  assumes "distinct (map fst xs)" "distinct (map (\<lambda>(k, c). f c) xs)" "map_of xs k = Some c"
  shows "distinct (map (\<lambda>(k, c). f c) (AList.delete k xs))"
    "set (map (\<lambda>(k, c). f c) (AList.delete k xs)) = set (map (\<lambda>(k, c). f c) xs) - {f c}"
    "f c \<in> set (map (\<lambda>(k, c). f c) xs)"
  using assms
proof (induction xs)
  case (Cons x xs)
  { case 1 with Cons show ?case by (cases x) (auto split: if_splits simp: delete_id) }
  { case 2 with Cons show ?case by (cases x) (auto split: if_splits simp: delete_id) }
  { case 3 with Cons show ?case by (cases x) (auto split: if_splits) }
qed simp_all

lemma accounts_remove:
  assumes laws: "net_laws K N" and "accounts N base r w" "Remove K i r w = (b, r', w')"
  shows "accounts N base r' w'"
proof (cases "map_of (connections r) (id_value i)")
  case None
  with assms show ?thesis by (simp add: Remove_def)
next
  case (Some c)
  have acc: "distinct (map fst (connections r))" "distinct (map (\<lambda>(k, c). get (conn_fd c)) (connections r))"
    "\<forall>c \<in> snd ` set (connections r). is_valid (conn_fd c)"
    "base \<inter> set (fd_list r) = {}" "opened N w = base \<union> set (fd_list r)"
    using assms(2) by (simp_all add: accounts_def fd_list_def)
  note del = fd_list_delete [OF acc(1,2) Some]
  have "is_valid (conn_fd c)" using acc(3) Some by (force dest: map_of_SomeD)
  then have "destroy (conn_fd c) = [get (conn_fd c)]"
    by (simp add: destroy_def reset_def is_valid_def get_def)
  then have w': "opened N w' = opened N w - {get (conn_fd c)}" and r': "r' = r\<lparr>connections := AList.delete (id_value i) (connections r)\<rparr>"
    using assms(3) Some net_lawsD(11) [OF laws] by (auto simp: Remove_def close_all_def close_observed_def)
  have "\<forall>c \<in> snd ` set (connections r'). is_valid (conn_fd c)"
    using acc(3) r' by (auto simp: AList.delete_eq)
  moreover have "get (conn_fd c) \<notin> base" using acc(4) del(3) by (auto simp: fd_list_def)
  ultimately show ?thesis
    using acc del(1,2) w' r' unfolding accounts_def fd_list_def by (auto simp: distinct_delete)
qed

lemma accounts_add:
  assumes laws: "net_laws K N" and acc: "accounts N (insert (get fd) base) r w" and fd: "is_valid fd" "get fd \<notin> base"
    and add: "Add K fd r w = (a, r', w')"
  shows "accounts N base r' w'"
proof -
  have destroy: "destroy fd = [get fd]"
    using fd(1) by (simp add: destroy_def reset_def is_valid_def get_def)
  have closed: "accounts N base r (sys_close K (get fd) w1)" if "opened N w1 = opened N w" for w1
    using acc that fd(2) net_lawsD(11) [OF laws] unfolding accounts_def close_observed_def by auto
  have quiet: "opened N w2 = opened N w" if "SetNonBlocking K (get fd) w = (x, w2)" for x w2
    using SetNonBlocking_quiet(1) [OF laws that] by (simp add: same_net_def)
  have next_id: "accounts N base (r\<lparr>next_id := j\<rparr>) w1 = accounts N base r w1" for j w1
    by (simp add: accounts_def fd_list_def)
  have new: "accounts N base (r\<lparr>next_id := j, connections := (k, new_Connection i fd lim) # connections r\<rparr>) w1"
    if "opened N w1 = opened N w" "map_of (connections r) k = None" for w1 i j k lim
    using acc fd that by (auto simp: accounts_def fd_list_def map_of_eq_None_iff)
  show ?thesis
    using add fd(1) closed quiet new unfolding Add_def destroy close_all_def
    by (auto simp: Let_def next_id split: if_splits prod.splits sum.splits option.splits)
qed

section \<open>The programs\<close>

lemma preserves_accessors [preserve_intros]:
  "preserves I (server f)" "preserves I (deref x)"
  by (auto simp: preserves_def server_def peek_def deref_def ret_def split: option.splits)

lemma andthen_server: "andthen (server f) g s = g (f (fst s)) s"
  by (cases s) (simp add: andthen_def server_def peek_def)

lemma preserves_lookups [preserve_intros]: "preserves I (connection_at i)" "preserves I (flow_at i)"
  unfolding connection_at_def flow_at_def by (intro preserve_intros)+

lemma framed_set_server [preserve_intros]:
  assumes "\<And>sv. config (f sv) = config sv" "\<And>sv. registry (f sv) = registry sv"
  shows "preserves (framed N base cfg) (set_server f)"
  using assms by (auto simp: preserves_def set_server_def modify_def framed_def split: prod.splits)

lemma framed_syscall:
  assumes "\<And>w r w'. call w = (r, w') \<Longrightarrow> opened N w' = opened N w"
  shows "preserves (framed N base cfg) (syscall call)"
  using assms by (auto simp: preserves_def syscall_def on_world_def act_def framed_def intro: accounts_opened split: prod.splits)

lemma config_flows [simp]: "config (put_flow i fl sv) = config sv" "config (erase_flow i sv) = config sv"
  "config (sv\<lparr>stop_requested := b\<rparr>) = config sv" "config (sv\<lparr>completed_work := rs\<rparr>) = config sv"
  "config (sv\<lparr>worker_pool := p\<rparr>) = config sv"
  by (simp_all add: config_def put_flow_def erase_flow_def)

lemma config_registry: "reg_limits r = reg_limits (registry sv) \<Longrightarrow> config (sv\<lparr>registry := r\<rparr>) = config sv"
  by (simp add: config_def)

lemma framed_set_flow [preserve_intros]: "preserves (framed N base cfg) (set_flow i f)"
  unfolding set_flow_def by (intro preserve_intros) simp_all

lemma framed_on_connection:
  assumes "\<And>c w r c' w'. f c w = Some (r, c', w') \<Longrightarrow> conn_fd c' = conn_fd c \<and> opened N w' = opened N w"
  shows "preserves (framed N base cfg) (on_connection i f)"
proof (rule preservesI)
  fix s r s' assume s: "framed N base cfg s" "on_connection i f s = Some (r, s')"
  obtain sv w where sv: "s = (sv, w)" by (cases s)
  with s obtain c c' w' where c: "Find (registry sv) i = Some c" "f c w = Some (r, c', w')"
    "s' = (sv\<lparr>registry := Store i c' (registry sv)\<rparr>, w')"
    by (auto simp: on_connection_def split: option.splits)
  moreover have "config (sv\<lparr>registry := Store i c' (registry sv)\<rparr>) = config sv"
    by (rule config_registry) (simp add: Store_def)
  ultimately show "framed N base cfg s'"
    using s sv assms [OF c(2)] by (auto simp: framed_def intro: accounts_store accounts_opened)
qed

lemma framed_remove [preserve_intros]:
  assumes "net_laws K N"
  shows "preserves (framed N base cfg) (remove_from_registry K i)"
proof -
  have "reg_limits r' = reg_limits r" if "Remove K i r w = (b, r', w')" for r w b r' w'
    using that by (auto simp: Remove_def split: option.splits)
  with accounts_remove [OF assms] show ?thesis
    by (auto simp: preserves_def remove_from_registry_def act_def framed_def config_registry split: prod.splits)
qed

lemma framed_queue [preserve_intros]:
  "preserves (framed N base cfg) (on_connection i (\<lambda>c w. case QueueOutput c m of (ok, c') \<Rightarrow> Some (Inr ok, c', w)))"
  by (rule framed_on_connection) (auto simp: QueueOutput_def CompactOutputBuffer_def Let_def split: prod.splits option.splits if_splits)

text \<open>The calls of the reactor that open and close nothing.\<close>

lemma framed_calls [preserve_intros]:
  assumes laws: "net_laws K N"
  shows "preserves (framed N base cfg) (syscall (sys_epoll_ctl K ep op fd ev))"
    "preserves (framed N base cfg) (syscall (sys_epoll_wait K ep n t))"
    "preserves (framed N base cfg) (syscall (sys_read K fd n))"
    "preserves (framed N base cfg) (syscall (sys_write_u64 K fd v))"
    "preserves (framed N base cfg) (on_connection i (\<lambda>c. ReadAvailable K c n))"
    "preserves (framed N base cfg) (on_connection i (\<lambda>c. WriteAvailable K c n))"
proof -
  have same: "opened N w' = opened N w" if "same_net N w w'" for w w'
    using that by (simp add: same_net_def)
  have ctl: "same_net N w w'" if "sys_epoll_ctl K ep op fd ev w = (r, w')" for w r w'
    using net_lawsD(12) [OF laws] that unfolding others_quiet_def by (metis quietD)
  show "preserves (framed N base cfg) (syscall (sys_epoll_ctl K ep op fd ev))"
    "preserves (framed N base cfg) (syscall (sys_epoll_wait K ep n t))"
    "preserves (framed N base cfg) (syscall (sys_read K fd n))"
    "preserves (framed N base cfg) (syscall (sys_write_u64 K fd v))"
    by (rule framed_syscall; auto dest: ctl net_quiet [OF laws] same)+
  show "preserves (framed N base cfg) (on_connection i (\<lambda>c. ReadAvailable K c n))"
  proof (rule framed_on_connection)
    fix c w r c' w' assume "ReadAvailable K c n w = Some (r, c', w')"
    then show "conn_fd c' = conn_fd c \<and> opened N w' = opened N w"
      using ReadAvailable_system [where P = "\<lambda>w'. opened N w' = opened N w"] net_recv(1) [OF laws]
      unfolding only_at_def by metis
  qed
  show "preserves (framed N base cfg) (on_connection i (\<lambda>c. WriteAvailable K c n))"
  proof (rule framed_on_connection)
    fix c w r c' w' assume "WriteAvailable K c n w = Some (r, c', w')"
    then show "conn_fd c' = conn_fd c \<and> opened N w' = opened N w"
      using WriteAvailable_system [where P = "\<lambda>w'. opened N w' = opened N w"] net_send(1) [OF laws]
      unfolding only_at_def by metis
  qed
qed

lemma framed_submit [preserve_intros]:
  "preserves (framed N base cfg) (act (\<lambda>(sv, w). case TrySubmit (worker_pool sv) item of (ok, p) \<Rightarrow> (ok, (sv\<lparr>worker_pool := p\<rparr>, w))))"
  by (auto simp: preserves_def act_def framed_def split: prod.splits)

lemma framed_SubmitWork [preserve_intros]: "preserves (framed N base cfg) (SubmitWork i ms)"
  by (induction ms) (auto simp: Let_def intro!: preserve_intros)

lemma framed_removal [preserve_intros]:
  assumes laws: "net_laws K N"
  shows "preserves (framed N base cfg) (EpollCtl K ep op fd ev name)"
    "preserves (framed N base cfg) (RemoveConnection K i)" "preserves (framed N base cfg) (UpdateInterest K i)"
  unfolding EpollCtl_def RemoveConnection_def UpdateInterest_def Let_def
  by (intro preserve_intros laws; simp)+

lemma framed_responses [preserve_intros]:
  assumes laws: "net_laws K N"
  shows "preserves (framed N base cfg) (FlushReadyResponses K i)" "preserves (framed N base cfg) (HandleCompletedWork K r)"
    "preserves (framed N base cfg) (CloseAllConnections K)" "preserves (framed N base cfg) (HandleConnectionEvent K i e)"
    "preserves (framed N base cfg) (HandleWorkerWakeup K)" "preserves (framed N base cfg) (HandleShutdownSignal K)"
    "preserves (framed N base cfg) (NotifyWorkerWakeup K)" "preserves (framed N base cfg) (StoreCompletedWork K r)"
    "preserves (framed N base cfg) (Stop K)"
  unfolding FlushReadyResponses_def flush_loop_def HandleCompletedWork_def CloseAllConnections_def
    HandleConnectionEvent_def read_and_submit_def write_pending_def HandleWorkerWakeup_def HandleShutdownSignal_def
    drain_fd_def NotifyWorkerWakeup_def StoreCompletedWork_def Stop_def Let_def
  by (intro preserve_intros laws; simp)+

text \<open>An accepted descriptor belongs to the accepting scope until it is registered or closed.\<close>

definition framed_client :: "'w net \<Rightarrow> int set \<Rightarrow> server_config \<Rightarrow> UniqueFd \<Rightarrow> EpollEchoServer \<times> 'w \<Rightarrow> bool" where
  "framed_client N base cfg client s \<longleftrightarrow>
     (if is_valid client then get client \<notin> base \<and> framed N (insert (get client) base) cfg s else framed N base cfg s)"

lemma framed_accept:
  assumes laws: "net_laws K N" and s: "framed N base cfg s" and ret: "AcceptNonBlocking K lfd s = Some (r, s')"
  shows "case r of Inl e \<Rightarrow> framed N base cfg s' | Inr client \<Rightarrow> framed_client N base cfg client s'"
proof (rule loop_partial [where I = "\<lambda>_. framed N base cfg", OF _ s ret [unfolded AcceptNonBlocking_def]])
  fix u s assume s: "framed N base cfg s"
  obtain sv w where sv: "s = (sv, w)" by (cases s)
  obtain a w' where a: "sys_accept K lfd AcceptNonblockCloexec w = (a, w')" by (metis surj_pair)
  have obs: "case a of Inl e \<Rightarrow> same_net N w w'
      | Inr fd \<Rightarrow> 0 \<le> fd \<and> fd \<notin> opened N w \<and> opened N w' = insert fd (opened N w)"
    using net_lawsD(10) [OF laws] a unfolding accept_observed_def by (fastforce split: sum.splits)
  show "wp (andthen (syscall (sys_accept K lfd AcceptNonblockCloexec)) (\<lambda>r.
         case r of
           Inl e \<Rightarrow>
             if e = EINTR then ret (Inl ())
             else if IsWouldBlock e then ret (Inr default_UniqueFd)
             else throw (SyscallError ''accept4'' e)
         | Inr fd \<Rightarrow> ret (Inr (new_UniqueFd fd))))
     (\<lambda>y s'. case y of Inl x' \<Rightarrow> framed N base cfg s' | Inr client \<Rightarrow> framed_client N base cfg client s')
     (\<lambda>_. framed N base cfg) s"
  proof (cases a)
    case (Inl e)
    with obs s sv have "framed N base cfg (sv, w')"
      by (auto simp: framed_def same_net_def intro: accounts_opened)
    with Inl a sv show ?thesis
      by (simp add: wp_eqs framed_client_def default_UniqueFd_def is_valid_def)
  next
    case (Inr fd)
    with obs s sv a show ?thesis
      by (auto simp: wp_eqs framed_client_def framed_def accounts_def new_UniqueFd_def get_def is_valid_def
          kInvalidFd_def)
  qed
qed

lemma framed_refuse:
  assumes laws: "net_laws K N" and s: "framed_client N base cfg client s" "is_valid client"
    and ret: "close_fd K client s = Some (r, s')"
  shows "framed N base cfg s'"
proof -
  have "destroy client = [get client]" using s(2) by (simp add: destroy_def reset_def is_valid_def get_def)
  with s ret net_lawsD(11) [OF laws] show ?thesis
    by (cases s) (auto simp: close_fd_def syscall_def on_world_def act_def close_all_def framed_client_def framed_def
        accounts_def close_observed_def)
qed

lemma framed_register:
  assumes laws: "net_laws K N" and s: "framed_client N base cfg client s" "is_valid client"
    and ret: "register_connection K client s = Some (r, s')"
  shows "framed N base cfg s'"
proof -
  obtain sv w where sv: "s = (sv, w)" by (cases s)
  obtain a rg w1 where add: "Add K client (registry sv) w = (a, rg, w1)" by (metis surj_pair)
  have "reg_limits rg = reg_limits (registry sv)"
    using add by (auto simp: Add_def Let_def split: if_splits prod.splits sum.splits)
  then have acc: "framed N base cfg (sv\<lparr>registry := rg\<rparr>, w1)"
    using s sv accounts_add [OF laws _ _ _ add, of base] by (simp add: framed_client_def framed_def config_registry)
  have rest: "preserves (framed N base cfg)
    (andthen (server (\<lambda>sv. Find (registry sv) i)) (\<lambda>connection.
       case connection of
         None \<Rightarrow> throw (RuntimeError ''registered connection cannot be found'')
       | Some c \<Rightarrow>
           andthen (server (find_flow i)) (\<lambda>flow.
             if flow \<noteq> None then throw (RuntimeError ''connection flow already exists'')
             else
               seq (set_server (put_flow i new_ConnectionFlow))
                 (andthen (server (\<lambda>sv. get (epoll sv))) (\<lambda>ep.
                    catch
                      (seq (EpollCtl K ep EPOLL_CTL_ADD (get (conn_fd c))
                              (Some (ConnectionEvent i True (has_pending_output c)))
                              ''epoll_ctl(ADD connection)'')
                         (set_flow i (\<lambda>fl. fl\<lparr>registered_with_epoll := True\<rparr>)))
                      (\<lambda>e. seq (set_server (erase_flow i))
                             (andthen (remove_from_registry K i) (\<lambda>removed. throw e))))))))" for i
    by (intro preserve_intros laws; simp)
  from ret show ?thesis
    unfolding register_connection_def
  proof (cases rule: andthen_cases)
    case (threw e)
    with add acc sv show ?thesis by (simp add: add_to_registry_def)
  next
    case (went_on i s1)
    with add sv have "s1 = (sv\<lparr>registry := rg\<rparr>, w1)" by (simp add: add_to_registry_def)
    with went_on(2) acc preservesD [OF rest [of i], of s1 r s'] show ?thesis by blast
  qed
qed

lemma framed_accepting [preserve_intros]:
  assumes laws: "net_laws K N"
  shows "preserves (framed N base cfg) (accept_connections K n)"
proof (induction n)
  case (Suc n)
  let ?one = "\<lambda>client. if \<not> is_valid client then ret ()
       else
         andthen (server (\<lambda>sv. registry_size (registry sv) \<ge> max_connections sv)) (\<lambda>full.
           seq (if full then close_fd K client else register_connection K client) (accept_connections K n))"
  have one: "framed N base cfg s'" if client: "framed_client N base cfg client s" and ret: "?one client s = Some (r, s')"
    for client s r s'
  proof (cases "is_valid client")
    case False
    with client ret show ?thesis by (simp add: ret_def framed_client_def)
  next
    case True
    with ret obtain b where
      "andthen (if b then close_fd K client else register_connection K client) (\<lambda>_. accept_connections K n) s = Some (r, s')"
      by (auto simp: andthen_server seq_def [of "if b then p else q" for b p q])
    then show ?thesis
    proof (cases rule: andthen_cases)
      case (threw e)
      with client True show ?thesis
        by (auto intro: framed_refuse [OF laws] framed_register [OF laws] split: if_splits)
    next
      case (went_on x s1)
      with client True have "framed N base cfg s1"
        by (auto intro: framed_refuse [OF laws] framed_register [OF laws] split: if_splits)
      with went_on(2) show ?thesis by (rule preservesD [OF Suc])
    qed
  qed
  have "framed N base cfg s'" if "framed N base cfg s" "andthen (AcceptNonBlocking K fd) ?one s = Some (r, s')" for fd s r s'
    using that(2)
  proof (cases rule: andthen_cases)
    case (threw e)
    with framed_accept [OF laws that(1) threw(1)] show ?thesis by simp
  next
    case (went_on client s1)
    with framed_accept [OF laws that(1) went_on(1)] one show ?thesis by simp
  qed
  then show ?case
    unfolding accept_connections.simps by (intro preserve_intros preservesI)
qed (simp add: preserve_intros)

lemma framed_events [preserve_intros]:
  assumes laws: "net_laws K N"
  shows "preserves (framed N base cfg) (dispatch K event)" "preserves (framed N base cfg) (handle_events K events)"
proof -
  show d: "preserves (framed N base cfg) (dispatch K event)" for event
    unfolding dispatch_def HandleListenerEvent_def Let_def by (intro preserve_intros laws)
  show "preserves (framed N base cfg) (handle_events K events)"
    by (induction events) (auto intro!: preserve_intros d)
qed

end
