(* ===== verification/Server_System.thy ===== *)
theory Server_System
  imports Server_Frame
begin

text \<open>
  The whole server: the reactor handling events, the workers, and other threads that stop it, as a
  state machine. Its reachable states satisfy the invariant of the reactor and that of the pool,
  which gives the end-to-end properties.
\<close>

section \<open>Shutdown\<close>

lemma RemoveConnection_removes:
  assumes laws: "net_laws K N" and inv: "Inv h N {i} todo (sv, w)" and live: "Find (registry sv) i = Some c"
  shows "wp (RemoveConnection K i) (\<lambda>_ (sv', w'). Inv h N {} todo (sv', w') \<and>
     connection_flows sv' = AList.delete (id_value i) (connection_flows sv)) fails (sv, w)"
proof -
  let ?Q = "\<lambda>_ (sv', w'). connection_flows sv' = AList.delete (id_value i) (connection_flows sv)"
  have "wp (RemoveConnection K i) ?Q fails (sv, w)"
    using live by (auto simp: RemoveConnection_def remove_from_registry_def erase_flow_def wp_eqs
        split: prod.splits sum.splits)
  from wp_conj [OF RemoveConnection_inv [OF laws inv] this] show ?thesis
    by (rule wp_mono) auto
qed

lemma CloseAllConnections_closes:
  assumes laws: "net_laws K N" and inv: "server_inv h N s"
  shows "wp (CloseAllConnections K)
    (\<lambda>_ (sv, w). connection_flows sv = [] \<and> live_connection_count sv = 0 \<and> server_inv h N (sv, w)) fails s"
  unfolding CloseAllConnections_def
proof (rule wp_loop [where R = "measure (\<lambda>(_, sv, _). length (connection_flows sv))" and I = "\<lambda>_. server_inv h N"])
  fix u :: unit and s :: "EpollEchoServer \<times> 'a"
  assume inv: "server_inv h N s"
  obtain sv w where s: "s = (sv, w)" by (cases s)
  note inv = inv [unfolded s]
  let ?Q = "\<lambda>y s'. case y of
      Inl x' \<Rightarrow> server_inv h N s' \<and> ((x', s'), (u, s)) \<in> measure (\<lambda>(_, sv, _). length (connection_flows sv))
    | Inr z \<Rightarrow> (case s' of (sv, w) \<Rightarrow> connection_flows sv = [] \<and> live_connection_count sv = 0 \<and> server_inv h N (sv, w))"
  have core: "core sv" using InvD(1) [OF inv] .
  show "wp (andthen (server connection_flows) (\<lambda>flows.
       case flows of
         [] \<Rightarrow> ret (Inr ())
       | a # rest \<Rightarrow> (case a of (k, fl) \<Rightarrow> seq (RemoveConnection K \<lparr>id_value = k\<rparr>) (ret (Inl ()))))) ?Q fails s"
  proof (cases "connection_flows sv")
    case Nil
    have "Find (registry sv) i = None" for i
      using core Nil by (auto simp: core_def find_flow_def)
    then have "map_of (connections (registry sv)) k = None" for k
      by (metis ConnectionId.select_convs(1) Find_def)
    then have "connections (registry sv) = []"
      by (metis list.set_intros(1) map_of_eq_None_iff neq_Nil_conv image_eqI)
    with Nil inv show ?thesis
      by (simp add: s wp_eqs live_connection_count_def registry_size_def)
  next
    case (Cons a rest)
    obtain k fl where a: "a = (k, fl)" by (cases a)
    let ?i = "\<lparr>id_value = k\<rparr> :: ConnectionId"
    have "find_flow ?i sv = Some fl" by (simp add: find_flow_def Cons a)
    with Inv_flow [OF inv, of ?i] obtain c where c: "Find (registry sv) ?i = Some c" by auto
    have "length (AList.delete k (connection_flows sv)) < length (connection_flows sv)"
      using length_delete_le [of k rest] by (simp add: Cons a)
    moreover have "Inv h N {?i} [] (sv, w)" using inv by (rule Inv_open)
    ultimately have "wp (RemoveConnection K ?i) (\<lambda>_ s'. ?Q (Inl ()) s') fails (sv, w)"
      using RemoveConnection_removes [OF laws _ c] by (intro wp_mono [OF RemoveConnection_removes [OF laws _ c]]) (auto simp: s)
    then show ?thesis
      by (simp add: s wp_eqs Cons a)
  qed
qed (use inv in simp_all)

text \<open>The event loop: what holds when it returns, and that a requested stop ends it.\<close>

definition all_closed :: "WorkHandler \<Rightarrow> 'w net \<Rightarrow> EpollEchoServer \<times> 'w \<Rightarrow> bool" where
  "all_closed h N = (\<lambda>(sv, w). connection_flows sv = [] \<and> live_connection_count sv = 0 \<and> server_inv h N (sv, w))"

definition run_body ::
  "'w sys \<Rightarrow> (EpollEchoServer \<times> 'w \<Rightarrow> EpollEchoServer \<times> 'w) \<Rightarrow> unit \<Rightarrow> ('w, unit + unit) server_io" where
  "run_body K others = (\<lambda>_.
     seq (modify others)
       (andthen (server stop_requested) (\<lambda>stop.
          if stop then ret (Inr ())
          else
            andthen (server (\<lambda>sv. get (epoll sv))) (\<lambda>ep.
            andthen (syscall (sys_epoll_wait K ep kMaxEpollEvents kEpollWaitTimeoutMs)) (\<lambda>r.
              case r of
                Inl e \<Rightarrow>
                  if e = EINTR then ret (Inl ()) else throw (SyscallError ''epoll_wait'' e)
              | Inr events \<Rightarrow> seq (handle_events K events) (ret (Inl ())))))))"

lemma Run_alt: "Run K others = seq (loop (run_body K others) ()) (CloseAllConnections K)"
  by (simp add: Run_def run_body_def)

lemma run_body_inv:
  assumes laws: "net_laws K N" and others: "\<And>s. server_inv h N s \<Longrightarrow> server_inv h N (others s)"
    and inv: "server_inv h N s"
  shows "wp (run_body K others u)
    (\<lambda>y s'. case y of Inl _ \<Rightarrow> server_inv h N s' | Inr _ \<Rightarrow> server_inv h N s') fails s"
proof -
  obtain sv w where s: "others s = (sv, w)" by (cases "others s")
  have inv': "server_inv h N (sv, w)" using others [OF inv] by (simp add: s)
  obtain r w' where wait: "sys_epoll_wait K (get (epoll sv)) kMaxEpollEvents kEpollWaitTimeoutMs w = (r, w')"
    by (metis surj_pair)
  have inv'': "server_inv h N (sv, w')"
    using inv' net_quiet(3) [OF laws wait] by (rule Inv_same_net)
  have "wp (handle_events K events) (\<lambda>_. server_inv h N) fails (sv, w')" for events
    using handle_events_inv [OF laws inv''] .
  with inv' inv'' wait show ?thesis
    by (cases r) (auto simp: run_body_def s wp_eqs)
qed

lemma Run_partial:
  assumes laws: "net_laws K N" and others: "\<And>s. server_inv h N s \<Longrightarrow> server_inv h N (others s)"
    and inv: "server_inv h N s" and run: "Run K others s = Some (r, s')"
  shows "case r of Inl e \<Rightarrow> external e | Inr _ \<Rightarrow> all_closed h N s'"
proof -
  obtain r1 s1 where loop: "loop (run_body K others) () s = Some (r1, s1)"
    using run by (auto simp: Run_alt seq_def andthen_def split: option.splits)
  have post: "case r1 of Inl e \<Rightarrow> external e | Inr _ \<Rightarrow> server_inv h N s1"
    using loop_partial [where I = "\<lambda>_. server_inv h N" and Q = "\<lambda>_. server_inv h N" and E = fails,
        OF run_body_inv [OF laws others] inv loop] by simp
  show ?thesis
  proof (cases r1)
    case (Inl e)
    with run loop post show ?thesis by (auto simp: Run_alt seq_def andthen_def)
  next
    case (Inr u)
    with run loop have close: "CloseAllConnections K s1 = Some (r, s')"
      by (simp add: Run_alt seq_def andthen_def)
    have "server_inv h N s1" using post Inr by simp
    from CloseAllConnections_closes [OF laws this] close show ?thesis
      by (auto simp: wp_def all_closed_def split: sum.splits)
  qed
qed

lemma Run_stops:
  assumes laws: "net_laws K N" and others: "\<And>s. server_inv h N s \<Longrightarrow> server_inv h N (others s)"
    and inv: "server_inv h N s" and stop: "stop_requested (fst (others s))"
  shows "\<exists>r s'. Run K others s = Some (r, s')"
proof -
  obtain sv w where s: "others s = (sv, w)" by (cases "others s")
  have "run_body K others () s = Some (Inr (Inr ()), (sv, w))"
    using stop by (simp add: run_body_def seq_def andthen_def modify_def s server_def peek_def ret_def)
  then have "loop (run_body K others) () s = Some (Inr (), (sv, w))"
    by (simp add: loop_def loop_body_def iterate_return)
  moreover have "server_inv h N (sv, w)" using others [OF inv] by (simp add: s)
  ultimately show ?thesis
    using wp_returns [OF CloseAllConnections_closes [OF laws]] by (simp add: Run_alt seq_def andthen_def)
qed

section \<open>The server as a state machine\<close>

datatype system_action =
    Event epoll_event
  | Polled
  | PoolWakeup
  | WorkerAt nat
  | StopCalled
  | Elsewhere

text \<open>
  The actions: the reactor handles an event (with any flags, on any key) or polls; a notification or
  a spurious wake-up reaches the workers; a worker takes an item, waits, leaves, or completes
  an item and stores its result; another thread calls \<^verbatim>\<open>Stop\<close>; or something happens in the operating system
  that is not observed.
\<close>

inductive system_step ::
  "WorkHandler \<Rightarrow> 'w sys \<Rightarrow> 'w net \<Rightarrow> system_action \<Rightarrow> EpollEchoServer \<times> 'w \<Rightarrow> EpollEchoServer \<times> 'w \<Rightarrow> bool"
  for h K N where
  event: "dispatch K ev s = Some (Inr (), s') \<Longrightarrow> system_step h K N (Event ev) s s'"
| poll: "sys_epoll_wait K ep n t w = (r, w') \<Longrightarrow> system_step h K N Polled (sv, w) (sv, w')"
| wakeup: "pool_step h a (worker_pool sv) p \<Longrightarrow> a = Notified \<or> a = Spurious \<Longrightarrow>
    system_step h K N PoolWakeup (sv, w) (sv\<lparr>worker_pool := p\<rparr>, w)"
| work: "pool_step h (Worked k) (worker_pool sv) p \<Longrightarrow>
    for_each (StoreCompletedWork K) (drop (length (completed (worker_pool sv))) (completed p))
      (sv\<lparr>worker_pool := p\<rparr>, w) = Some (Inr (), s') \<Longrightarrow>
    system_step h K N (WorkerAt k) (sv, w) s'"
| stop: "Stop K s = Some (Inr (), s') \<Longrightarrow> system_step h K N StopCalled s s'"
| elsewhere: "same_net N w w' \<Longrightarrow> system_step h K N Elsewhere (sv, w) (sv, w')"

inductive system_run ::
  "WorkHandler \<Rightarrow> 'w sys \<Rightarrow> 'w net \<Rightarrow> system_action list \<Rightarrow> EpollEchoServer \<times> 'w \<Rightarrow> EpollEchoServer \<times> 'w \<Rightarrow> bool"
  for h K N where
  finish: "system_run h K N [] s s"
| more: "system_step h K N a s s1 \<Longrightarrow> system_run h K N as s1 s' \<Longrightarrow> system_run h K N (a # as) s s'"

lemma outstanding_worked:
  assumes "pool_step h (Worked k) p p'"
  obtains rs where "completed p' = completed p @ rs" "accepted p' = accepted p"
    "outstanding h p' (todo @ rs) = outstanding h p todo"
proof -
  from assms have k: "k < length (workers p)" and step: "worker_step h k p = Some p'"
    by (cases rule: pool_step.cases; simp)+
  note held = held_update [OF k]
  from step show thesis
  proof (cases rule: worker_step_cases)
    case waits
    with held [of Waiting] show thesis
      by (intro that [of "[]"]) (simp_all add: outstanding_def held_def)
  next
    case leaves
    with held [of Exited] show thesis
      by (intro that [of "[]"]) (simp_all add: outstanding_def held_def)
  next
    case (takes item rest)
    with held [of "Handling item"] show thesis
      by (intro that [of "[]"]) (simp_all add: outstanding_def held_def)
  next
    case (completes item)
    have "held_items p = add_mset item (sum_list (map held ((workers p)[k := Ready])))"
      using held [of Ready] completes(1) by (simp add: held_def)
    with completes(2) show thesis
      by (intro that [of "[work_result h item]"]) (simp_all add: outstanding_def)
  qed
qed

lemma outstanding_notified:
  assumes "pool_step h a p p'" "a = Notified \<or> a = Spurious"
  shows "completed p' = completed p" "accepted p' = accepted p" "outstanding h p' todo = outstanding h p todo"
proof -
  have held: "sum_list (map held ((workers p)[k := Ready])) = held_items p"
    if "k < length (workers p)" "workers p ! k = Waiting" for k
    using held_update [OF that(1), of Ready] that(2) by (simp add: held_def)
  have wake: "sum_list (map (held \<circ> wake) (workers p)) = held_items p"
    by (simp add: comp_def)
  from assms show "completed p' = completed p" "accepted p' = accepted p"
    "outstanding h p' todo = outstanding h p todo"
    by (cases rule: pool_step.cases; auto simp: outstanding_def held wake)+
qed

lemma Inv_pool:
  assumes "Inv h N D todo (sv, w)" "accepted p = accepted (worker_pool sv)"
    and "pool_inv h p"
    and "outstanding h p (todo' @ done) = outstanding h (worker_pool sv) (todo @ completed_work sv)"
  shows "Inv h N D todo' (sv\<lparr>worker_pool := p, completed_work := done\<rparr>, w)"
  using assms by (simp add: Inv_def find_flow_def)

lemma StoreCompletedWork_inv:
  assumes laws: "net_laws K N" and inv: "Inv h N {} (r # todo) (sv, w)"
  shows "wp (StoreCompletedWork K r) (\<lambda>_. Inv h N {} todo) (\<lambda>_ _. False) (sv, w)"
proof -
  let ?sv = "sv\<lparr>completed_work := completed_work sv @ [r]\<rparr>"
  have "outstanding h (worker_pool sv) (todo @ completed_work sv @ [r]) =
      outstanding h (worker_pool sv) ((r # todo) @ completed_work sv)"
    by (simp add: outstanding_def)
  then have "Inv h N {} todo (?sv, w)"
    using Inv_pool [OF inv, of "worker_pool sv" todo "completed_work sv @ [r]"] InvD(4) [OF inv] by simp
  from NotifyWorkerWakeup_inv [OF laws this] show ?thesis
    by (auto simp: StoreCompletedWork_def wp_eqs elim!: wp_mono)
qed

lemma store_results_inv:
  assumes laws: "net_laws K N" and inv: "Inv h N {} rs s"
  shows "wp (for_each (StoreCompletedWork K) rs) (\<lambda>_. server_inv h N) (\<lambda>_ _. False) s"
  using inv
proof (induction rs arbitrary: s)
  case Nil
  then show ?case by (simp add: wp_eqs)
next
  case (Cons r rs)
  obtain sv w where s: "s = (sv, w)" by (cases s)
  from Cons.prems have "wp (StoreCompletedWork K r) (\<lambda>_. Inv h N {} rs) (\<lambda>_ _. False) s"
    unfolding s by (rule StoreCompletedWork_inv [OF laws])
  then have "wp (StoreCompletedWork K r)
      (\<lambda>_. wp (for_each (StoreCompletedWork K) rs) (\<lambda>_. server_inv h N) (\<lambda>_ _. False)) (\<lambda>_ _. False) s"
    by (rule wp_mono) (use Cons.IH in auto)
  then show ?case by (simp add: wp_eqs)
qed

text \<open>A worker's step is followed by storing what it completed, and neither can fail.\<close>

lemma work_step_inv:
  assumes laws: "net_laws K N" and inv: "server_inv h N (sv, w)"
    and step: "pool_step h (Worked k) (worker_pool sv) p"
  shows "wp (for_each (StoreCompletedWork K) (drop (length (completed (worker_pool sv))) (completed p)))
    (\<lambda>_. server_inv h N) (\<lambda>_ _. False) (sv\<lparr>worker_pool := p\<rparr>, w)"
proof -
  obtain rs where rs: "completed p = completed (worker_pool sv) @ rs" "accepted p = accepted (worker_pool sv)"
    "outstanding h p (completed_work sv @ rs) = outstanding h (worker_pool sv) (completed_work sv)"
    using outstanding_worked [OF step] by metis
  have "pool_inv h p"
    using step InvD(4) [OF inv] by (rule pool_step_inv)
  moreover have "outstanding h p (rs @ completed_work sv) = outstanding h p (completed_work sv @ rs)"
    by (simp add: outstanding_def)
  ultimately have "Inv h N {} rs (sv\<lparr>worker_pool := p\<rparr>, w)"
    using Inv_pool [OF inv rs(2), of rs "completed_work sv"] rs(3) by simp
  from store_results_inv [OF laws this] rs(1) show ?thesis by simp
qed

lemma Stop_inv:
  assumes laws: "net_laws K N" and inv: "server_inv h N s"
  shows "wp (Stop K) (\<lambda>_ s'. server_inv h N s' \<and> stop_requested (fst s')) (\<lambda>_ _. False) s"
proof -
  obtain sv w where s: "s = (sv, w)" by (cases s)
  have "server_inv h N (sv\<lparr>stop_requested := True\<rparr>, w)" using inv by (simp add: s)
  from NotifyWorkerWakeup_inv [OF laws this] show ?thesis
    by (auto simp: Stop_def wp_eqs s elim!: wp_mono)
qed

lemma system_step_inv:
  assumes laws: "net_laws K N" and step: "system_step h K N a s s'" and inv: "server_inv h N s"
  shows "server_inv h N s'"
  using step
proof cases
  case (event ev)
  then show ?thesis using wpD(1) [OF dispatch_inv [OF laws inv]] by blast
next
  case (poll ep n t w r w' sv)
  then show ?thesis using inv Inv_same_net net_quiet(3) [OF laws] by metis
next
  case (wakeup b sv p w)
  note p = outstanding_notified [OF wakeup(4,5)]
  have "pool_inv h p"
    using wakeup(4) InvD(4) [of h N "{}" "[]" sv w] inv wakeup(2) by (auto intro: pool_step_inv)
  then show ?thesis
    using Inv_pool [of h N "{}" "[]" sv w p "[]" "completed_work sv"] inv wakeup(2,3) p by simp
next
  case (work k sv p w)
  then show ?thesis using wpD(1) [OF work_step_inv [OF laws]] inv by blast
next
  case stop
  then show ?thesis using wpD(1) [OF Stop_inv [OF laws inv]] by blast
next
  case (elsewhere w w' sv)
  then show ?thesis using inv Inv_same_net by metis
qed

lemma system_run_inv:
  assumes "net_laws K N"
  shows "system_run h K N as s s' \<Longrightarrow> server_inv h N s \<Longrightarrow> server_inv h N s'"
  by (induction rule: system_run.induct) (auto dest: system_step_inv [OF assms])

section \<open>Reachable states\<close>

lemma system_step_framed:
  assumes laws: "net_laws K N" and step: "system_step h K N a s s'" and s: "framed N base cfg s"
  shows "framed N base cfg s'"
  using step
proof cases
  case (event ev)
  then show ?thesis using preservesD [OF framed_events(1) [OF laws]] s by blast
next
  case (poll ep n t w r w' sv)
  then show ?thesis using s net_quiet(3) [OF laws poll(4)] by (auto simp: framed_def same_net_def intro: accounts_opened)
next
  case (wakeup b sv p w)
  then show ?thesis using s by (simp add: framed_def)
next
  case (work k sv p w)
  have start: "framed N base cfg (sv\<lparr>worker_pool := p\<rparr>, w)" using s work(2) by (simp add: framed_def)
  have store: "preserves (framed N base cfg) (for_each (StoreCompletedWork K) rs)" for rs
    by (intro preserve_intros laws)
  show ?thesis using preservesD [OF store work(4) start] .
next
  case stop
  then show ?thesis using preservesD [OF framed_responses(9) [OF laws]] s by blast
next
  case (elsewhere w w' sv)
  then show ?thesis using s by (auto simp: framed_def same_net_def intro: accounts_opened)
qed

lemma system_run_framed:
  assumes "net_laws K N"
  shows "system_run h K N as s s' \<Longrightarrow> framed N base cfg s \<Longrightarrow> framed N base cfg s'"
  by (induction rule: system_run.induct) (auto dest: system_step_framed [OF assms])

text \<open>
  The states of a server that was constructed from \<open>options\<close> in the system state \<open>w0\<close> and then ran.
\<close>

definition reachable ::
  "'w sys \<Rightarrow> 'w net \<Rightarrow> WorkHandler \<Rightarrow> EpollEchoServerOptions \<Rightarrow> 'w \<Rightarrow> EpollEchoServer \<times> 'w \<Rightarrow> bool" where
  "reachable K N h options w0 s \<longleftrightarrow>
     opt_handler options = Some h \<and> opt_max_in_flight_requests_per_connection options \<le> SIZE_MAX \<and>
     (\<exists>spawn p sv1 w1 as. new_EpollEchoServer K spawn p options w0 = Some (Inr sv1, w1) \<and>
        system_run h K N as (sv1, w1) s)"

lemma reachable_inv:
  assumes laws: "net_laws K N" "setup_laws K N sm" and reach: "reachable K N h options w0 (sv, w)"
  shows "server_inv h N (sv, w)"
    "max_connections sv = opt_max_connections options"
    "max_in_flight_requests_per_connection sv = opt_max_in_flight_requests_per_connection options"
    "accounts N (opened N w0 \<union> server_fds sv) (registry sv) w" "server_fds sv \<inter> opened N w0 = {}"
    "reg_limits (registry sv) = opt_connection_limits options"
    "mask_active (signal_mask_state sv) \<longleftrightarrow> opt_shutdown_signals options \<noteq> []"
    "mask_active (signal_mask_state sv) \<Longrightarrow> previous_mask (signal_mask_state sv) = sm w0"
proof -
  from reach obtain spawn p sv1 w1 as where run: "system_run h K N as (sv1, w1) (sv, w)"
    and new: "new_EpollEchoServer K spawn p options w0 = Some (Inr sv1, w1)"
    and opt: "opt_max_in_flight_requests_per_connection options \<le> SIZE_MAX"
    by (auto simp: reachable_def)
  have fresh: "fresh_server options sv1" and fds: "server_fds sv1 \<inter> opened N w0 = {}"
    and w1: "opened N w1 = server_fds sv1 \<union> opened N w0" and mask: "mask_saved sm (sm w0) (signal_mask_state sv1) w1"
    using wpD(1) [OF new_EpollEchoServer_outcome [OF laws(2), of "opened N w0" "sm w0"] new] by (simp_all add: at_def)
  show "server_inv h N (sv, w)"
    using system_run_inv [OF laws(1) run] fresh_server_inv [OF fresh opt] .
  have "framed N (opened N w0 \<union> server_fds sv1) (config sv1) (sv1, w1)"
    using fresh w1 by (auto simp: framed_def accounts_def fresh_server_def new_ConnectionRegistry_def fd_list_def)
  from system_run_framed [OF laws(1) run this] have f: "config sv = config sv1"
    "accounts N (opened N w0 \<union> server_fds sv1) (registry sv) w" by (simp_all add: framed_def)
  moreover from f(1) have same: "server_fds sv = server_fds sv1" by (simp add: config_def server_fds_def)
  ultimately show "accounts N (opened N w0 \<union> server_fds sv) (registry sv) w" "server_fds sv \<inter> opened N w0 = {}"
    using fds by simp_all
  show "max_connections sv = opt_max_connections options"
    "max_in_flight_requests_per_connection sv = opt_max_in_flight_requests_per_connection options"
    "reg_limits (registry sv) = opt_connection_limits options"
    "mask_active (signal_mask_state sv) \<longleftrightarrow> opt_shutdown_signals options \<noteq> []"
    using f(1) fresh by (simp_all add: config_def fresh_server_def new_ConnectionRegistry_def)
  show "mask_active (signal_mask_state sv) \<Longrightarrow> previous_mask (signal_mask_state sv) = sm w0"
    using f(1) mask by (simp add: config_def mask_saved_def)
qed

lemma system_run_append:
  "system_run h K N as s s1 \<Longrightarrow> system_run h K N bs s1 s2 \<Longrightarrow> system_run h K N (as @ bs) s s2"
  by (induction rule: system_run.induct) (auto intro: system_run.intros)

lemma reachable_run: "reachable K N h options w0 s \<Longrightarrow> system_run h K N as s s' \<Longrightarrow> reachable K N h options w0 s'"
  unfolding reachable_def by (blast intro: system_run_append)

lemma system_run_single: "system_step h K N a s s' \<Longrightarrow> system_run h K N [a] s s'"
  by (rule system_run.more [OF _ system_run.finish])

section \<open>Answers\<close>

text \<open>The response to a request, as the worker loop computes it from the handler.\<close>

definition respond :: "WorkHandler \<Rightarrow> Message \<Rightarrow> Message" where
  "respond h m = (case h m of Inl e \<Rightarrow> WorkerHandlerErrorResponse (request_id m) | Inr r \<Rightarrow> r)"

lemma answer_respond: "answer h it = respond h (wi_request it)"
  by (simp add: answer_def respond_def work_result_def Let_def split: sum.splits)

text \<open>
  What a connection has been asked and has been told: the requests \<open>ms\<close> are the frames in the bytes
  received, and the bytes sent and pending are the responses to the first \<open>n\<close> of them.
\<close>

definition answered :: "WorkHandler \<Rightarrow> 'w net \<Rightarrow> Connection \<Rightarrow> 'w \<Rightarrow> Message list \<Rightarrow> nat \<Rightarrow> bool" where
  "answered h N c w ms n \<longleftrightarrow> n \<le> length ms \<and>
     parse_stream frame_verdict (received N (get (conn_fd c)) w) = (ms, None, unread (decoder c)) \<and>
     wire N (get (conn_fd c)) w @ pending c = concat (map (\<lambda>m. frame_of (respond h m)) (take n ms))"

lemma session_answered:
  assumes "session h N mx its R [] c fl w"
  obtains n where "flow_tracks h mx its R n fl" "answered h N c w (map wi_request its) n"
proof -
  from assms obtain n where n: "flow_tracks h mx its R n fl"
    "wire N (get (conn_fd c)) w @ pending c = concat (map (\<lambda>it. frame_of (answer h it)) (take n its))"
    "parse_stream frame_verdict (received N (get (conn_fd c)) w) = (map wi_request its, None, unread (decoder c))"
    by (auto simp: session_def)
  then have "answered h N c w (map wi_request its) n"
    using tracksD(3) [OF n(1)] by (simp add: answered_def answer_respond take_map comp_def)
  with n(1) that show thesis by blast
qed

text \<open>The next response is outstanding, unless everything has been answered.\<close>

lemma next_outstanding:
  assumes t: "flow_tracks h mx its R n fl" and none: "completed_responses fl (next_response_sequence fl) = None"
    and "n < length its"
  shows "work_result h (its ! n) \<in># R"
proof -
  have "its ! n \<in> set (drop n its)"
    using assms(3) by (metis Cons_nth_drop_Suc list.set_intros(1))
  moreover have "completed_responses fl (wi_sequence (its ! n)) = None"
    using none tracksD(2,5) [OF t] assms(3) by simp
  ultimately show ?thesis
    unfolding tracksD(7) [OF t] by simp
qed

lemma all_answered:
  assumes inv: "server_inv h N (sv, w)" and rest: "at_rest h (worker_pool sv)" "completed_work sv = []"
    and c: "Find (registry sv) i = Some c"
  shows "\<exists>ms. answered h N c w ms (length ms)"
proof -
  from Inv_flow [OF inv] c obtain fl where fl: "find_flow i sv = Some fl" by (metis not_Some_eq)
  have s: "session_at h N [] [] sv w i c fl" "settled c fl"
    using InvD(3) [OF inv, of i c fl] c fl by simp_all
  have "image_mset (work_result h) (held_items (worker_pool sv)) = {#}"
    using at_rest_done [OF InvD(4) [OF inv] rest(1)] InvD(4) [OF inv]
    by (auto simp: pool_inv_def work_conserved_def)
  then have "results_for i (outstanding h (worker_pool sv) ([] @ completed_work sv)) = {#}"
    using at_rest_done(1) [OF InvD(4) [OF inv] rest(1)] rest(2) by (simp add: outstanding_def results_for_def)
  with s(1) obtain n where n: "flow_tracks h (max_in_flight_requests_per_connection sv)
      (items_of i (accepted (worker_pool sv))) {#} n fl"
    "answered h N c w (map wi_request (items_of i (accepted (worker_pool sv)))) n"
    by (metis session_answered)
  have "\<not> n < length (items_of i (accepted (worker_pool sv)))"
    using next_outstanding [OF n(1)] s(2) by (auto simp: settled_def)
  with tracksD(3) [OF n(1)] n(2) show ?thesis
    by (metis le_antisym length_map not_less)
qed

end
