(* ===== verification/Server_Progress.thy ===== *)
theory Server_Progress
  imports Server_System
begin

text \<open>
  Progress of the whole server: from every reachable state the workers can finish what was
  submitted, and the reactor's next handling of their wake-up then leaves no request without
  its response. A stopped event loop returns with every connection closed.
\<close>

section \<open>What handling results leaves alone\<close>

definition work_state :: "WorkerPool \<Rightarrow> WorkResult list \<Rightarrow> EpollEchoServer \<times> 'w \<Rightarrow> bool" where
  "work_state p rs = (\<lambda>(sv, w). worker_pool sv = p \<and> completed_work sv = rs)"

lemma work_state_basic [preserve_intros]:
  "preserves (work_state p rs) (syscall call)" "preserves (work_state p rs) (on_connection i f)"
  "preserves (work_state p rs) (remove_from_registry K i)"
  by (auto simp: preserves_def work_state_def syscall_def on_world_def act_def on_connection_def remove_from_registry_def
      split: prod.splits option.splits)

lemma work_state_set_server [preserve_intros]:
  assumes "\<And>sv. worker_pool (f sv) = worker_pool sv" "\<And>sv. completed_work (f sv) = completed_work sv"
  shows "preserves (work_state p rs) (set_server f)"
  using assms by (auto simp: preserves_def set_server_def modify_def work_state_def)

lemma work_state_flow [preserve_intros]: "preserves (work_state p rs) (set_flow i f)"
  unfolding set_flow_def by (intro preserve_intros) simp_all

lemma work_state_results [preserve_intros]:
  "preserves (work_state p rs) (RemoveConnection K i)" "preserves (work_state p rs) (UpdateInterest K i)"
  "preserves (work_state p rs) (FlushReadyResponses K i)" "preserves (work_state p rs) (HandleCompletedWork K r)"
  "preserves (work_state p rs) (NotifyWorkerWakeup K)" "preserves (work_state p rs) (drain_fd K fd n name (ret ()))"
  unfolding RemoveConnection_def UpdateInterest_def FlushReadyResponses_def flush_loop_def HandleCompletedWork_def
    EpollCtl_def NotifyWorkerWakeup_def drain_fd_def Let_def
  by (intro preserve_intros; simp)+

text \<open>After a wake-up has been handled, no result waits to be handled.\<close>

lemma HandleWorkerWakeup_empties:
  assumes "HandleWorkerWakeup K (sv, w) = Some (Inr (), (sv', w'))"
  shows "worker_pool sv' = worker_pool sv" "completed_work sv' = []"
proof -
  let ?tail = "andthen (server completed_work) (\<lambda>completed.
            seq (set_server (\<lambda>sv. sv\<lparr>completed_work := []\<rparr>))
              (for_each (HandleCompletedWork K) completed))"
  from assms have "andthen (drain_fd K (worker_wakeup sv) 8 ''read(eventfd)'' (ret ())) (\<lambda>_. ?tail) (sv, w) =
      Some (Inr (), (sv', w'))"
    by (simp add: HandleWorkerWakeup_def andthen_server seq_def [of "drain_fd K fd n nm e" for fd n nm e])
  then obtain sv1 w1 where d: "drain_fd K (worker_wakeup sv) 8 ''read(eventfd)'' (ret ()) (sv, w) = Some (Inr (), (sv1, w1))"
    and t: "?tail (sv1, w1) = Some (Inr (), (sv', w'))"
    by (cases rule: andthen_cases) auto
  have "work_state (worker_pool sv) (completed_work sv) (sv1, w1)"
    by (rule preservesD [OF work_state_results(6) d]) (simp add: work_state_def)
  then have p: "worker_pool sv1 = worker_pool sv" by (simp add: work_state_def)
  from t have f: "for_each (HandleCompletedWork K) (completed_work sv1) (sv1\<lparr>completed_work := []\<rparr>, w1) = Some (Inr (), (sv', w'))"
    by (simp add: andthen_server seq_def [of "set_server g" for g]) (simp add: andthen_def set_server_def modify_def)
  have "preserves (work_state (worker_pool sv1) []) (for_each (HandleCompletedWork K) (completed_work sv1))"
    by (intro preserve_intros)
  from preservesD [OF this f] p show "worker_pool sv' = worker_pool sv" "completed_work sv' = []"
    by (simp_all add: work_state_def)
qed

section \<open>Letting the workers finish\<close>

definition worker_action :: "system_action \<Rightarrow> bool" where
  "worker_action a \<longleftrightarrow> a = PoolWakeup \<or> (\<exists>k. a = WorkerAt k)"

lemma store_results_pool:
  assumes "for_each (StoreCompletedWork K) rs (sv, w) = Some (r, (sv', w'))"
  shows "worker_pool sv' = worker_pool sv"
proof -
  let ?I = "\<lambda>(sv', w). worker_pool sv' = worker_pool sv"
  have "preserves ?I (NotifyWorkerWakeup K)"
    by (rule preservesI) (use preservesD [OF work_state_results(5)] in \<open>fastforce simp: work_state_def\<close>)
  moreover have "preserves ?I (set_server (\<lambda>sv. sv\<lparr>completed_work := completed_work sv @ [x]\<rparr>))" for x
    by (auto simp: preserves_def set_server_def modify_def)
  ultimately have "preserves ?I (for_each (StoreCompletedWork K) rs)"
    unfolding StoreCompletedWork_def by (intro preserve_intros)
  from preservesD [OF this assms] show ?thesis by simp
qed

lemma worker_action_lifts:
  assumes laws: "net_laws K N" and inv: "server_inv h N (sv, w)"
    and own: "own_action a" "pool_step h a (worker_pool sv) p"
  shows "\<exists>act s'. system_step h K N act (sv, w) s' \<and> worker_action act \<and> worker_pool (fst s') = p"
proof (cases "\<exists>k. a = Worked k")
  case True
  then obtain k where step: "pool_step h (Worked k) (worker_pool sv) p" using own(2) by blast
  from work_step_inv [OF laws inv step] obtain sv' w' where
    s': "for_each (StoreCompletedWork K) (drop (length (completed (worker_pool sv))) (completed p)) (sv\<lparr>worker_pool := p\<rparr>, w)
      = Some (Inr (), (sv', w'))"
    by (elim wp_no_throw) auto
  from store_results_pool [OF s'] have "worker_pool sv' = p" by simp
  with system_step.work [OF step s'] show ?thesis by (auto simp: worker_action_def)
next
  case False
  with own(1) have "a = Notified" by (auto simp: own_action_def split: pool_action.splits)
  with own(2) have "system_step h K N PoolWakeup (sv, w) (sv\<lparr>worker_pool := p\<rparr>, w)"
    by (blast intro: system_step.wakeup)
  then show ?thesis
    by (intro exI [of _ PoolWakeup] exI [of _ "(sv\<lparr>worker_pool := p\<rparr>, w)"]) (simp add: worker_action_def)
qed

lemma workers_finish:
  assumes laws: "net_laws K N"
  shows "pool_run h as p p' \<Longrightarrow> list_all own_action as \<Longrightarrow> server_inv h N (sv, w) \<Longrightarrow> worker_pool sv = p \<Longrightarrow>
    \<exists>acts s'. system_run h K N acts (sv, w) s' \<and> list_all worker_action acts \<and> worker_pool (fst s') = p'"
proof (induction arbitrary: sv w rule: pool_run.induct)
  case (stop p)
  then show ?case by (intro exI [of _ "[]"] exI [of _ "(sv, w)"]) (simp add: system_run.finish)
next
  case (step a p p1 as p')
  from worker_action_lifts [OF laws step.prems(2), of a p1] step obtain act s1 where
    s1: "system_step h K N act (sv, w) s1" "worker_action act" "worker_pool (fst s1) = p1" by auto
  have "server_inv h N (fst s1, snd s1)"
    using system_step_inv [OF laws s1(1) step.prems(2)] by simp
  from step.IH [OF _ this s1(3)] step.prems(1) obtain acts s' where
    "system_run h K N acts s1 s'" "list_all worker_action acts" "worker_pool (fst s') = p'" by auto
  with s1 show ?case by (intro exI [of _ "act # acts"] exI [of _ s']) (auto intro: system_run.more)
qed

abbreviation worker_wakeup_event :: epoll_event where
  "worker_wakeup_event \<equiv> \<lparr>ev_events = EPOLLIN, ev_data = kWorkerWakeupKey\<rparr>"

lemma dispatch_wakeup: "dispatch K worker_wakeup_event = HandleWorkerWakeup K"
  by (simp add: dispatch_def Let_def const_defs UINT64_MAX_def)

lemma answers_arrive:
  assumes laws: "net_laws K N" and inv: "server_inv h N s"
  shows "\<exists>acts s1 r s2. system_run h K N acts s s1 \<and> list_all worker_action acts \<and>
    dispatch K worker_wakeup_event s1 = Some (r, s2) \<and>
    (case r of
       Inl e \<Rightarrow> external e
     | Inr _ \<Rightarrow> \<forall>i c. Find (registry (fst s2)) i = Some c \<longrightarrow> (\<exists>ms. answered h N c (snd s2) ms (length ms)))"
proof -
  obtain sv w where s: "s = (sv, w)" by (cases s)
  obtain as p' where run: "pool_run h as (worker_pool sv) p'" "list_all own_action as" "at_rest h p'"
    using at_rest_reached by blast
  obtain acts s1 where
    acts: "system_run h K N acts s s1" "list_all worker_action acts" "worker_pool (fst s1) = p'"
    using workers_finish [OF laws run(1,2) inv [unfolded s] refl] s by blast
  have inv1: "server_inv h N s1" using system_run_inv [OF laws acts(1) inv] .
  note handled = dispatch_inv [OF laws inv1, of worker_wakeup_event]
  obtain r s2 where r: "dispatch K worker_wakeup_event s1 = Some (r, s2)"
    using wp_returns [OF handled] by blast
  have "case r of Inl e \<Rightarrow> external e
     | Inr _ \<Rightarrow> \<forall>i c. Find (registry (fst s2)) i = Some c \<longrightarrow> (\<exists>ms. answered h N c (snd s2) ms (length ms))"
  proof (cases r)
    case (Inl e)
    with wpD(2) [OF handled] r show ?thesis by simp
  next
    case (Inr u)
    then have ret: "dispatch K worker_wakeup_event (fst s1, snd s1) = Some (Inr (), (fst s2, snd s2))" using r by simp
    have inv2: "server_inv h N (fst s2, snd s2)" using wpD(1) [OF handled] r Inr by simp
    have rest: "at_rest h (worker_pool (fst s2))" "completed_work (fst s2) = []"
      using HandleWorkerWakeup_empties [OF ret [unfolded dispatch_wakeup]] acts(3) run(3) by simp_all
    show ?thesis using Inr all_answered [OF inv2 rest] by simp
  qed
  with acts(1,2) r show ?thesis by blast
qed

section \<open>The event loop\<close>

text \<open>The other threads, between two rounds of the event loop, act as the state machine allows.\<close>

definition acts_as_system ::
  "WorkHandler \<Rightarrow> 'w sys \<Rightarrow> 'w net \<Rightarrow> (EpollEchoServer \<times> 'w \<Rightarrow> EpollEchoServer \<times> 'w) \<Rightarrow> bool" where
  "acts_as_system h K N others \<longleftrightarrow> (\<forall>s. \<exists>as. system_run h K N as s (others s))"

lemma Run_framed:
  assumes laws: "net_laws K N" and others: "\<And>s. framed N base cfg s \<Longrightarrow> framed N base cfg (others s)"
  shows "preserves (framed N base cfg) (Run K others)"
proof -
  have "preserves (framed N base cfg) (modify others)"
    by (rule preservesI) (use others in \<open>auto simp: modify_def\<close>)
  then show ?thesis
    unfolding Run_def by (intro preserve_intros laws)
qed

lemma Run_closes:
  assumes laws: "net_laws K N" "setup_laws K N sm" and reach: "reachable K N h options w0 s"
    and others: "acts_as_system h K N others" and run: "Run K others s = Some (r, s')"
  shows "case r of Inl e \<Rightarrow> external e
    | Inr _ \<Rightarrow> live_connection_count (fst s') = 0 \<and> connection_flows (fst s') = [] \<and>
        opened N (snd s') = opened N w0 \<union> server_fds (fst s')"
proof -
  obtain sv w where s: "s = (sv, w)" by (cases s)
  note r = reachable_inv [OF laws reach [unfolded s]]
  have keep: "server_inv h N (others t)" if "server_inv h N t" for t
    using others that system_run_inv [OF laws(1)] unfolding acts_as_system_def by blast
  have frame: "framed N base cfg (others t)" if "framed N base cfg t" for base cfg t
    using others that system_run_framed [OF laws(1)] unfolding acts_as_system_def by blast
  have "framed N (opened N w0 \<union> server_fds sv) (config sv) s"
    using r(4) by (simp add: framed_def s)
  from preservesD [OF Run_framed [OF laws(1) frame] run this] have f: "config (fst s') = config sv"
    "accounts N (opened N w0 \<union> server_fds sv) (registry (fst s')) (snd s')" by (auto simp: framed_def split: prod.splits)
  then have "server_fds (fst s') = server_fds sv" by (simp add: config_def server_fds_def)
  moreover have "case r of Inl e \<Rightarrow> external e | Inr _ \<Rightarrow> all_closed h N s'"
    using Run_partial [OF laws(1) keep _ run] r(1) s by simp
  ultimately show ?thesis
    using f(2) by (auto simp: all_closed_def live_connection_count_def registry_size_def accounts_def fd_list_def
        split: sum.splits prod.splits)
qed

section \<open>Destruction after the event loop\<close>

lemma delete_accounted:
  assumes "setup_laws K N sm" "write_settles K (patience N)" "leaves_descriptors N sm join"
    and "mask_saved sm m (signal_mask_state sv) w"
    and acc: "accounts N (base \<union> server_fds sv) (registry sv) w" and "server_fds sv \<inter> base = {}"
  shows "wp (delete_EpollEchoServer K join) (\<lambda>_ (sv', w'). at N sm base m w') (\<lambda>_ _. False) (sv, w)"
proof -
  have "connection_fds (registry sv) = set (fd_list (registry sv))"
    using acc by (force simp: accounts_def connection_fds_def fd_list_def set_destroy)
  then have "opened N w - server_fds sv - connection_fds (registry sv) = base"
    using assms(5,6) by (auto simp: accounts_def)
  with delete_EpollEchoServer_releases [OF assms(1-4)] show ?thesis by simp
qed

end
