(* ===== verification/Scripted_Net.thy ===== *)
theory Scripted_Net
  imports Server_Progress
begin

text \<open>
  The scripted system satisfies the laws of the system calls that the theorems about the reactor
  assume, so that these theorems can be applied to concrete runs.
\<close>

definition script_opened :: "script \<Rightarrow> int set" where
  "script_opened w = {fd \<in> set (open_list w). fd < int (fd_next w)}"

definition script_patience :: "int \<Rightarrow> script \<Rightarrow> nat" where
  "script_patience fd w =
     length (recv_script w fd) + length (send_script w fd) + length (read_script w fd) + length (accept_script w)"

definition script_net :: "script net" where
  "script_net = \<lparr>inbound = script_inbound, received = (\<lambda>fd w. recv_bytes w fd), wire = script_wire,
     opened = script_opened, patience = script_patience\<rparr>"

lemma script_net_simps [simp]:
  "inbound script_net = script_inbound" "received script_net fd w = recv_bytes w fd"
  "wire script_net = script_wire" "opened script_net = script_opened" "patience script_net = script_patience"
  by (simp_all add: script_net_def)

lemma scripted_settles:
  "recv_settles scripted script_patience" "send_settles scripted script_patience"
  "accept_settles scripted script_patience" "read_settles scripted script_patience"
  "write_settles scripted script_patience"
  by (auto simp: recv_settles_def send_settles_def accept_settles_def read_settles_def write_settles_def
      scripted_def script_patience_def script_open_def Let_def split: list.splits sum.splits option.splits)

lemma scripted_recv_observed: "recv_observed scripted script_net"
  by (auto simp: recv_observed_def scripted_def script_wire_def script_opened_def split: list.splits sum.splits)

lemma scripted_send_observed: "send_observed scripted script_net"
  by (auto simp: send_observed_def scripted_def script_wire_def script_opened_def split: list.splits sum.splits)

lemma scripted_accept_observed: "accept_observed scripted script_net"
  by (auto simp: accept_observed_def same_net_def scripted_def script_wire_def script_opened_def script_open_def Let_def
      split: list.splits sum.splits option.splits)

lemma scripted_close_observed: "close_observed scripted script_net"
  by (auto simp: close_observed_def scripted_def script_wire_def script_opened_def)

lemma scripted_others_quiet: "others_quiet scripted script_net"
proof -
  have "quiet script_net (script_ctl ep op fd ev)" for ep op fd ev
    by (cases op) (auto simp: quiet_def same_net_def script_wire_def script_opened_def)
  then show ?thesis
    by (auto simp: others_quiet_def quiet_def same_net_def scripted_def script_wire_def script_opened_def
        split: list.splits sum.splits)
qed

lemma scripted_net_laws: "net_laws scripted script_net"
  by (simp add: net_laws_def scripted_recv_takes_stream scripted_send_extends_stream scripted_settles
      scripted_recv_observed scripted_send_observed scripted_accept_observed scripted_close_observed
      scripted_others_quiet)

lemma script_creates: "creates script_net script_create" "keeps sig_mask script_create"
  "keeps script_opened script_setup" "keeps sig_mask script_setup"
  by (auto simp: creates_def keeps_def script_create_def script_setup_def script_open_def script_opened_def Let_def
      split: list.splits option.splits prod.splits sum.splits)

lemma script_ctl_keeps: "keeps script_opened (script_ctl ep op fd ev)" "keeps sig_mask (script_ctl ep op fd ev)"
  by (cases op; simp add: keeps_def script_opened_def)+

lemma scripted_setup_laws: "setup_laws scripted script_net sig_mask"
proof -
  have "keeps script_opened (\<lambda>w. (r, f w))" if "\<And>w. open_list (f w) = open_list w" "\<And>w. fd_next (f w) = fd_next w"
    for r :: 'x and f
    using that by (simp add: keeps_def script_opened_def)
  then show ?thesis
    by (auto simp: setup_laws_def scripted_def script_creates script_ctl_keeps)
      (auto simp: keeps_def script_opened_def split: sigmask_how.splits)
qed

end
