(* ===== verification/Blocking_Tcp.thy ===== *)
theory Blocking_Tcp
  imports Scripted_Net "HOL-Library.Sublist"
begin

text \<open>
  The blocking baseline (\<^verbatim>\<open>include/pulsecore/network/blocking_tcp.hpp\<close>, \<^verbatim>\<open>src/network/blocking_tcp.cpp\<close>): a server that
  serves one client at a time, and the client side. The lemmas show that every loop returns, that the
  server's answers are those that the reactor gives, and that the client's socket is closed on
  every path.
\<close>

section \<open>Results\<close>

datatype ReadMessageStatus = kMessage | kClosed | kProtocolError

record ReadMessageResult =
  rm_status :: ReadMessageStatus
  rm_message :: "Message option"
  rm_protocol_error :: "ProtocolError option"

definition ReadMessageResult_Message :: "Message \<Rightarrow> ReadMessageResult" where
  "ReadMessageResult_Message m = \<lparr>rm_status = kMessage, rm_message = Some m, rm_protocol_error = None\<rparr>"

definition ReadMessageResult_Closed :: ReadMessageResult where
  "ReadMessageResult_Closed = \<lparr>rm_status = kClosed, rm_message = None, rm_protocol_error = None\<rparr>"

definition ReadMessageResult_ProtocolError :: "ProtocolError \<Rightarrow> ReadMessageResult" where
  "ReadMessageResult_ProtocolError e = \<lparr>rm_status = kProtocolError, rm_message = None, rm_protocol_error = Some e\<rparr>"

lemmas ReadMessageResult_defs = ReadMessageResult_Message_def ReadMessageResult_Closed_def
  ReadMessageResult_ProtocolError_def

section \<open>Sockets\<close>

definition kBlockingListenBacklog :: nat where
  [const_defs]: "kBlockingListenBacklog = 16"

text \<open>On Linux there is no \<^verbatim>\<open>SO_NOSIGPIPE\<close>; \<^verbatim>\<open>MSG_NOSIGNAL\<close> is passed to \<^verbatim>\<open>send\<close> instead.\<close>

definition CreateIpv4Socket :: "'w sys \<Rightarrow> ('w, UniqueFd) io" where
  "CreateIpv4Socket K = create_fd ''socket'' (sys_socket K SocketPlain)"

definition blocking_LoopbackAddress :: "u16 \<Rightarrow> sockaddr_in" where
  "blocking_LoopbackAddress p = \<lparr>sin_addr = htonl INADDR_LOOPBACK, sin_port = htons p\<rparr>"

definition blocking_BoundPort :: "'w sys \<Rightarrow> int \<Rightarrow> ('w, u16) io" where
  "blocking_BoundPort K fd =
     andthen (check ''getsockname'' (sys_getsockname K fd)) (\<lambda>address. ret (ntohs (sin_port address)))"

definition blocking_CreateListener :: "'w sys \<Rightarrow> u16 \<Rightarrow> ('w, UniqueFd) io" where
  "blocking_CreateListener K p =
     andthen (CreateIpv4Socket K) (\<lambda>l.
       owning K l
         (seq (check ''setsockopt(SO_REUSEADDR)'' (sys_reuseaddr K (get l)))
         (seq (check ''bind'' (sys_bind K (get l) (blocking_LoopbackAddress p)))
         (seq (check ''listen'' (sys_listen K (get l) kBlockingListenBacklog))
            (ret l)))))"

definition AcceptOne :: "'w sys \<Rightarrow> int \<Rightarrow> ('w, UniqueFd) io" where
  "AcceptOne K listener_fd =
     loop (\<lambda>_. andthen (act (sys_accept K listener_fd AcceptPlain)) (\<lambda>r.
       case r of
         Inr fd \<Rightarrow> ret (Inr (new_UniqueFd fd))
       | Inl e \<Rightarrow> if e = EINTR then ret (Inl ()) else throw (SyscallError ''accept'' e))) ()"

text \<open>A scope that owns a descriptor closes it however it is left.\<close>

definition scoped :: "'w sys \<Rightarrow> UniqueFd \<Rightarrow> ('w, 'a) io \<Rightarrow> ('w, 'a) io" where
  "scoped K fd m =
     andthen (owning K fd m) (\<lambda>x. seq (modify (close_all K (destroy fd))) (ret x))"

section \<open>Messages\<close>

definition SendAll :: "'w sys \<Rightarrow> int \<Rightarrow> byte list \<Rightarrow> ('w, unit) io" where
  "SendAll K fd bytes =
     loop (\<lambda>offset.
       if offset < length bytes then
         andthen (act (sys_send K fd (drop offset bytes))) (\<lambda>r.
           case r of
             Inl e \<Rightarrow> if e = EINTR then ret (Inl offset) else throw (SyscallError ''send'' e)
           | Inr sent \<Rightarrow>
               if sent = 0 then throw (RuntimeError ''send: wrote zero bytes'')
               else ret (Inl (offset + sent)))
       else ret (Inr ())) 0"

definition SendMessage :: "'w sys \<Rightarrow> int \<Rightarrow> Message \<Rightarrow> ('w, unit) io" where
  "SendMessage K fd message =
     (case EncodeMessage message of
        None \<Rightarrow> throw (RuntimeError ''failed to encode protocol message'')
      | Some encoded \<Rightarrow> SendAll K fd encoded)"

text \<open>The caller's decoder is part of the state, since \<^verbatim>\<open>ReadMessage\<close> takes it by reference.\<close>

definition ReadMessage :: "'w sys \<Rightarrow> int \<Rightarrow> (FrameDecoder \<times> 'w, ReadMessageResult) io" where
  "ReadMessage K fd =
     loop (\<lambda>_. andthen (act (\<lambda>(d, w). case Next d of (result, d') \<Rightarrow> (result, (d', w)))) (\<lambda>result.
       if dr_status result = kDecoded
       then ret (Inr (ReadMessageResult_Message (the (dr_message result))))
       else if dr_status result = kError
       then ret (Inr (ReadMessageResult_ProtocolError (the (dr_error result))))
       else
         andthen (on_world (act (sys_recv K fd 4096))) (\<lambda>r.
           case r of
             Inl e \<Rightarrow> if e = EINTR then ret (Inl ()) else throw (SyscallError ''recv'' e)
           | Inr bytes \<Rightarrow>
               if bytes = [] then ret (Inr ReadMessageResult_Closed)
               else seq (modify (\<lambda>(d, w). (Append d bytes, w))) (ret (Inl ()))))) ()"

text \<open>A block with a decoder of its own.\<close>

definition with_decoder :: "(FrameDecoder \<times> 'w, 'a) io \<Rightarrow> ('w, 'a) io" where
  "with_decoder m w = map_option (\<lambda>(r, (d, w')). (r, w')) (m (new_FrameDecoder, w))"

section \<open>Server\<close>

definition ServeClient :: "'w sys \<Rightarrow> int \<Rightarrow> ('w, unit) io" where
  "ServeClient K fd =
     with_decoder (loop (\<lambda>_. andthen (ReadMessage K fd) (\<lambda>read.
       if rm_status read = kClosed \<or> rm_status read = kProtocolError then ret (Inr ())
       else
         let response = HandleRequest (the (rm_message read))
         in seq (on_world (SendMessage K fd response)) (ret (Inl ())))) ())"

record BlockingEchoServer =
  blocking_listener :: UniqueFd
  blocking_port :: u16

definition new_BlockingEchoServer :: "'w sys \<Rightarrow> u16 \<Rightarrow> ('w, BlockingEchoServer) io" where
  "new_BlockingEchoServer K p =
     andthen (blocking_CreateListener K p) (\<lambda>l.
       owning K l
         (andthen (blocking_BoundPort K (get l)) (\<lambda>bound.
            ret \<lparr>blocking_listener = l, blocking_port = bound\<rparr>)))"

definition ServeOne :: "'w sys \<Rightarrow> BlockingEchoServer \<Rightarrow> ('w, unit) io" where
  "ServeOne K sv =
     andthen (AcceptOne K (get (blocking_listener sv))) (\<lambda>client.
       scoped K client (ServeClient K (get client)))"

section \<open>Client\<close>

definition ConnectTcp :: "'w sys \<Rightarrow> string \<Rightarrow> u16 \<Rightarrow> ('w, UniqueFd) io" where
  "ConnectTcp K host p =
     andthen (CreateIpv4Socket K) (\<lambda>client.
       owning K client
         (case lib_inet_pton K host of
            None \<Rightarrow> throw (RuntimeError ''inet_pton: invalid IPv4 address'')
          | Some ip \<Rightarrow>
              let address = \<lparr>sin_addr = ip, sin_port = htons p\<rparr> in
              loop (\<lambda>_. andthen (act (sys_connect K (get client) address)) (\<lambda>r.
                case r of
                  Inr _ \<Rightarrow> ret (Inr client)
                | Inl e \<Rightarrow> if e = EINTR then ret (Inl ()) else throw (SyscallError ''connect'' e))) ()))"

definition SendRequestAndReadResponse :: "'w sys \<Rightarrow> string \<Rightarrow> u16 \<Rightarrow> Message \<Rightarrow> ('w, Message) io" where
  "SendRequestAndReadResponse K host p request =
     andthen (ConnectTcp K host p) (\<lambda>client.
       scoped K client
         (seq (SendMessage K (get client) request)
            (with_decoder
               (andthen (ReadMessage K (get client)) (\<lambda>response.
                  if rm_status response = kClosed
                  then throw (RuntimeError ''connection closed before response'')
                  else if rm_status response = kProtocolError
                  then throw (RuntimeError ''protocol error while reading response'')
                  else ret (the (rm_message response)))))))"

section \<open>Sending\<close>

text \<open>Only the bytes sent on one descriptor may differ.\<close>

definition sent_only :: "'w net \<Rightarrow> int \<Rightarrow> byte list \<Rightarrow> 'w \<Rightarrow> 'w \<Rightarrow> bool" where
  "sent_only N fd bs w w' \<longleftrightarrow> wire N fd w' = wire N fd w @ bs \<and> opened N w' = opened N w \<and>
     (\<forall>x. received N x w' = received N x w) \<and> inbound N fd w' = inbound N fd w"

text \<open>What the peer is going to send is not taken off the stream by sending to it.\<close>

definition send_keeps_inbound :: "'w sys \<Rightarrow> 'w net \<Rightarrow> bool" where
  "send_keeps_inbound K N \<longleftrightarrow> (\<forall>fd bs w. inbound N fd (snd (sys_send K fd bs w)) = inbound N fd w)"

lemma send_step:
  assumes "net_laws K N" "send_keeps_inbound K N" "sys_send K fd bs w = (r, w')"
  shows "sent_only N fd (case r of Inl e \<Rightarrow> [] | Inr k \<Rightarrow> take k bs) w w'"
    "r = Inr k \<Longrightarrow> k \<le> length bs" "r = Inl EINTR \<Longrightarrow> patience N fd w' < patience N fd w"
proof -
  note laws = net_lawsD [OF assms(1)]
  have "inbound N fd w' = inbound N fd w"
    using assms(2,3) unfolding send_keeps_inbound_def by (metis snd_conv)
  then show "sent_only N fd (case r of Inl e \<Rightarrow> [] | Inr k \<Rightarrow> take k bs) w w'"
    using laws(9) [unfolded send_observed_def, rule_format, OF assms(3)]
      send_extends_streamD [OF laws(3), of fd bs w _ w'] assms(3)
    by (cases r) (auto simp: sent_only_def)
  show "r = Inr k \<Longrightarrow> k \<le> length bs"
    using send_extends_streamD(1) [OF laws(3), of fd bs w k w'] assms(3) by simp
  show "r = Inl EINTR \<Longrightarrow> patience N fd w' < patience N fd w"
    using laws(4) assms(3) by (auto simp: send_settles_def)
qed

lemma sent_only_refl: "sent_only N fd [] w w"
  by (simp add: sent_only_def)

lemma sent_only_trans: "sent_only N fd bs w w1 \<Longrightarrow> sent_only N fd cs w1 w2 \<Longrightarrow> sent_only N fd (bs @ cs) w w2"
  by (simp add: sent_only_def)

definition send_failure :: "exn \<Rightarrow> bool" where
  "send_failure e \<longleftrightarrow> (\<exists>err. e = SyscallError ''send'' err) \<or> e = RuntimeError ''send: wrote zero bytes''"

text \<open>Everything is sent, or a prefix of it and the system reported why.\<close>

lemma SendAll_sends:
  assumes laws: "net_laws K N" "send_keeps_inbound K N"
  shows "wp (SendAll K fd bytes) (\<lambda>_. sent_only N fd bytes w)
    (\<lambda>e w'. send_failure e \<and> (\<exists>k. sent_only N fd (take k bytes) w w')) w"
  unfolding SendAll_def
proof (rule wp_loop [where I = "\<lambda>o1 w1. o1 \<le> length bytes \<and> sent_only N fd (take o1 bytes) w w1" and
      R = "measures [\<lambda>(o1, w1). length bytes - o1, \<lambda>(o1, w1). patience N fd w1]"])
  fix o1 w1
  assume I: "o1 \<le> length bytes \<and> sent_only N fd (take o1 bytes) w w1"
  obtain r w2 where call: "sys_send K fd (drop o1 bytes) w1 = (r, w2)"
    by (metis prod.exhaust)
  note step = send_step [OF laws call]
  have total: "sent_only N fd (take o1 bytes @ (case r of Inl e \<Rightarrow> [] | Inr k \<Rightarrow> take k (drop o1 bytes))) w w2"
    by (rule sent_only_trans [OF conjunct2 [OF I] step(1)])
  show "wp (if o1 < length bytes then
         andthen (act (sys_send K fd (drop o1 bytes))) (\<lambda>r.
           case r of
             Inl e \<Rightarrow> if e = EINTR then ret (Inl o1) else throw (SyscallError ''send'' e)
           | Inr sent \<Rightarrow>
               if sent = 0 then throw (RuntimeError ''send: wrote zero bytes'')
               else ret (Inl (o1 + sent)))
       else ret (Inr ()))
     (\<lambda>y s'. case y of
        Inl o2 \<Rightarrow> (o2 \<le> length bytes \<and> sent_only N fd (take o2 bytes) w s') \<and>
          ((o2, s'), (o1, w1)) \<in> measures [\<lambda>(o1, w1). length bytes - o1, \<lambda>(o1, w1). patience N fd w1]
      | Inr z \<Rightarrow> sent_only N fd bytes w s')
     (\<lambda>e w'. send_failure e \<and> (\<exists>k. sent_only N fd (take k bytes) w w')) w1"
    using I total step(2,3) call
    by (cases r) (auto simp: wp_eqs send_failure_def take_add)
qed (simp_all add: sent_only_refl)

lemma SendMessage_sends:
  assumes "net_laws K N" "send_keeps_inbound K N"
  shows "wp (SendMessage K fd m) (\<lambda>_ w'. encodable m \<and> sent_only N fd (frame_of m) w w')
    (\<lambda>e w'. if encodable m then send_failure e \<and> (\<exists>k. sent_only N fd (take k (frame_of m)) w w')
       else w' = w \<and> e = RuntimeError ''failed to encode protocol message'') w"
  using SendAll_sends [OF assms, of fd "frame_of m" w]
  by (auto simp: SendMessage_def EncodeMessage_eq wp_eqs elim!: wp_mono)

section \<open>Receiving\<close>

definition received_only :: "'w net \<Rightarrow> int \<Rightarrow> byte list \<Rightarrow> 'w \<Rightarrow> 'w \<Rightarrow> bool" where
  "received_only N fd bs w w' \<longleftrightarrow> received N fd w' = received N fd w @ bs \<and> inbound N fd w = bs @ inbound N fd w' \<and>
     (\<forall>x. wire N x w' = wire N x w) \<and> opened N w' = opened N w"

lemma recv_step:
  assumes "net_laws K N" "sys_recv K fd n w = (r, w')"
  shows "received_only N fd (case r of Inl e \<Rightarrow> [] | Inr bs \<Rightarrow> bs) w w'"
    "r = Inl EINTR \<Longrightarrow> patience N fd w' < patience N fd w"
proof -
  note laws = net_lawsD [OF assms(1)]
  show "received_only N fd (case r of Inl e \<Rightarrow> [] | Inr bs \<Rightarrow> bs) w w'"
    using laws(8) [unfolded recv_observed_def, rule_format, OF assms(2)]
      recv_takes_streamD [OF laws(1), of fd n w _ w'] assms(2)
    by (cases r) (auto simp: received_only_def)
  show "r = Inl EINTR \<Longrightarrow> patience N fd w' < patience N fd w"
    using laws(2) assms(2) by (auto simp: recv_settles_def)
qed

lemma received_only_refl: "received_only N fd [] w w"
  by (simp add: received_only_def)

lemma received_only_trans:
  "received_only N fd bs w w1 \<Longrightarrow> received_only N fd cs w1 w2 \<Longrightarrow> received_only N fd (bs @ cs) w w2"
  by (simp add: received_only_def)

text \<open>The result of \<open>ReadMessage\<close> is the verdict on what was unread before it and what it received.\<close>

definition read_result :: "byte list \<Rightarrow> ReadMessageResult \<Rightarrow> byte list \<Rightarrow> bool" where
  "read_result bytes r rest \<longleftrightarrow>
     (case frame_verdict bytes of
        Inl e \<Rightarrow> r = ReadMessageResult_ProtocolError e \<and> rest = bytes
      | Inr None \<Rightarrow> r = ReadMessageResult_Closed \<and> rest = bytes
      | Inr (Some (m, n)) \<Rightarrow> r = ReadMessageResult_Message m \<and> rest = drop n bytes)"

lemma read_resultI:
  "TryDecodeFrame bytes = NeedMoreData \<Longrightarrow> read_result bytes ReadMessageResult_Closed bytes"
  "TryDecodeFrame bytes = DecodeError e \<Longrightarrow> read_result bytes (ReadMessageResult_ProtocolError e) bytes"
  "TryDecodeFrame bytes = Decoded m n \<Longrightarrow> read_result bytes (ReadMessageResult_Message m) (drop n bytes)"
  by (simp_all add: read_result_def flip: frame_verdict_iff)

definition read_so_far :: "'w net \<Rightarrow> int \<Rightarrow> FrameDecoder \<times> 'w \<Rightarrow> FrameDecoder \<times> 'w \<Rightarrow> bool" where
  "read_so_far N fd = (\<lambda>(d, w) (d', w').
     decoder_inv d' \<and> (\<exists>bs. received_only N fd bs w w' \<and> unread d' = unread d @ bs))"

lemma read_so_far_recv:
  assumes laws: "net_laws K N" and so_far: "read_so_far N fd s (d1, w1)"
    and call: "sys_recv K fd n w1 = (r, w2)"
  shows "read_so_far N fd s (Append d1 (case r of Inl e \<Rightarrow> [] | Inr bs \<Rightarrow> bs), w2)"
proof -
  let ?bs = "case r of Inl e \<Rightarrow> [] | Inr bs \<Rightarrow> bs"
  obtain d w bs where s: "s = (d, w)" "decoder_inv d1" "received_only N fd bs w w1" "unread d1 = unread d @ bs"
    using so_far by (cases s) (auto simp: read_so_far_def)
  then have "received_only N fd (bs @ ?bs) w w2" "unread (Append d1 ?bs) = unread d @ (bs @ ?bs)"
    using received_only_trans [OF s(3) recv_step(1) [OF laws call]] by (simp_all add: Append_abs)
  then show ?thesis
    using s(1,2) by (auto simp: read_so_far_def Append_inv)
qed

lemma Append_nothing [simp]: "Append d [] = d"
  by (simp add: Append_def)

text \<open>One round: the decoder gives a verdict, or needs the bytes that \<^verbatim>\<open>recv\<close> brings.\<close>

lemma ReadMessage_reads:
  assumes laws: "net_laws K N" and "decoder_inv d"
  shows "wp (ReadMessage K fd)
    (\<lambda>r (d', w'). decoder_inv d' \<and> (\<exists>bs. received_only N fd bs w w' \<and> read_result (unread d @ bs) r (unread d')))
    (\<lambda>e (d', w'). decoder_inv d' \<and> (\<exists>err. e = SyscallError ''recv'' err) \<and>
       (\<exists>bs. received_only N fd bs w w' \<and> unread d' = unread d @ bs \<and> frame_verdict (unread d @ bs) = Inr None))
    (d, w)"
  unfolding ReadMessage_def
proof (rule wp_loop [where I = "\<lambda>_ s. read_so_far N fd (d, w) s" and
      R = "measures [\<lambda>(_, d, w). 65556 - length (unread d), \<lambda>(_, d, w). patience N fd w]"])
  fix x :: unit and s
  assume I: "read_so_far N fd (d, w) s"
  obtain d1 w1 where s: "s = (d1, w1)" by (cases s)
  obtain bs where bs: "decoder_inv d1" "received_only N fd bs w w1" "unread d1 = unread d @ bs"
    using I by (auto simp: s read_so_far_def)
  obtain r w2 where call: "sys_recv K fd 4096 w1 = (r, w2)"
    by (metis prod.exhaust)
  note more = read_so_far_recv [OF laws I [unfolded s] call] and settles = recv_step(2) [OF laws call]
  obtain d2 where nxt: "Next d1 = (TryDecodeFrame (unread d1), d2)"
    using Next_result [of d1] by (metis fst_conv prod.exhaust)
  show "wp (andthen (act (\<lambda>(d, w). case Next d of (result, d') \<Rightarrow> (result, (d', w)))) (\<lambda>result.
       if dr_status result = kDecoded
       then ret (Inr (ReadMessageResult_Message (the (dr_message result))))
       else if dr_status result = kError
       then ret (Inr (ReadMessageResult_ProtocolError (the (dr_error result))))
       else
         andthen (on_world (act (sys_recv K fd 4096))) (\<lambda>r.
           case r of
             Inl e \<Rightarrow> if e = EINTR then ret (Inl ()) else throw (SyscallError ''recv'' e)
           | Inr bytes \<Rightarrow>
               if bytes = [] then ret (Inr ReadMessageResult_Closed)
               else seq (modify (\<lambda>(d, w). (Append d bytes, w))) (ret (Inl ())))))
     (\<lambda>y s'. case y of
        Inl x' \<Rightarrow> read_so_far N fd (d, w) s' \<and>
          ((x', s'), (x, s)) \<in> measures [\<lambda>(_, d, w). 65556 - length (unread d), \<lambda>(_, d, w). patience N fd w]
      | Inr z \<Rightarrow> (case s' of (d', w') \<Rightarrow>
          decoder_inv d' \<and> (\<exists>bs. received_only N fd bs w w' \<and> read_result (unread d @ bs) z (unread d'))))
     (\<lambda>e (d', w'). decoder_inv d' \<and> (\<exists>err. e = SyscallError ''recv'' err) \<and>
       (\<exists>bs. received_only N fd bs w w' \<and> unread d' = unread d @ bs \<and> frame_verdict (unread d @ bs) = Inr None)) s"
  proof (cases "unread d1" rule: TryDecodeFrame_cases)
    case need_more
    have keep: "d2 = d1" using need_more Next_keeps [of d1] by (simp add: nxt)
    have bound: "length (unread d1) < 65556" using NeedMoreData_bound [OF need_more] by simp
    show ?thesis
    proof (cases r)
      case (Inl e)
      with more settles need_more bound bs(1) show ?thesis
        by (auto simp: s wp_eqs nxt keep call read_so_far_def)
    next
      case (Inr bytes)
      with more need_more read_resultI(1) [OF need_more] bound bs(1) show ?thesis
        by (auto simp: s wp_eqs nxt keep call read_so_far_def Append_abs neq_Nil_conv)
    qed
  next
    case (malformed e)
    have keep: "d2 = d1" using malformed Next_keeps [of d1] by (simp add: nxt)
    show ?thesis
      using malformed bs read_resultI(2) [OF malformed] by (auto simp: s wp_eqs nxt keep)
  next
    case (decoded m n)
    show ?thesis
      using decoded bs Next_decoded [OF decoded] read_resultI(3) [OF decoded] by (auto simp: s wp_eqs nxt simp del: drop_append)
  qed
qed (use assms in \<open>simp_all add: read_so_far_def received_only_refl\<close>)

section \<open>Serving a client\<close>

lemma wp_with_decoder [wp_eqs]:
  "wp (with_decoder m) Q E w = wp m (\<lambda>x (d, w). Q x w) (\<lambda>e (d, w). E e w) (new_FrameDecoder, w)"
  by (auto simp: wp_def with_decoder_def split: option.splits sum.splits)

definition recv_failure :: "exn \<Rightarrow> bool" where
  "recv_failure e \<longleftrightarrow> (\<exists>err. e = SyscallError ''recv'' err)"

definition responses :: "Message list \<Rightarrow> byte list" where
  "responses ms = concat (map (\<lambda>m. frame_of (HandleRequest m)) ms)"

text \<open>
  Between two messages: \<open>ms\<close> have been cut off the bytes received since the start, their responses
  have been sent, and the decoder holds the rest.
\<close>

definition exchanged :: "'w net \<Rightarrow> int \<Rightarrow> 'w \<Rightarrow> Message list \<Rightarrow> FrameDecoder \<times> 'w \<Rightarrow> bool" where
  "exchanged N fd w ms = (\<lambda>(d, w').
     decoder_inv d \<and> (\<forall>m \<in> set ms. encodable m) \<and> opened N w' = opened N w \<and>
     received N fd w' = received N fd w @ concat (map frame_of ms) @ unread d \<and>
     wire N fd w' = wire N fd w @ responses ms)"

text \<open>
  What a client has been told when serving it ends: the responses to a prefix of its messages,
  to all of them unless sending failed.
\<close>

definition served :: "'w net \<Rightarrow> int \<Rightarrow> 'w \<Rightarrow> exn option \<Rightarrow> 'w \<Rightarrow> bool" where
  "served N fd w failure w' \<longleftrightarrow> opened N w' = opened N w \<and>
     (\<exists>bs ms e rest k. received N fd w' = received N fd w @ bs \<and> parse_stream frame_verdict bs = (ms, e, rest) \<and>
        wire N fd w' = wire N fd w @ take k (responses ms) \<and>
        (case failure of
           None \<Rightarrow> length (responses ms) \<le> k
         | Some x \<Rightarrow> recv_failure x \<and> e = None \<and> length (responses ms) \<le> k \<or> send_failure x))"

lemma servedI:
  assumes "opened N w' = opened N w" "received N fd w' = received N fd w @ bs"
    "parse_stream frame_verdict bs = (ms, e, rest)" "wire N fd w' = wire N fd w @ take k (responses ms)"
    "case failure of
       None \<Rightarrow> length (responses ms) \<le> k
     | Some x \<Rightarrow> recv_failure x \<and> e = None \<and> length (responses ms) \<le> k \<or> send_failure x"
  shows "served N fd w failure w'"
  unfolding served_def using assms by blast

lemma encoded_frames: "\<forall>m \<in> set ms. encodable m \<Longrightarrow> list_all2 (\<lambda>m f. EncodeMessage m = Some f) ms (map frame_of ms)"
  by (simp add: list_all2_conv_all_nth EncodeMessage_eq)

lemma exchanged_parse:
  assumes "exchanged N fd w ms (d, w')"
  shows "\<exists>bs. received N fd w' = received N fd w @ bs \<and>
    parse_stream frame_verdict bs = (case parse_stream frame_verdict (unread d) of (ms', e, r) \<Rightarrow> (ms @ ms', e, r))"
  using assms frames.parse_encoded [OF encoded_frames, of ms "unread d"]
  by (auto simp: exchanged_def)

lemma exchanged_served:
  assumes "exchanged N fd w ms (d, w')" "frame_verdict (unread d) = Inr None \<and> (failure = None \<or> (\<exists>x. failure = Some x \<and> recv_failure x)) \<or>
    (\<exists>e. frame_verdict (unread d) = Inl e) \<and> failure = None"
  shows "served N fd w failure w'"
proof -
  obtain bs where bs: "received N fd w' = received N fd w @ bs"
    "parse_stream frame_verdict bs = (case parse_stream frame_verdict (unread d) of (ms', e, r) \<Rightarrow> (ms @ ms', e, r))"
    using exchanged_parse [OF assms(1)] by blast
  obtain e where e: "parse_stream frame_verdict (unread d) = ([], e, unread d)"
    "failure = None \<or> e = None \<and> (\<exists>x. failure = Some x \<and> recv_failure x)"
    using assms(2) by (auto simp: frames.parse_rules simp del: frame_verdict_iff)
  have "opened N w' = opened N w" "wire N fd w' = wire N fd w @ take (length (responses ms)) (responses ms)"
    using assms(1) by (auto simp: exchanged_def)
  with bs e show ?thesis
    by (intro servedI [of N w' w fd bs ms e "unread d" "length (responses ms)"]) auto
qed

lemma prefix_responses: "take (length (responses ms) + min k (length (frame_of (HandleRequest m)))) (responses (ms @ m # ms')) =
  responses ms @ take k (frame_of (HandleRequest m))"
  by (simp add: responses_def min_def)

text \<open>A message has been read and is answered.\<close>

lemma exchanged_answer:
  assumes laws: "net_laws K N" "send_keeps_inbound K N"
    and ms: "exchanged N fd w ms (d1, w1)" "received_only N fd bs w1 w2"
    and m: "TryDecodeFrame (unread d1 @ bs) = Decoded m n" "unread d2 = drop n (unread d1 @ bs)" "decoder_inv d2"
  shows "wp (SendMessage K fd (HandleRequest m))
    (\<lambda>_ w3. exchanged N fd w (ms @ [m]) (d2, w3) \<and>
       length (unread d2) + length (inbound N fd w3) < length (unread d1) + length (inbound N fd w1))
    (\<lambda>e. served N fd w (Some e)) w2"
proof -
  note frm = TryDecodeFrame_DecodedD [OF m(1)]
  have cut: "unread d1 @ bs = frame_of m @ unread d2"
    using frm(4) m(2) by (metis append_take_drop_id)
  have enc: "encodable (HandleRequest m)"
    using frm(1) encodable_HandleOwnedRequest [of m] by (simp add: HandleRequest_eq encodable_def [of m])
  have state: "exchanged N fd w (ms @ [m]) (d2, w3)" if "sent_only N fd (frame_of (HandleRequest m)) w2 w3" for w3
    using ms m(3) cut frm(1) that by (auto simp: exchanged_def received_only_def sent_only_def responses_def)
  have less: "length (unread d2) + length (inbound N fd w2) < length (unread d1) + length (inbound N fd w1)"
    using arg_cong [OF cut, of length] ms(2) by (auto simp: received_only_def)
  have failed: "served N fd w (Some e) w3"
    if "send_failure e" "sent_only N fd (take k (frame_of (HandleRequest m))) w2 w3" for e k w3
  proof -
    obtain ms' x r where rest: "parse_stream frame_verdict (unread d2) = (ms', x, r)"
      by (metis prod_cases3)
    have "received N fd w3 = received N fd w @ concat (map frame_of (ms @ [m])) @ unread d2"
      using ms cut that(2) by (auto simp: exchanged_def received_only_def sent_only_def)
    moreover have "parse_stream frame_verdict (concat (map frame_of (ms @ [m])) @ unread d2) = (ms @ m # ms', x, r)"
      using frames.parse_encoded [OF encoded_frames, of "ms @ [m]" "unread d2"] ms(1) frm(1) rest
      by (auto simp: exchanged_def)
    moreover have "wire N fd w3 = wire N fd w @ take (length (responses ms) + min k (length (frame_of (HandleRequest m))))
        (responses (ms @ m # ms'))"
      using ms that(2) unfolding prefix_responses by (simp add: exchanged_def received_only_def sent_only_def)
    moreover have "opened N w3 = opened N w"
      using ms that(2) by (simp add: exchanged_def received_only_def sent_only_def)
    ultimately show ?thesis
      using that(1) by (intro servedI) auto
  qed
  show ?thesis
  proof (rule wp_mono [OF SendMessage_sends [OF laws]], goal_cases)
    case (1 x w3)
    then show ?case using less by (auto intro: state simp: sent_only_def)
  next
    case (2 e w3)
    then show ?case using enc by (auto intro: failed)
  qed
qed

lemma ServeClient_serves:
  assumes laws: "net_laws K N" "send_keeps_inbound K N"
  shows "wp (ServeClient K fd) (\<lambda>_. served N fd w None) (\<lambda>e. served N fd w (Some e)) w"
  unfolding ServeClient_def wp_with_decoder
proof (rule wp_loop [where I = "\<lambda>_ s. \<exists>ms. exchanged N fd w ms s" and
      R = "measure (\<lambda>(_, d, w). length (unread d) + length (inbound N fd w))"])
  fix x :: unit and s
  assume "\<exists>ms. exchanged N fd w ms s"
  then obtain ms d1 w1 where s: "s = (d1, w1)" and ms: "exchanged N fd w ms (d1, w1)"
    by (cases s) auto
  have got: "exchanged N fd w ms (d2, w2)"
    if "decoder_inv d2" "received_only N fd bs w1 w2" "unread d2 = unread d1 @ bs" for d2 w2 bs
    using ms that by (auto simp: exchanged_def received_only_def)
  let ?Q = "\<lambda>y s'. case y of
        Inl x' \<Rightarrow> (\<exists>ms. exchanged N fd w ms s') \<and>
          ((x', s'), (x, s)) \<in> measure (\<lambda>(_, d, w). length (unread d) + length (inbound N fd w))
      | Inr z \<Rightarrow> (case s' of (d, w') \<Rightarrow> served N fd w None w')"
  show "wp (andthen (ReadMessage K fd) (\<lambda>read.
       if rm_status read = kClosed \<or> rm_status read = kProtocolError then ret (Inr ())
       else
         let response = HandleRequest (the (rm_message read))
         in seq (on_world (SendMessage K fd response)) (ret (Inl ()))))
     ?Q (\<lambda>e (d, w'). served N fd w (Some e) w') s"
    unfolding s wp_andthen
  proof (rule wp_mono [OF ReadMessage_reads [OF laws(1)]], goal_cases)
    case 1
    then show ?case using ms by (simp add: exchanged_def)
  next
    case (2 r s')
    then obtain d2 w2 bs where s': "s' = (d2, w2)" "decoder_inv d2" "received_only N fd bs w1 w2"
      "read_result (unread d1 @ bs) r (unread d2)"
      by (cases s') auto
    show ?case
    proof (cases "unread d1 @ bs" rule: TryDecodeFrame_cases)
      case (decoded m n)
      with s'(4) have r: "r = ReadMessageResult_Message m" "unread d2 = drop n (unread d1 @ bs)"
        by (simp_all add: read_result_def flip: frame_verdict_iff)
      show ?thesis
        using exchanged_answer [OF laws ms s'(3) decoded r(2) s'(2)]
        by (auto simp: r(1) s'(1) ReadMessageResult_defs wp_eqs s elim!: wp_mono)
    qed (use s' exchanged_served [OF got [OF s'(2,3)], of None]
        in \<open>auto simp: read_result_def ReadMessageResult_defs wp_eqs simp flip: frame_verdict_iff\<close>)
  next
    case (3 e s')
    then obtain d2 w2 bs where s': "s' = (d2, w2)" "decoder_inv d2" "received_only N fd bs w1 w2"
      "unread d2 = unread d1 @ bs" "frame_verdict (unread d2) = Inr None" "recv_failure e"
      by (cases s') (auto simp: recv_failure_def)
    then show ?case
      using exchanged_served [OF got [OF s'(2,3)], of "Some e"] by simp
  qed
qed (auto simp: exchanged_def responses_def intro: exI [of _ "[]"])

section \<open>One client after another\<close>

lemma wp_scoped [wp_eqs]:
  "wp (scoped K fd m) Q E =
     wp m (\<lambda>x w. Q x (close_all K (destroy fd) w)) (\<lambda>e w. E e (close_all K (destroy fd) w))"
  by (simp add: scoped_def owning_def wp_eqs)

lemma close_owned: "is_valid fd \<Longrightarrow> close_all K (destroy fd) w = sys_close K (get fd) w"
  by (simp add: close_all_def destroy_def reset_def is_valid_def get_def)

lemma opened_close: "net_laws K N \<Longrightarrow> opened N (sys_close K fd w) = opened N w - {fd}"
  using net_lawsD(11) [of K N] by (simp add: close_observed_def)

text \<open>A new connection: its descriptor was not open before and nothing has passed on it.\<close>

definition connected :: "'w net \<Rightarrow> 'w \<Rightarrow> UniqueFd \<Rightarrow> 'w \<Rightarrow> bool" where
  "connected N w c w' \<longleftrightarrow> is_valid c \<and> get c \<notin> opened N w \<and> opened N w' = insert (get c) (opened N w) \<and>
     wire N (get c) w' = [] \<and> received N (get c) w' = []"

lemma connected_new: "0 \<le> fd \<Longrightarrow> is_valid (new_UniqueFd fd)" "get (new_UniqueFd fd) = fd"
  by (simp_all add: is_valid_def get_def new_UniqueFd_def kInvalidFd_def)

lemma AcceptOne_accepts:
  assumes "net_laws K N"
  shows "wp (AcceptOne K l) (\<lambda>c w'. connected N w c w' \<and> (\<exists>w0. sys_accept K l AcceptPlain w0 = (Inr (get c), w')))
    (\<lambda>e w'. (\<exists>err. e = SyscallError ''accept'' err) \<and> opened N w' = opened N w) w"
  unfolding AcceptOne_def
proof (rule wp_loop [where I = "\<lambda>_ w1. opened N w1 = opened N w" and R = "measure (\<lambda>(_, w). patience N l w)"])
  fix x :: unit and w1
  assume I: "opened N w1 = opened N w"
  obtain r w2 where call: "sys_accept K l AcceptPlain w1 = (r, w2)"
    by (metis prod.exhaust)
  note step = net_lawsD(10) [OF assms, unfolded accept_observed_def, rule_format, OF call]
  have "r = Inl EINTR \<Longrightarrow> patience N l w2 < patience N l w1"
    using net_lawsD(5) [OF assms] call by (auto simp: accept_settles_def)
  with I step show "wp (andthen (act (sys_accept K l AcceptPlain)) (\<lambda>r.
       case r of
         Inr fd \<Rightarrow> ret (Inr (new_UniqueFd fd))
       | Inl e \<Rightarrow> if e = EINTR then ret (Inl ()) else throw (SyscallError ''accept'' e)))
     (\<lambda>y s'. case y of Inl x' \<Rightarrow> opened N s' = opened N w \<and> ((x', s'), (x, w1)) \<in> measure (\<lambda>(_, w). patience N l w)
      | Inr z \<Rightarrow> connected N w z s' \<and> (\<exists>w0. sys_accept K l AcceptPlain w0 = (Inr (get z), s')))
     (\<lambda>e w'. (\<exists>err. e = SyscallError ''accept'' err) \<and> opened N w' = opened N w) w1"
    by (cases r) (auto simp: wp_eqs call connected_def connected_new same_net_def intro!: exI [of _ w1])
qed simp_all

text \<open>
  Closing a descriptor transfers no data: what has passed on a connection stays on record until its
  descriptor is used for another one.
\<close>

definition close_transfers_nothing :: "'w sys \<Rightarrow> 'w net \<Rightarrow> bool" where
  "close_transfers_nothing K N \<longleftrightarrow> (\<forall>fd w. wire N fd (sys_close K fd w) = wire N fd w \<and>
     received N fd (sys_close K fd w) = received N fd w)"

text \<open>
  A finished session: the responses to a prefix of the messages in the bytes received have been
  sent, and to all of them unless sending failed.
\<close>

definition blocking_session :: "'w net \<Rightarrow> int \<Rightarrow> exn option \<Rightarrow> 'w \<Rightarrow> bool" where
  "blocking_session N fd failure w \<longleftrightarrow>
     (\<exists>ms e rest. parse_stream frame_verdict (received N fd w) = (ms, e, rest) \<and> prefix (wire N fd w) (responses ms) \<and>
        (case failure of
           None \<Rightarrow> wire N fd w = responses ms
         | Some x \<Rightarrow> recv_failure x \<and> e = None \<and> wire N fd w = responses ms \<or> send_failure x))"

lemma served_session:
  assumes "served N fd w failure w'" "wire N fd w = []" "received N fd w = []"
  shows "blocking_session N fd failure w'"
proof -
  obtain ms e rest k where "parse_stream frame_verdict (received N fd w') = (ms, e, rest)"
    "wire N fd w' = take k (responses ms)"
    "case failure of
       None \<Rightarrow> length (responses ms) \<le> k
     | Some x \<Rightarrow> recv_failure x \<and> e = None \<and> length (responses ms) \<le> k \<or> send_failure x"
    using assms unfolding served_def by auto
  then show ?thesis
    unfolding blocking_session_def by (cases failure) (auto simp: take_is_prefix)
qed

text \<open>
  What \<open>ServeOne\<close> leaves behind, by what \<open>AcceptOne\<close> gave: its failure, or a finished session on the
  descriptor that \<^verbatim>\<open>accept\<close> returned, on which nothing had passed before.
\<close>

definition one_served :: "'w sys \<Rightarrow> 'w net \<Rightarrow> int \<Rightarrow> 'w \<Rightarrow> exn option \<Rightarrow> 'w \<Rightarrow> bool" where
  "one_served K N l w failure w' \<longleftrightarrow> opened N w' = opened N w \<and>
     ((\<exists>err w1. AcceptOne K l w = Some (Inl (SyscallError ''accept'' err), w1) \<and> failure = Some (SyscallError ''accept'' err)) \<or>
      (\<exists>c w0 w1. AcceptOne K l w = Some (Inr c, w1) \<and> sys_accept K l AcceptPlain w0 = (Inr (get c), w1) \<and>
         get c \<notin> opened N w \<and> wire N (get c) w1 = [] \<and> received N (get c) w1 = [] \<and> blocking_session N (get c) failure w'))"

lemma ServeOne_serves:
  assumes laws: "net_laws K N" "send_keeps_inbound K N" "close_transfers_nothing K N"
  shows "wp (ServeOne K sv) (\<lambda>_. one_served K N (get (blocking_listener sv)) w None)
    (\<lambda>e. one_served K N (get (blocking_listener sv)) w (Some e)) w"
proof -
  let ?l = "get (blocking_listener sv)"
  note accepts = AcceptOne_accepts [OF laws(1), where l = ?l and w = w]
  obtain r w1 where accept: "AcceptOne K ?l w = Some (r, w1)"
    using wp_returns [OF accepts] by blast
  show ?thesis
  proof (cases r)
    case (Inl e)
    then obtain err where "e = SyscallError ''accept'' err" "opened N w1 = opened N w"
      using wpD(2) [OF accepts] accept by blast
    with accept Inl show ?thesis
      by (simp add: ServeOne_def wp_def andthen_def one_served_def)
  next
    case (Inr c)
    obtain w0 where c: "connected N w c w1" "sys_accept K ?l AcceptPlain w0 = (Inr (get c), w1)"
      using wpD(1) [OF accepts] accept Inr by blast
    have one: "one_served K N ?l w failure (sys_close K (get c) w2)" if "served N (get c) w1 failure w2" for failure w2
    proof -
      have "blocking_session N (get c) failure w2"
        using served_session [OF that] c(1) by (simp add: connected_def)
      then have "blocking_session N (get c) failure (sys_close K (get c) w2)"
        using laws(3) [unfolded close_transfers_nothing_def, THEN spec, THEN spec, of "get c" w2]
        by (cases failure) (simp_all add: blocking_session_def)
      moreover have "opened N (sys_close K (get c) w2) = opened N w"
        using c(1) that by (simp add: opened_close [OF laws(1)] connected_def served_def)
      ultimately show ?thesis
        unfolding one_served_def using accept Inr c by (auto simp: connected_def)
    qed
    have "wp (scoped K c (ServeClient K (get c))) (\<lambda>_. one_served K N ?l w None) (\<lambda>e. one_served K N ?l w (Some e)) w1"
      using ServeClient_serves [OF laws(1,2), of "get c" w1] c(1) one
      by (auto simp: wp_eqs connected_def close_owned elim!: wp_mono)
    with accept Inr show ?thesis
      by (simp add: ServeOne_def wp_def andthen_def)
  qed
qed

section \<open>The client\<close>

text \<open>
  Documented behaviour of \<^verbatim>\<open>socket\<close> and \<^verbatim>\<open>connect\<close>: a new socket has a descriptor that was not open
  and nothing has passed on it; connecting transfers no data, and is not interrupted for ever.
\<close>

definition client_laws :: "'w sys \<Rightarrow> 'w net \<Rightarrow> ('w \<Rightarrow> nat) \<Rightarrow> bool" where
  "client_laws K N waits \<longleftrightarrow>
     (\<forall>fl w. case sys_socket K fl w of
        (Inl e, w') \<Rightarrow> opened N w' = opened N w
      | (Inr fd, w') \<Rightarrow> 0 \<le> fd \<and> fd \<notin> opened N w \<and> opened N w' = insert fd (opened N w) \<and>
          wire N fd w' = [] \<and> received N fd w' = []) \<and>
     (\<forall>fd a w. case sys_connect K fd a w of (r, w') \<Rightarrow>
        opened N w' = opened N w \<and> wire N fd w' = wire N fd w \<and> received N fd w' = received N fd w \<and>
        (r = Inl EINTR \<longrightarrow> waits w' < waits w))"

lemma client_lawsD:
  assumes "client_laws K N waits"
  shows "case sys_socket K fl w of
        (Inl e, w') \<Rightarrow> opened N w' = opened N w
      | (Inr fd, w') \<Rightarrow> 0 \<le> fd \<and> fd \<notin> opened N w \<and> opened N w' = insert fd (opened N w) \<and>
          wire N fd w' = [] \<and> received N fd w' = []"
    "case sys_connect K fd a w of (r, w') \<Rightarrow>
        opened N w' = opened N w \<and> wire N fd w' = wire N fd w \<and> received N fd w' = received N fd w \<and>
        (r = Inl EINTR \<longrightarrow> waits w' < waits w)"
  using assms unfolding client_laws_def by simp_all

lemma CreateIpv4Socket_creates:
  assumes "client_laws K N waits"
  shows "wp (CreateIpv4Socket K) (\<lambda>c w'. connected N w c w' \<and> fst (sys_socket K SocketPlain w) = Inr (get c))
    (\<lambda>e w'. (\<exists>err. e = SyscallError ''socket'' err) \<and> opened N w' = opened N w) w"
proof (cases "sys_socket K SocketPlain w")
  case (Pair r w')
  then show ?thesis
    using client_lawsD(1) [OF assms, where fl = SocketPlain and w = w]
    by (cases r) (auto simp: CreateIpv4Socket_def create_fd_def check_def wp_eqs connected_def connected_new)
qed

text \<open>An exception while a descriptor is owned closes it.\<close>

lemma wp_owning_new:
  assumes laws: "net_laws K N" and c: "connected N w c w1"
    and m: "wp m Q (\<lambda>e w'. P e \<and> opened N w' = opened N w1) w1"
  shows "wp (owning K c m) Q (\<lambda>e w'. P e \<and> opened N w' = opened N w) w1"
  using c m by (auto simp: owning_def wp_eqs connected_def close_owned opened_close [OF laws] elim!: wp_mono)

definition connect_failure :: "exn \<Rightarrow> bool" where
  "connect_failure e \<longleftrightarrow> (\<exists>err. e = SyscallError ''socket'' err \<or> e = SyscallError ''connect'' err) \<or>
     e = RuntimeError ''inet_pton: invalid IPv4 address''"

lemma connect_loop:
  assumes laws: "client_laws K N waits" and c: "connected N w c w1"
  shows "wp (loop (\<lambda>_. andthen (act (sys_connect K (get c) address)) (\<lambda>r.
      case r of
        Inr _ \<Rightarrow> ret (Inr c)
      | Inl e \<Rightarrow> if e = EINTR then ret (Inl ()) else throw (SyscallError ''connect'' e))) ())
    (\<lambda>c' w'. connected N w c' w' \<and> c' = c) (\<lambda>e w'. connect_failure e \<and> opened N w' = opened N w1) w1"
proof (rule wp_loop [where I = "\<lambda>_ w2. connected N w c w2" and R = "measure (\<lambda>(_, w). waits w)"])
  fix x :: unit and w2
  assume I: "connected N w c w2"
  obtain r w3 where call: "sys_connect K (get c) address w2 = (r, w3)"
    by (metis prod.exhaust)
  note step = client_lawsD(2) [OF laws, where fd = "get c" and a = address and w = w2, unfolded call prod.case]
  show "wp (andthen (act (sys_connect K (get c) address)) (\<lambda>r.
      case r of
        Inr _ \<Rightarrow> ret (Inr c)
      | Inl e \<Rightarrow> if e = EINTR then ret (Inl ()) else throw (SyscallError ''connect'' e)))
    (\<lambda>y s'. case y of Inl x' \<Rightarrow> connected N w c s' \<and> ((x', s'), (x, w2)) \<in> measure (\<lambda>(_, w). waits w)
     | Inr z \<Rightarrow> connected N w z s' \<and> z = c)
    (\<lambda>e w'. connect_failure e \<and> opened N w' = opened N w1) w2"
    using I c step by (cases r) (auto simp: wp_eqs call connected_def connect_failure_def)
qed (simp_all add: c)

lemma ConnectTcp_connects:
  assumes "net_laws K N" "client_laws K N waits"
  shows "wp (ConnectTcp K host p) (\<lambda>c w'. connected N w c w' \<and> fst (sys_socket K SocketPlain w) = Inr (get c))
    (\<lambda>e w'. connect_failure e \<and> opened N w' = opened N w) w"
  unfolding ConnectTcp_def wp_andthen
proof (rule wp_mono [OF CreateIpv4Socket_creates [OF assms(2)]], goal_cases)
  case (1 c w1)
  note c = conjunct1 [OF 1] and sock = conjunct2 [OF 1]
  show ?case
  proof (rule wp_owning_new [OF assms(1) c], cases "lib_inet_pton K host")
    case (Some ip)
    then show "wp (case lib_inet_pton K host of
            None \<Rightarrow> throw (RuntimeError ''inet_pton: invalid IPv4 address'')
          | Some ip \<Rightarrow>
              let address = \<lparr>sin_addr = ip, sin_port = htons p\<rparr> in
              loop (\<lambda>_. andthen (act (sys_connect K (get c) address)) (\<lambda>r.
                case r of
                  Inr _ \<Rightarrow> ret (Inr c)
                | Inl e \<Rightarrow> if e = EINTR then ret (Inl ()) else throw (SyscallError ''connect'' e))) ())
      (\<lambda>c w'. connected N w c w' \<and> fst (sys_socket K SocketPlain w) = Inr (get c))
      (\<lambda>e w'. connect_failure e \<and> opened N w' = opened N w1) w1"
      unfolding Let_def option.case
      by (auto intro: wp_mono [OF connect_loop [OF assms(2) c]] simp: sock)
  qed (simp add: wp_eqs connect_failure_def)
next
  case (2 e w')
  then show ?case by (auto simp: connect_failure_def)
qed

definition client_failure :: "Message \<Rightarrow> exn \<Rightarrow> bool" where
  "client_failure request e \<longleftrightarrow> connect_failure e \<or> send_failure e \<or> recv_failure e \<or>
     e = RuntimeError ''failed to encode protocol message'' \<and> \<not> encodable request \<or>
     e = RuntimeError ''connection closed before response'' \<or>
     e = RuntimeError ''protocol error while reading response''"

text \<open>What passed on the client's descriptor: the request, and a response cut off the bytes received.\<close>

definition asked :: "'w net \<Rightarrow> int \<Rightarrow> Message \<Rightarrow> Message \<Rightarrow> 'w \<Rightarrow> bool" where
  "asked N fd request response w \<longleftrightarrow> encodable request \<and> wire N fd w = frame_of request \<and>
     (\<exists>n. frame_verdict (received N fd w) = Inr (Some (response, n)))"

lemma exchange_on_connection:
  assumes laws: "net_laws K N" "send_keeps_inbound K N" and c: "connected N w0 c w"
  shows "wp (seq (SendMessage K (get c) request)
            (with_decoder
               (andthen (ReadMessage K (get c)) (\<lambda>response.
                  if rm_status response = kClosed
                  then throw (RuntimeError ''connection closed before response'')
                  else if rm_status response = kProtocolError
                  then throw (RuntimeError ''protocol error while reading response'')
                  else ret (the (rm_message response))))))
    (\<lambda>response w'. opened N w' = opened N w \<and> asked N (get c) request response w')
    (\<lambda>e w'. opened N w' = opened N w \<and> client_failure request e) w"
  unfolding wp_seq
proof (rule wp_mono [OF SendMessage_sends [OF laws]], goal_cases)
  case (1 x w1)
  show ?case
    unfolding wp_with_decoder wp_andthen
  proof (rule wp_mono [OF ReadMessage_reads [OF laws(1) new_FrameDecoder_inv]], goal_cases)
    case (1 r s)
    then obtain d w2 bs where s: "s = (d, w2)" "received_only N (get c) bs w1 w2" "read_result bs r (unread d)"
      by auto
    then have "opened N w2 = opened N w" "received N (get c) w2 = bs" "wire N (get c) w2 = frame_of request"
      using \<open>encodable request \<and> _\<close> c by (auto simp: received_only_def sent_only_def connected_def)
    with s(3) \<open>encodable request \<and> _\<close> show ?case
      by (auto simp: s(1) read_result_def wp_eqs ReadMessageResult_defs client_failure_def asked_def
          split: sum.splits option.splits prod.splits)
  next
    case (2 e s)
    then show ?case
      using \<open>encodable request \<and> _\<close>
      by (auto simp: received_only_def sent_only_def client_failure_def recv_failure_def)
  qed
next
  case (2 e w1)
  then show ?case
    by (auto simp: sent_only_def client_failure_def split: if_splits)
qed

lemma SendRequestAndReadResponse_exchanges:
  assumes laws: "net_laws K N" "send_keeps_inbound K N" "close_transfers_nothing K N" "client_laws K N waits"
  shows "wp (SendRequestAndReadResponse K host p request)
    (\<lambda>response w'. opened N w' = opened N w \<and>
       (\<exists>fd. fst (sys_socket K SocketPlain w) = Inr fd \<and> asked N fd request response w'))
    (\<lambda>e w'. opened N w' = opened N w \<and> client_failure request e) w"
  unfolding SendRequestAndReadResponse_def wp_andthen
proof (rule wp_mono [OF ConnectTcp_connects [OF laws(1,4)]], goal_cases)
  case (1 c w1)
  then have c: "connected N w c w1" "fst (sys_socket K SocketPlain w) = Inr (get c)" by simp_all
  have closed: "close_all K (destroy c) w2 = sys_close K (get c) w2"
      "opened N w2 = opened N w1 \<Longrightarrow> opened N (sys_close K (get c) w2) = opened N w" for w2
    using c(1) by (auto simp: close_owned connected_def opened_close [OF laws(1)])
  have "asked N (get c) request response (sys_close K (get c) w2)" if "asked N (get c) request response w2" for response w2
    using that laws(3) by (simp add: asked_def close_transfers_nothing_def)
  then show ?case
    unfolding wp_scoped
    by (intro wp_mono [OF exchange_on_connection [OF laws(1,2) c(1)]]) (auto simp: closed c(2))
next
  case (2 e w')
  then show ?case by (simp add: client_failure_def)
qed

section \<open>Building the server\<close>

lemma new_BlockingEchoServer_outcome:
  assumes laws: "setup_laws K N sm" and at: "at N sm os m w"
  shows "wp (new_BlockingEchoServer K p)
    (\<lambda>sv w'. is_valid (blocking_listener sv) \<and> get (blocking_listener sv) \<notin> os \<and>
       at N sm (insert (get (blocking_listener sv)) os) m w') (\<lambda>_. at N sm os m) w"
  unfolding new_BlockingEchoServer_def
proof (rule wp_create_owning [OF laws])
  show "wp (blocking_CreateListener K p)
      (\<lambda>fd w'. is_valid fd \<and> get fd \<notin> os \<and> at N sm (insert (get fd) os) m w') (\<lambda>_. at N sm os m) w"
    unfolding blocking_CreateListener_def CreateIpv4Socket_def by (rule listener_opens [OF laws at])
next
  fix l w'
  assume l: "is_valid l" "get l \<notin> os" "at N sm (insert (get l) os) m w'"
  have "wp (check ''getsockname'' (sys_getsockname K (get l))) (\<lambda>_. at N sm (insert (get l) os) m)
      (\<lambda>_. at N sm (insert (get l) os) m) w'"
    using laws l(3) by (intro check_keeps) (simp_all add: setup_laws_def)
  then show "wp (andthen (blocking_BoundPort K (get l)) (\<lambda>bound. ret \<lparr>blocking_listener = l, blocking_port = bound\<rparr>))
      (\<lambda>sv w'. is_valid (blocking_listener sv) \<and> get (blocking_listener sv) \<notin> os \<and>
         at N sm (insert (get (blocking_listener sv)) os) m w') (\<lambda>_. at N sm (insert (get l) os) m) w'"
    using l by (auto simp: blocking_BoundPort_def wp_eqs elim!: wp_mono)
qed

section \<open>Both ends together\<close>

text \<open>
  A client that sent one request to a server that received no more than that: the first message
  in the server's answer is the response to it.
\<close>

lemma response_of_request:
  assumes "encodable request" "prefix bs (frame_of request)" "parse_stream frame_verdict bs = (ms, e, rest)"
    and "prefix cs out" "prefix out (responses ms)" "frame_verdict cs = Inr (Some (response, n))"
  shows "response = HandleRequest request"
proof -
  have "ms \<noteq> []"
    using assms(4,5) frames.dec_bounds [OF assms(6)] by (auto simp: responses_def)
  then obtain m n' where m: "frame_verdict bs = Inr (Some (m, n'))"
    using assms(3) by (cases bs rule: TryDecodeFrame_cases) (auto simp: frames.parse_rules)
  have whole: "frame_verdict (frame_of m @ zs) = Inr (Some (m, length (frame_of m)))" if "encodable m" for m zs
    using frames.dec_enc [of m "frame_of m" zs] that by (simp add: EncodeMessage_eq)
  obtain zs where zs: "frame_of request = bs @ zs" using assms(2) by (auto simp: prefix_def)
  have "frame_verdict (bs @ zs) = frame_verdict bs"
    using m by (intro frames.dec_stable) simp
  then have "m = request" "n' = length (frame_of request)"
    using m whole [OF assms(1), of "[]"] by (simp_all add: zs del: frame_verdict_iff)
  then have "ms = [request]"
    using assms(3) frames.parse_frame [OF m] frames.dec_bounds [OF m] zs
    by (auto simp: frames.parse_need_more frames.dec_nil)
  then obtain ys where ys: "frame_of (HandleRequest request) = cs @ ys"
    using prefix_order.trans [OF assms(4,5)] by (auto simp: responses_def prefix_def)
  have "encodable (HandleRequest request)"
    using assms(1) encodable_HandleOwnedRequest [of request] by (simp add: HandleRequest_eq encodable_def [of request])
  then have "frame_verdict (cs @ ys) = Inr (Some (HandleRequest request, length (frame_of (HandleRequest request))))"
    using whole [of "HandleRequest request" "[]"] by (simp add: ys del: frame_verdict_iff)
  moreover have "frame_verdict (cs @ ys) = frame_verdict cs"
    using assms(6) by (intro frames.dec_stable) simp
  ultimately show ?thesis
    using assms(6) by (simp del: frame_verdict_iff)
qed

section \<open>The scripted system\<close>

lemma scripted_blocking_laws:
  "send_keeps_inbound scripted script_net" "close_transfers_nothing scripted script_net"
  "client_laws scripted script_net (\<lambda>w. length (create_script w))"
  by (auto simp: send_keeps_inbound_def close_transfers_nothing_def client_laws_def scripted_def script_inbound_def
      script_wire_def script_create_def script_setup_def script_open_def script_opened_def Let_def
      split: list.splits sum.splits option.splits)

definition sample_response :: Message where
  "sample_response = sample_message\<lparr>msg_type := kEchoResponse\<rparr>"

lemma sample_exchange_facts:
  "HandleRequest sample_message = sample_response" "encodable sample_message" "encodable sample_response"
  "frame_of sample_message = sample_frame" "length (payload sample_response) = 2" "length sample_frame = 22"
  "sample_frame \<noteq> []"
proof -
  show "encodable sample_message" "frame_of sample_message = sample_frame"
    using EncodeMessage_sample by (simp_all add: EncodeMessage_eq split: if_splits)
qed (simp_all add: sample_response_def sample_message_def sample_frame_def HandleRequest_eq HandleOwnedRequest_def
    encodable_def IsKnownMessageType_def const_defs)

lemma frame_of_nonempty [simp]: "frame_of m \<noteq> []"
  using length_frame_of [of m] by fastforce

text \<open>A decoder that holds one frame gives the message and is empty again.\<close>

lemma Next_fresh: "Next new_FrameDecoder = (NeedMoreData, new_FrameDecoder)"
  by (simp add: Next_def new_FrameDecoder_def TryDecodeFrame_short Let_def)

lemma Next_frame:
  "encodable m \<Longrightarrow> Next (Append new_FrameDecoder (frame_of m)) = (Decoded m (length (frame_of m)), new_FrameDecoder)"
  using TryDecodeFrame_frame [of m "[]"]
  by (simp add: Next_def new_FrameDecoder_def Append_def CompactIfNeeded_def Let_def)

definition client_world :: script where
  "client_world = empty_script\<lparr>recv_script := (\<lambda>_. [])(3 := [Inl EINTR, Inr (frame_of sample_response)]),
     send_script := (\<lambda>_. [])(3 := [Inr 5, Inl EINTR, Inr 100])\<rparr>"

definition server_world :: script where
  "server_world = empty_script\<lparr>recv_script := (\<lambda>_. [])(3 := [Inr sample_frame, Inr []]),
     send_script := (\<lambda>_. [])(3 := [Inr 100])\<rparr>"

lemma client_connects:
  "ConnectTcp scripted ''127.0.0.1'' 80 client_world = Some (Inr (new_UniqueFd 3), snd (script_open client_world))"
  by (simp add: ConnectTcp_def CreateIpv4Socket_def create_fd_def check_def owning_def unwinding_def catch_def
      andthen_def seq_def act_def ret_def loop_def loop_body_def iterate_rules scripted_def client_world_def empty_script_def
      script_create_def script_setup_def script_open_def new_UniqueFd_def get_def Let_def)

definition client_asked :: script where
  "client_asked = empty_script\<lparr>recv_script := (\<lambda>_. [])(3 := [Inl EINTR, Inr (frame_of sample_response)]),
     sent_bytes := (\<lambda>_. [])(3 := sample_frame), fd_next := 4, open_list := [3]\<rparr>"

definition client_told :: script where
  "client_told = empty_script\<lparr>recv_bytes := (\<lambda>_. [])(3 := frame_of sample_response),
     sent_bytes := (\<lambda>_. [])(3 := sample_frame), fd_next := 4, open_list := [3]\<rparr>"

lemmas program_defs = andthen_def seq_def act_def ret_def throw_def modify_def catch_def on_world_def loop_def loop_body_def
lemmas exchange_worlds = client_world_def client_asked_def client_told_def server_world_def empty_script_def

lemma client_sends: "SendMessage scripted 3 sample_message (snd (script_open client_world)) = Some (Inr (), client_asked)"
  by (simp add: SendMessage_def SendAll_def EncodeMessage_sample program_defs iterate_rules scripted_def exchange_worlds
      script_open_def sample_frame_def fun_upd_def [symmetric] fun_eq_iff)

lemma client_reads:
  "ReadMessage scripted 3 (new_FrameDecoder, client_asked) =
     Some (Inr (ReadMessageResult_Message sample_response), (new_FrameDecoder, client_told))"
  by (simp add: ReadMessage_def program_defs iterate_rules scripted_def exchange_worlds Next_fresh Next_frame sample_exchange_facts
      fun_eq_iff take_all)

lemma client_run:
  "SendRequestAndReadResponse scripted ''127.0.0.1'' 80 sample_message client_world =
     Some (Inr sample_response, sys_close scripted 3 client_told)"
  by (simp add: SendRequestAndReadResponse_def client_connects scoped_def owning_def unwinding_def with_decoder_def
      connected_new client_sends client_reads program_defs ReadMessageResult_defs close_owned)

definition server_asked :: script where
  "server_asked = empty_script\<lparr>recv_script := (\<lambda>_. [])(3 := [Inr []]), recv_bytes := (\<lambda>_. [])(3 := sample_frame),
     send_script := (\<lambda>_. [])(3 := [Inr 100])\<rparr>"

definition server_answered :: script where
  "server_answered = empty_script\<lparr>recv_script := (\<lambda>_. [])(3 := [Inr []]), recv_bytes := (\<lambda>_. [])(3 := sample_frame),
     sent_bytes := (\<lambda>_. [])(3 := frame_of sample_response)\<rparr>"

definition server_finished :: script where
  "server_finished = server_answered\<lparr>recv_script := (\<lambda>_. [])\<rparr>"

lemmas serving_worlds = server_world_def server_asked_def server_answered_def server_finished_def empty_script_def

lemma server_reads:
  "ReadMessage scripted 3 (new_FrameDecoder, server_world) =
     Some (Inr (ReadMessageResult_Message sample_message), (new_FrameDecoder, server_asked))"
  "ReadMessage scripted 3 (new_FrameDecoder, server_answered) =
     Some (Inr ReadMessageResult_Closed, (new_FrameDecoder, server_finished))"
  using Next_frame [OF sample_exchange_facts(2)]
  by (simp_all add: ReadMessage_def program_defs iterate_rules scripted_def serving_worlds Next_fresh
      sample_exchange_facts fun_eq_iff)

lemma server_sends: "SendMessage scripted 3 sample_response server_asked = Some (Inr (), server_answered)"
  by (simp add: SendMessage_def SendAll_def EncodeMessage_eq sample_exchange_facts program_defs iterate_rules scripted_def
      serving_worlds fun_eq_iff)

lemma server_run: "ServeClient scripted 3 server_world = Some (Inr (), server_finished)"
  by (simp add: ServeClient_def with_decoder_def loop_def loop_body_def iterate_rules andthen_def seq_def on_world_def ret_def
      server_reads server_sends ReadMessageResult_defs sample_exchange_facts)

text \<open>A client that is accepted when \<^verbatim>\<open>accept\<close> is called again after an interruption, and served.\<close>

definition listening_server :: BlockingEchoServer where
  "listening_server = \<lparr>blocking_listener = new_UniqueFd 2, blocking_port = 80\<rparr>"

definition waiting_client :: script where
  "waiting_client = server_world\<lparr>accept_script := [Some EINTR, None]\<rparr>"

definition accepted_client :: script where
  "accepted_client = server_world\<lparr>fd_next := 4, open_list := [3]\<rparr>"

definition served_client :: script where
  "served_client = server_finished\<lparr>fd_next := 4, open_list := [3]\<rparr>"

lemmas accepting_worlds = waiting_client_def accepted_client_def served_client_def serving_worlds

lemma one_client_accepted: "AcceptOne scripted 2 waiting_client = Some (Inr (new_UniqueFd 3), accepted_client)"
  by (simp add: AcceptOne_def program_defs iterate_rules scripted_def accepting_worlds script_open_def fun_eq_iff)

lemma one_client_reads:
  "ReadMessage scripted 3 (new_FrameDecoder, accepted_client) =
     Some (Inr (ReadMessageResult_Message sample_message), (new_FrameDecoder, server_asked\<lparr>fd_next := 4, open_list := [3]\<rparr>))"
  "ReadMessage scripted 3 (new_FrameDecoder, server_answered\<lparr>fd_next := 4, open_list := [3]\<rparr>) =
     Some (Inr ReadMessageResult_Closed, (new_FrameDecoder, served_client))"
  using Next_frame [OF sample_exchange_facts(2)]
  by (simp_all add: ReadMessage_def program_defs iterate_rules scripted_def accepting_worlds Next_fresh
      sample_exchange_facts fun_eq_iff)

lemma one_client_sends:
  "SendMessage scripted 3 sample_response (server_asked\<lparr>fd_next := 4, open_list := [3]\<rparr>) =
     Some (Inr (), server_answered\<lparr>fd_next := 4, open_list := [3]\<rparr>)"
  by (simp add: SendMessage_def SendAll_def EncodeMessage_eq sample_exchange_facts program_defs iterate_rules scripted_def
      serving_worlds fun_eq_iff)

lemma one_client_served:
  "ServeOne scripted listening_server waiting_client = Some (Inr (), sys_close scripted 3 served_client)"
proof -
  have "ServeClient scripted 3 accepted_client = Some (Inr (), served_client)"
    by (simp add: ServeClient_def with_decoder_def loop_def loop_body_def iterate_rules andthen_def seq_def on_world_def ret_def
        one_client_reads one_client_sends ReadMessageResult_defs sample_exchange_facts)
  then show ?thesis
    by (simp add: ServeOne_def listening_server_def connected_new one_client_accepted scoped_def owning_def unwinding_def
        program_defs close_owned)
qed

section \<open>Properties\<close>

text \<open>
  C12. \<open>ServeOne\<close> returns, provided that every system call comes back, whatever it answers, and leaves no
  descriptor open. Either \<open>AcceptOne\<close> fails and its exception leaves \<open>ServeOne\<close>, or one client is served on the very
  descriptor that \<^verbatim>\<open>accept\<close> returned, which was not open before and on which nothing had passed: the bytes
  sent on it are the frames of \<open>HandleRequest\<close> on the messages in the bytes received from it, in order, all of them when
  \<open>ServeOne\<close> returns normally or receiving fails, and a prefix when sending fails. No other exception leaves it.
\<close>

theorem blocking_server_answers:
  assumes "net_laws K N" "send_keeps_inbound K N" "close_transfers_nothing K N"
  shows "\<exists>r w'. ServeOne K sv w = Some (r, w') \<and> opened N w' = opened N w \<and>
    ((\<exists>err w1. AcceptOne K (get (blocking_listener sv)) w = Some (Inl (SyscallError ''accept'' err), w1) \<and>
        r = Inl (SyscallError ''accept'' err)) \<or>
     (\<exists>client fd w0 w1 ms e rest. AcceptOne K (get (blocking_listener sv)) w = Some (Inr client, w1) \<and> get client = fd \<and>
        sys_accept K (get (blocking_listener sv)) AcceptPlain w0 = (Inr fd, w1) \<and>
        fd \<notin> opened N w \<and> wire N fd w1 = [] \<and> received N fd w1 = [] \<and>
        parse_stream frame_verdict (received N fd w') = (ms, e, rest) \<and>
        prefix (wire N fd w') (concat (map (\<lambda>m. frame_of (HandleRequest m)) ms)) \<and>
        (case r of
           Inr _ \<Rightarrow> wire N fd w' = concat (map (\<lambda>m. frame_of (HandleRequest m)) ms)
         | Inl x \<Rightarrow> recv_failure x \<and> e = None \<and> wire N fd w' = concat (map (\<lambda>m. frame_of (HandleRequest m)) ms) \<or>
             send_failure x)))"
proof -
  obtain r w' where run: "ServeOne K sv w = Some (r, w')"
    using wp_returns [OF ServeOne_serves [OF assms]] by blast
  let ?f = "case r of Inl e \<Rightarrow> Some e | Inr _ \<Rightarrow> None"
  have "one_served K N (get (blocking_listener sv)) w ?f w'"
    using wpD [OF ServeOne_serves [OF assms, of sv w]] run by (cases r) auto
  then show ?thesis
    unfolding run one_served_def blocking_session_def responses_def by (cases r) auto
qed

theorem blocking_server_answers_witness:
  "AcceptOne scripted 2 waiting_client = Some (Inr (new_UniqueFd 3), accepted_client) \<and>
   ServeOne scripted listening_server waiting_client = Some (Inr (), sys_close scripted 3 served_client) \<and>
   script_opened (sys_close scripted 3 served_client) = {} \<and>
   (\<exists>ms e rest. parse_stream frame_verdict sample_frame = (ms, e, rest) \<and>
      script_wire 3 (sys_close scripted 3 served_client) = concat (map (\<lambda>m. frame_of (HandleRequest m)) ms)) \<and>
   script_wire 3 (sys_close scripted 3 served_client) = frame_of sample_response"
proof -
  have l: "get (blocking_listener listening_server) = 2" "get (new_UniqueFd 3) = 3"
    by (simp_all add: listening_server_def connected_new)
  have told: "script_opened (sys_close scripted 3 served_client) = {}" "recv_bytes (sys_close scripted 3 served_client) 3 = sample_frame"
    "script_wire 3 (sys_close scripted 3 served_client) = frame_of sample_response"
    by (simp_all add: scripted_def accepting_worlds script_opened_def script_wire_def)
  from blocking_server_answers [OF scripted_net_laws scripted_blocking_laws(1,2), of listening_server waiting_client]
  show ?thesis
    unfolding l one_client_accepted one_client_served using l told by auto
qed

text \<open>
  C13. Provided that every system call comes back, the client returns and leaves no descriptor open, whatever
  the calls answer. If it
  returns a message, then the request was encodable, exactly its frame was sent, and the message is the
  one that the bytes received start with; otherwise it throws one of the documented errors, and the
  encoding error only for a request that cannot be encoded.
\<close>

theorem client_exchange:
  assumes "net_laws K N" "send_keeps_inbound K N" "close_transfers_nothing K N" "client_laws K N waits"
  shows "\<exists>r w'. SendRequestAndReadResponse K host p request w = Some (r, w') \<and> opened N w' = opened N w \<and>
    (case r of
       Inl e \<Rightarrow> client_failure request e
     | Inr response \<Rightarrow> (\<exists>fd n. fst (sys_socket K SocketPlain w) = Inr fd \<and> encodable request \<and>
         wire N fd w' = frame_of request \<and> frame_verdict (received N fd w') = Inr (Some (response, n))))"
proof -
  note exchanges = SendRequestAndReadResponse_exchanges [OF assms, where host = host and p = p and request = request and w = w]
  obtain r w' where run: "SendRequestAndReadResponse K host p request w = Some (r, w')"
    using wp_returns [OF exchanges] by blast
  then show ?thesis
    using wpD [OF exchanges] by (cases r) (auto simp: asked_def)
qed

theorem client_exchange_witness:
  "client_laws scripted script_net (\<lambda>w. length (create_script w)) \<and>
   (\<exists>r w'. SendRequestAndReadResponse scripted ''127.0.0.1'' 80 sample_message client_world = Some (r, w') \<and>
      script_opened w' = {})"
  using client_exchange [OF scripted_net_laws scripted_blocking_laws,
      of "''127.0.0.1''" 80 sample_message client_world] scripted_blocking_laws(3)
  by (auto simp: script_opened_def exchange_worlds)

text \<open>
  C14. End to end: when a client got a response from a server that runs \<open>ServeClient\<close> over a
  connection that loses, reorders and invents no bytes (what each end received is a prefix of what
  the other sent), the response is \<open>HandleRequest\<close> of the request.
\<close>

theorem client_gets_servers_response:
  assumes "net_laws Kc Nc" "send_keeps_inbound Kc Nc" "close_transfers_nothing Kc Nc" "client_laws Kc Nc waits"
    and "net_laws Ks Ns" "send_keeps_inbound Ks Ns"
    and "sys_socket Kc SocketPlain w = (Inr fd, w0)"
    and "SendRequestAndReadResponse Kc host p request w = Some (Inr response, w')"
    and "wire Ns sfd v = []" "received Ns sfd v = []" "ServeClient Ks sfd v = Some (r, v')"
    and "prefix (received Ns sfd v') (wire Nc fd w')" "prefix (received Nc fd w') (wire Ns sfd v')"
  shows "response = HandleRequest request"
proof -
  let ?f = "case r of Inl e \<Rightarrow> Some e | Inr _ \<Rightarrow> None"
  have asked: "asked Nc fd request response w'"
    using wpD(1) [OF SendRequestAndReadResponse_exchanges [OF assms(1-4)] assms(8)] assms(7) by simp
  have "served Ns sfd v ?f v'"
    using wpD [OF ServeClient_serves [OF assms(5,6)]] assms(11) by (cases r) auto
  then obtain ms e rest where "parse_stream frame_verdict (received Ns sfd v') = (ms, e, rest)"
    "prefix (wire Ns sfd v') (responses ms)"
    using served_session [OF _ assms(9,10)] unfolding blocking_session_def by blast
  with asked assms(12,13) show ?thesis
    unfolding asked_def using response_of_request by metis
qed

theorem client_gets_servers_response_witness:
  "SendRequestAndReadResponse scripted ''127.0.0.1'' 80 sample_message client_world =
     Some (Inr sample_response, sys_close scripted 3 client_told) \<and>
   ServeClient scripted 3 server_world = Some (Inr (), server_finished) \<and>
   sample_response = HandleRequest sample_message"
proof -
  have "sys_socket scripted SocketPlain client_world = (Inr 3, snd (script_open client_world))"
    by (simp add: scripted_def script_create_def script_setup_def script_open_def exchange_worlds)
  from client_gets_servers_response [OF scripted_net_laws scripted_blocking_laws scripted_net_laws
      scripted_blocking_laws(1) this client_run _ _ server_run]
  show ?thesis
    by (simp add: client_run server_run) (simp add: scripted_def serving_worlds exchange_worlds script_wire_def)
qed

end
