(* ===== verification/Command_Line.thy ===== *)
theory Command_Line
  imports Blocking_Tcp
begin

text \<open>
  The command-line programs (\<^verbatim>\<open>apps/client/main.cpp\<close>, \<^verbatim>\<open>apps/epoll_server/main.cpp\<close>,
  \<^verbatim>\<open>apps/server/main.cpp\<close>): the parsers of their arguments, the text they print, and their main functions,
  with the standard library's number conversions and stream output. The lemmas give exactly which
  texts are accepted as numbers, that parsed arguments never make a later stage refuse them, and
  that every way out of a main function closes what it opened.
\<close>

section \<open>Numbers as text\<close>

text \<open>
  \<^verbatim>\<open>std::stoul\<close> and \<^verbatim>\<open>std::stoull\<close> with base 10, where \<^verbatim>\<open>unsigned long\<close> has 64 bits: white space is
  skipped, a sign may follow, then the longest sequence of digits. The result is
  the value, negated modulo \<open>2 ^ 64\<close> after a minus sign, and the number of characters used.
\<close>

datatype conversion_error = invalid_argument | out_of_range

definition is_space :: "char \<Rightarrow> bool" where
  "is_space c \<longleftrightarrow> c = CHR '' '' \<or> 9 \<le> (of_char c :: nat) \<and> (of_char c :: nat) \<le> 13"

definition is_digit :: "char \<Rightarrow> bool" where
  "is_digit c \<longleftrightarrow> 48 \<le> (of_char c :: nat) \<and> (of_char c :: nat) \<le> 57"

definition decimal :: "string \<Rightarrow> nat" where
  "decimal digits = fold (\<lambda>c v. 10 * v + (of_char c - 48)) digits 0"

definition split_sign :: "string \<Rightarrow> bool \<times> string" where
  "split_sign s =
     (case s of
        [] \<Rightarrow> (False, [])
      | c # cs \<Rightarrow> if c = CHR ''-'' then (True, cs) else if c = CHR ''+'' then (False, cs) else (False, s))"

definition stoul :: "string \<Rightarrow> conversion_error + u64 \<times> nat" where
  "stoul s =
     (case split_sign (dropWhile is_space s) of (negative, body) \<Rightarrow>
        let digits = takeWhile is_digit body;
            v = decimal digits
        in if digits = [] then Inl invalid_argument
           else if SIZE_MAX < v then Inl out_of_range
           else Inr (if negative then - of_nat v else of_nat v, length s - length body + length digits))"

text \<open>What an output stream writes for an unsigned number, in decimal and in hexadecimal.\<close>

fun decimal_text :: "nat \<Rightarrow> string" where
  "decimal_text n =
     (if n < 10 then [char_of (48 + n)] else decimal_text (n div 10) @ [char_of (48 + n mod 10)])"

declare decimal_text.simps [simp del]

definition hex_digit :: "nat \<Rightarrow> char" where
  "hex_digit n = char_of (if n < 10 then 48 + n else 87 + n)"

fun hex_text :: "nat \<Rightarrow> string" where
  "hex_text n = (if n < 16 then [hex_digit n] else hex_text (n div 16) @ [hex_digit (n mod 16)])"

declare hex_text.simps [simp del]

text \<open>\<^verbatim>\<open>std::setw\<close> with a fill character: padding on the left.\<close>

definition set_width :: "nat \<Rightarrow> char \<Rightarrow> string \<Rightarrow> string" where
  "set_width n fill s = replicate (n - length s) fill @ s"

section \<open>Parsing arguments\<close>

definition ParsePort :: "string \<Rightarrow> exn + u16" where
  "ParsePort input =
     (if input = [] \<or> hd input = CHR ''-'' then Inl (RuntimeError ''port must be an integer'')
      else
        case stoul input of
          Inl invalid_argument \<Rightarrow> Inl (RuntimeError ''port must be an integer'')
        | Inl out_of_range \<Rightarrow> Inl (RuntimeError ''port is out of range'')
        | Inr (v, parsed_chars) \<Rightarrow>
            if parsed_chars \<noteq> length input then Inl (RuntimeError ''port must be an integer'')
            else if v > 65535 then Inl (RuntimeError ''port is out of range'')
            else Inr (ucast v))"

text \<open>The other two programs have copies of their own.\<close>

definition epoll_ParsePort :: "string \<Rightarrow> exn + u16" where
  "epoll_ParsePort input =
     (if input = [] \<or> hd input = CHR ''-'' then Inl (RuntimeError ''port must be an integer'')
      else
        case stoul input of
          Inl invalid_argument \<Rightarrow> Inl (RuntimeError ''port must be an integer'')
        | Inl out_of_range \<Rightarrow> Inl (RuntimeError ''port is out of range'')
        | Inr (v, parsed_chars) \<Rightarrow>
            if parsed_chars \<noteq> length input then Inl (RuntimeError ''port must be an integer'')
            else if v > 65535 then Inl (RuntimeError ''port is out of range'')
            else Inr (ucast v))"

definition server_ParsePort :: "string \<Rightarrow> exn + u16" where
  "server_ParsePort input =
     (if input = [] \<or> hd input = CHR ''-'' then Inl (RuntimeError ''port must be an integer'')
      else
        case stoul input of
          Inl invalid_argument \<Rightarrow> Inl (RuntimeError ''port must be an integer'')
        | Inl out_of_range \<Rightarrow> Inl (RuntimeError ''port is out of range'')
        | Inr (v, parsed_chars) \<Rightarrow>
            if parsed_chars \<noteq> length input then Inl (RuntimeError ''port must be an integer'')
            else if v > 65535 then Inl (RuntimeError ''port is out of range'')
            else Inr (ucast v))"

definition ParseWorkIterations :: "string \<Rightarrow> string \<Rightarrow> exn + u32" where
  "ParseWorkIterations option input =
     (if input = [] \<or> hd input = CHR ''-'' then Inl (RuntimeError (option @ '' must be a positive integer''))
      else
        case stoul input of
          Inl invalid_argument \<Rightarrow> Inl (RuntimeError (option @ '' must be a positive integer''))
        | Inl out_of_range \<Rightarrow> Inl (RuntimeError (option @ '' exceeds maximum work iterations''))
        | Inr (v, parsed_chars) \<Rightarrow>
            if parsed_chars \<noteq> length input \<or> v = 0 then Inl (RuntimeError (option @ '' must be a positive integer''))
            else if v > ucast kMaxWorkIterations then Inl (RuntimeError (option @ '' exceeds maximum work iterations''))
            else Inr (ucast v))"

text \<open>The test against the largest \<^verbatim>\<open>std::size_t\<close> is there although no 64-bit value exceeds it.\<close>

definition ParsePositiveSize :: "string \<Rightarrow> string \<Rightarrow> exn + nat" where
  "ParsePositiveSize option input =
     (if input = [] \<or> hd input = CHR ''-'' then Inl (RuntimeError (option @ '' must be a positive integer''))
      else
        case stoul input of
          Inl invalid_argument \<Rightarrow> Inl (RuntimeError (option @ '' must be a positive integer''))
        | Inl out_of_range \<Rightarrow> Inl (RuntimeError (option @ '' is out of range''))
        | Inr (v, parsed_chars) \<Rightarrow>
            if parsed_chars \<noteq> length input \<or> v = 0 \<or> SIZE_MAX < unat v
            then Inl (RuntimeError (option @ '' must be a positive integer''))
            else Inr (unat v))"

section \<open>The client's arguments\<close>

datatype ClientMessageType = kEcho | kWork

record ClientConfig =
  cc_port :: u16
  cc_payload :: string
  cc_message_type :: ClientMessageType
  cc_work_iterations :: u32

definition default_ClientConfig :: ClientConfig where
  "default_ClientConfig = \<lparr>cc_port = 0, cc_payload = ''hello'', cc_message_type = kEcho, cc_work_iterations = 1000\<rparr>"

definition ParseMessageType :: "string \<Rightarrow> string \<Rightarrow> exn + ClientMessageType" where
  "ParseMessageType option v =
     (if v = ''echo'' then Inr kEcho
      else if v = ''work'' then Inr kWork
      else Inl (RuntimeError (option @ '' must be echo or work'')))"

definition PayloadBytes :: "string \<Rightarrow> byte list" where
  "PayloadBytes text = map (\<lambda>c. of_nat (of_char c)) text"

text \<open>The loop over the arguments after the port; the flag says whether a payload was given.\<close>

fun parse_client_options :: "ClientConfig \<Rightarrow> bool \<Rightarrow> string list \<Rightarrow> exn + ClientConfig" where
  "parse_client_options cfg payload_set [] = Inr cfg"
| "parse_client_options cfg payload_set (option # rest) =
     (if option = ''--message-type'' \<or> option = ''--work-iterations'' then
        (case rest of
           [] \<Rightarrow> Inl (RuntimeError (option @ '' requires a value''))
         | v # rest' \<Rightarrow>
             if option = ''--message-type'' then
               (case ParseMessageType option v of
                  Inl e \<Rightarrow> Inl e
                | Inr t \<Rightarrow> parse_client_options (cfg\<lparr>cc_message_type := t\<rparr>) payload_set rest')
             else
               (case ParseWorkIterations option v of
                  Inl e \<Rightarrow> Inl e
                | Inr n \<Rightarrow> parse_client_options (cfg\<lparr>cc_work_iterations := n\<rparr>) payload_set rest'))
      else if option \<noteq> [] \<and> hd option = CHR ''-'' then Inl (RuntimeError (''unknown option: '' @ option))
      else if payload_set then Inl (RuntimeError ''payload specified more than once'')
      else parse_client_options (cfg\<lparr>cc_payload := option\<rparr>) True rest)"

definition ParseArgs :: "string list \<Rightarrow> exn + ClientConfig" where
  "ParseArgs argv =
     (if length argv < 2 then Inl (RuntimeError ''missing port'')
      else
        case ParsePort (argv ! 1) of
          Inl e \<Rightarrow> Inl e
        | Inr p \<Rightarrow>
            case parse_client_options (default_ClientConfig\<lparr>cc_port := p\<rparr>) False (drop 2 argv) of
              Inl e \<Rightarrow> Inl e
            | Inr cfg \<Rightarrow>
                let payload_size = length (PayloadBytes (cc_payload cfg)) in
                if cc_message_type cfg = kEcho \<and> payload_size > unat kMaxPayloadSize
                then Inl (RuntimeError ''payload exceeds protocol max payload size'')
                else if cc_message_type cfg = kWork \<and> payload_size > unat (kMaxPayloadSize - 4)
                then Inl (RuntimeError ''payload leaves no room for work request metadata'')
                else Inr cfg)"

definition BuildRequest :: "ClientConfig \<Rightarrow> Message" where
  "BuildRequest cfg =
     (let seed = PayloadBytes (cc_payload cfg) in
      if cc_message_type cfg = kEcho
      then \<lparr>msg_type = kEchoRequest, request_id = 1, payload = seed\<rparr>
      else \<lparr>msg_type = kWorkRequest, request_id = 1,
             payload = EncodeWorkRequestPayload (cc_work_iterations cfg) seed\<rparr>)"

definition MessageTypeName :: "MessageType \<Rightarrow> string" where
  "MessageTypeName type =
     (if type = kEchoRequest then ''echo_request''
      else if type = kEchoResponse then ''echo_response''
      else if type = kWorkRequest then ''work_request''
      else if type = kWorkResponse then ''work_response''
      else if type = kErrorResponse then ''error_response''
      else ''unknown'')"

definition HexPayload :: "byte list \<Rightarrow> string" where
  "HexPayload bytes = concat (map (\<lambda>b. set_width 2 (CHR ''0'') (hex_text (unat b))) bytes)"

section \<open>The server's arguments\<close>

record ServerConfig =
  sc_port :: u16
  sc_options :: EpollEchoServerOptions

definition default_ServerConfig :: ServerConfig where
  "default_ServerConfig = \<lparr>sc_port = 9000, sc_options = default_EpollEchoServerOptions\<rparr>"

definition size_options :: "string list" where
  "size_options = [''--workers'', ''--queue-capacity'', ''--max-connections'', ''--max-in-flight'',
     ''--max-read-bytes'', ''--max-write-bytes'', ''--max-input-buffer'', ''--max-output-buffer'']"

definition set_size_option :: "string \<Rightarrow> nat \<Rightarrow> EpollEchoServerOptions \<Rightarrow> EpollEchoServerOptions" where
  "set_size_option option v options =
     (if option = ''--workers'' then options\<lparr>opt_worker_count := v\<rparr>
      else if option = ''--queue-capacity'' then options\<lparr>opt_work_queue_capacity := v\<rparr>
      else if option = ''--max-connections'' then options\<lparr>opt_max_connections := v\<rparr>
      else if option = ''--max-in-flight'' then options\<lparr>opt_max_in_flight_requests_per_connection := v\<rparr>
      else if option = ''--max-read-bytes'' then options\<lparr>opt_max_read_bytes_per_event := v\<rparr>
      else if option = ''--max-write-bytes'' then options\<lparr>opt_max_write_bytes_per_event := v\<rparr>
      else if option = ''--max-input-buffer''
      then options\<lparr>opt_connection_limits := (opt_connection_limits options)\<lparr>max_input_buffer := v\<rparr>\<rparr>
      else if option = ''--max-output-buffer''
      then options\<lparr>opt_connection_limits := (opt_connection_limits options)\<lparr>max_output_buffer := v\<rparr>\<rparr>
      else options)"

fun parse_server_options :: "ServerConfig \<Rightarrow> bool \<Rightarrow> string list \<Rightarrow> exn + ServerConfig" where
  "parse_server_options cfg port_set [] = Inr cfg"
| "parse_server_options cfg port_set (option # rest) =
     (if option \<in> set size_options then
        (case rest of
           [] \<Rightarrow> Inl (RuntimeError (option @ '' requires a value''))
         | v # rest' \<Rightarrow>
             (case ParsePositiveSize option v of
                Inl e \<Rightarrow> Inl e
              | Inr n \<Rightarrow>
                  parse_server_options (cfg\<lparr>sc_options := set_size_option option n (sc_options cfg)\<rparr>) port_set rest'))
      else if option \<noteq> [] \<and> hd option = CHR ''-'' then Inl (RuntimeError (''unknown option: '' @ option))
      else if port_set then Inl (RuntimeError ''port specified more than once'')
      else
        (case epoll_ParsePort option of
           Inl e \<Rightarrow> Inl e
         | Inr p \<Rightarrow> parse_server_options (cfg\<lparr>sc_port := p\<rparr>) True rest))"

definition epoll_ParseArgs :: "string list \<Rightarrow> exn + ServerConfig" where
  "epoll_ParseArgs argv = parse_server_options default_ServerConfig False (drop 1 argv)"

section \<open>The programs\<close>

text \<open>
  What a program has written to its standard streams. The reason in an exception's text comes from
  \<^verbatim>\<open>std::strerror\<close>, a parameter.
\<close>

record console =
  con_out :: string
  con_err :: string

definition print_out :: "string \<Rightarrow> (console \<times> 's, unit) io" where
  "print_out t = modify (\<lambda>(c, s). (c\<lparr>con_out := con_out c @ t\<rparr>, s))"

definition print_err :: "string \<Rightarrow> (console \<times> 's, unit) io" where
  "print_err t = modify (\<lambda>(c, s). (c\<lparr>con_err := con_err c @ t\<rparr>, s))"

abbreviation newline :: string where
  "newline \<equiv> [CHR 0x0A]"

definition what :: "(errno \<Rightarrow> string) \<Rightarrow> exn \<Rightarrow> string" where
  "what strerror e =
     (case e of
        InvalidArgument m \<Rightarrow> m
      | LogicError m \<Rightarrow> m
      | RuntimeError m \<Rightarrow> m
      | SyscallError operation err \<Rightarrow> operation @ '': '' @ strerror err)"

definition client_usage :: string where
  "client_usage = ''usage: pulsecore_client <port> [payload] [--message-type echo|work] [--work-iterations N]'' @ newline"

definition client_PrintUsage :: "(console \<times> 's, unit) io" where
  "client_PrintUsage = print_err client_usage"

definition response_line :: "Message \<Rightarrow> string" where
  "response_line response =
     ''response type='' @ MessageTypeName (msg_type response) @ '' request_id='' @
     decimal_text (unat (request_id response)) @ '' payload_hex='' @ HexPayload (payload response) @ newline"

definition client_main :: "'w sys \<Rightarrow> (errno \<Rightarrow> string) \<Rightarrow> string list \<Rightarrow> (console \<times> 'w, int) io" where
  "client_main K strerror argv =
     catch
       (if length argv = 2 \<and> argv ! 1 = ''--help'' then seq client_PrintUsage (ret 0)
        else
          andthen (lift_exn (ParseArgs argv)) (\<lambda>cfg.
            let request = BuildRequest cfg in
            andthen (on_world (SendRequestAndReadResponse K ''127.0.0.1'' (cc_port cfg) request)) (\<lambda>response.
              seq (print_out (response_line response)) (ret 0))))
       (\<lambda>error.
          seq client_PrintUsage
          (seq (print_err (''pulsecore_client: '' @ what strerror error @ newline)) (ret 1)))"

definition server_PrintUsage :: "(console \<times> 's, unit) io" where
  "server_PrintUsage = print_err (''usage: pulsecore_server [port]'' @ newline)"

text \<open>A scope with an object whose destructor is \<open>d\<close>.\<close>

definition ensuring :: "('s, 'a) io \<Rightarrow> ('s, unit) io \<Rightarrow> ('s, 'a) io" where
  "ensuring p d = andthen (unwinding d p) (\<lambda>x. seq d (ret x))"

definition server_main :: "'w sys \<Rightarrow> (errno \<Rightarrow> string) \<Rightarrow> string list \<Rightarrow> (console \<times> 'w, int) io" where
  "server_main K strerror argv =
     catch
       (if length argv = 2 \<and> argv ! 1 = ''--help'' then seq server_PrintUsage (ret 0)
        else if length argv > 2 then seq server_PrintUsage (ret 2)
        else
          andthen (if length argv \<ge> 2 then lift_exn (server_ParsePort (argv ! 1)) else ret 9000) (\<lambda>p.
          andthen (on_world (new_BlockingEchoServer K p)) (\<lambda>sv.
            ensuring
              (seq (print_out (''PulseCore blocking server listening on 127.0.0.1:'' @
                 decimal_text (unat (blocking_port sv)) @ newline))
                 (loop (\<lambda>_. seq (on_world (ServeOne K sv)) (ret (Inl ()))) ()))
              (on_world (modify (close_all K (destroy (blocking_listener sv))))))))
       (\<lambda>error. seq (print_err (''pulsecore_server: '' @ what strerror error @ newline)) (ret 1))"

definition epoll_PrintUsage :: "(console \<times> 's, unit) io" where
  "epoll_PrintUsage = print_err
     (''usage: pulsecore_epoll_server [port] [--workers N] [--queue-capacity N]'' @ newline @
      ''       [--max-connections N] [--max-in-flight N] [--max-read-bytes N]'' @ newline @
      ''       [--max-write-bytes N] [--max-input-buffer N] [--max-output-buffer N]'' @ newline)"

definition PrintStartup :: "u16 \<Rightarrow> EpollEchoServerOptions \<Rightarrow> (console \<times> 's, unit) io" where
  "PrintStartup p options =
     seq (print_out (''PulseCore epoll server listening on 127.0.0.1:'' @ decimal_text (unat p) @ newline))
       (print_out (''options workers='' @ decimal_text (opt_worker_count options) @
          '' queue_capacity='' @ decimal_text (opt_work_queue_capacity options) @
          '' max_connections='' @ decimal_text (opt_max_connections options) @
          '' max_in_flight='' @ decimal_text (opt_max_in_flight_requests_per_connection options) @
          '' max_read_bytes='' @ decimal_text (opt_max_read_bytes_per_event options) @
          '' max_write_bytes='' @ decimal_text (opt_max_write_bytes_per_event options) @
          '' max_input_buffer='' @ decimal_text (max_input_buffer (opt_connection_limits options)) @
          '' max_output_buffer='' @ decimal_text (max_output_buffer (opt_connection_limits options)) @ newline))"

text \<open>The scope of the server object in \<^verbatim>\<open>main\<close>; its destructor runs on every way out.\<close>

definition with_server ::
  "'w sys \<Rightarrow> (EpollEchoServer \<times> 'w \<Rightarrow> EpollEchoServer \<times> 'w) \<Rightarrow> EpollEchoServer \<Rightarrow>
   (console \<times> EpollEchoServer \<times> 'w, 'a) io \<Rightarrow> (console \<times> 'w, 'a) io" where
  "with_server K join sv body = (\<lambda>(c, w).
     map_option (\<lambda>(r, (c', (sv', w'))). (r, (c', w')))
       (ensuring body (on_world (delete_EpollEchoServer K join)) (c, (sv, w))))"

definition SIGINT :: int where
  [const_defs]: "SIGINT = 2"

definition SIGTERM :: int where
  [const_defs]: "SIGTERM = 15"

definition epoll_server_main ::
  "'w sys \<Rightarrow> (errno \<Rightarrow> string) \<Rightarrow> (nat \<Rightarrow> exn option) \<Rightarrow> (EpollEchoServer \<times> 'w \<Rightarrow> EpollEchoServer \<times> 'w) \<Rightarrow>
   (EpollEchoServer \<times> 'w \<Rightarrow> EpollEchoServer \<times> 'w) \<Rightarrow> string list \<Rightarrow> (console \<times> 'w, int) io" where
  "epoll_server_main K strerror spawn others join argv =
     catch
       (if length argv = 2 \<and> argv ! 1 = ''--help'' then seq epoll_PrintUsage (ret 0)
        else
          andthen (lift_exn (epoll_ParseArgs argv)) (\<lambda>cfg.
            let options = (sc_options cfg)\<lparr>opt_shutdown_signals := [SIGINT, SIGTERM]\<rparr> in
            andthen (on_world (new_EpollEchoServer K spawn (sc_port cfg) options)) (\<lambda>sv.
              with_server K join sv
                (seq (PrintStartup (server_port sv) options)
                (seq (on_world (Run K others))
                (seq (print_out (''PulseCore epoll server stopped'' @ newline))
                   (ret 0)))))))
       (\<lambda>error.
          seq epoll_PrintUsage
          (seq (print_err (''pulsecore_epoll_server: '' @ what strerror error @ newline)) (ret 1)))"

section \<open>Which texts are numbers\<close>

lemma decimal_snoc: "decimal (ds @ [c]) = 10 * decimal ds + (of_char c - 48)"
  by (simp add: decimal_def)

lemma digit_char: "n < 10 \<Longrightarrow> is_digit (char_of (48 + n))" "n < 10 \<Longrightarrow> (of_char (char_of (48 + n) :: char) :: nat) = 48 + n"
  by (simp_all add: is_digit_def)

lemma decimal_text_digits: "list_all is_digit (decimal_text n) \<and> decimal_text n \<noteq> [] \<and> decimal (decimal_text n) = n"
proof (induction n rule: decimal_text.induct)
  case (1 n)
  then show ?case
    by (subst (1 2 3) decimal_text.simps)
      (auto simp: decimal_snoc digit_char decimal_snoc [of "[]", simplified] decimal_def [of "[]"])
qed

text \<open>White space, signs and digits exclude each other.\<close>

lemma char_kinds:
  "is_digit c \<Longrightarrow> \<not> is_space c" "is_digit c \<Longrightarrow> c \<noteq> CHR ''-''" "is_digit c \<Longrightarrow> c \<noteq> CHR ''+''"
  "\<not> is_space CHR ''-''" "\<not> is_space CHR ''+''"
  by (auto simp: is_digit_def is_space_def)

definition number_text :: "string \<Rightarrow> bool \<Rightarrow> string \<Rightarrow> string \<Rightarrow> bool" where
  "number_text ws negative ds s \<longleftrightarrow> list_all is_space ws \<and> list_all is_digit ds \<and> ds \<noteq> [] \<and> decimal ds \<le> SIZE_MAX \<and>
     (s = ws @ ds \<and> \<not> negative \<or> s = ws @ ''+'' @ ds \<and> \<not> negative \<or> s = ws @ ''-'' @ ds \<and> negative)"

lemma takeWhile_all: "list_all P xs \<Longrightarrow> takeWhile P xs = xs"
  by (simp add: takeWhile_eq_all_conv list_all_iff)

lemma stoul_number:
  assumes "number_text ws negative ds s"
  shows "stoul s = Inr (if negative then - of_nat (decimal ds) else of_nat (decimal ds), length s)"
proof -
  obtain d ds' where ds: "ds = d # ds'" "is_digit d"
    using assms by (cases ds) (auto simp: number_text_def)
  have skip: "dropWhile is_space (ws @ c # cs) = c # cs" if "\<not> is_space c" for c cs
    using assms that by (simp add: number_text_def dropWhile_append list_all_iff)
  show ?thesis
    using assms ds char_kinds(1-3) [of d]
    by (auto simp: number_text_def stoul_def skip split_sign_def takeWhile_all char_kinds)
qed

lemma stoul_whole:
  assumes "stoul s = Inr (v, length s)"
  obtains ws negative ds where "number_text ws negative ds s"
    "v = (if negative then - of_nat (decimal ds) else of_nat (decimal ds))"
proof -
  let ?rest = "dropWhile is_space s"
  obtain negative body where sign: "split_sign ?rest = (negative, body)" by (metis surj_pair)
  let ?ds = "takeWhile is_digit body"
  have rest: "?rest = body \<and> \<not> negative \<or> ?rest = CHR ''+'' # body \<and> \<not> negative \<or> ?rest = CHR ''-'' # body \<and> negative"
    using sign by (auto simp: split_sign_def split: list.splits if_splits)
  have "length body \<le> length ?rest" using rest by auto
  then have "length body \<le> length s" using length_dropWhile_le order_trans by blast
  then have "length ?ds = length body" and num: "?ds \<noteq> []" "decimal ?ds \<le> SIZE_MAX"
      "v = (if negative then - of_nat (decimal ?ds) else of_nat (decimal ?ds))"
    using assms sign by (auto simp: stoul_def Let_def split: if_splits)
  then have whole: "?ds = body"
    by (metis append_eq_conv_conj takeWhile_dropWhile_id take_all order_refl)
  have "s = takeWhile is_space s @ ?rest" by simp
  moreover have "list_all is_space (takeWhile is_space s)" "list_all is_digit ?ds"
    by (auto simp: list_all_iff dest: set_takeWhileD)
  ultimately have "number_text (takeWhile is_space s) negative ?ds s"
    unfolding number_text_def using rest num whole by (metis append_Cons append_Nil)
  then show ?thesis using that num(3) by blast
qed

definition number_value :: "bool \<Rightarrow> string \<Rightarrow> nat" where
  "number_value negative ds = (if negative then (2 ^ 64 - decimal ds) mod 2 ^ 64 else decimal ds)"

lemma unat_number:
  assumes "decimal ds \<le> SIZE_MAX"
  shows "unat (if negative then - of_nat (decimal ds) else of_nat (decimal ds) :: u64) = number_value negative ds"
proof -
  have "(- of_nat (decimal ds) :: u64) = of_nat (2 ^ 64 - decimal ds)"
    using assms by (simp add: of_nat_diff SIZE_MAX_def)
  moreover have "unat (of_nat (2 ^ 64 - decimal ds) :: u64) = (2 ^ 64 - decimal ds) mod 2 ^ 64"
    by (simp add: unat_of_nat)
  ultimately show ?thesis
    using assms by (simp add: number_value_def unat_of_size)
qed

text \<open>
  The texts that get past the test for a leading minus sign and convert as a whole; every parser of
  the programs accepts a subset of them, given by the value.
\<close>

definition accepted_number :: "string \<Rightarrow> nat \<Rightarrow> bool" where
  "accepted_number s n \<longleftrightarrow>
     (\<exists>ws negative ds. number_text ws negative ds s \<and> \<not> (ws = [] \<and> negative) \<and> n = number_value negative ds)"

lemma accepted_number_iff:
  "accepted_number s n \<longleftrightarrow> s \<noteq> [] \<and> hd s \<noteq> CHR ''-'' \<and> (\<exists>v. stoul s = Inr (v, length s) \<and> unat v = n)"
proof
  assume "accepted_number s n"
  then obtain ws negative ds where num: "number_text ws negative ds s" "\<not> (ws = [] \<and> negative)"
    and n: "n = number_value negative ds"
    unfolding accepted_number_def by blast
  have "s \<noteq> [] \<and> hd s \<noteq> CHR ''-''"
    using num char_kinds by (cases ws; cases ds) (auto simp: number_text_def)
  moreover have "unat (if negative then - of_nat (decimal ds) else of_nat (decimal ds) :: u64) = n"
    using num(1) by (simp only: unat_number n number_text_def)
  ultimately show "s \<noteq> [] \<and> hd s \<noteq> CHR ''-'' \<and> (\<exists>v. stoul s = Inr (v, length s) \<and> unat v = n)"
    using stoul_number [OF num(1)] by blast
next
  assume *: "s \<noteq> [] \<and> hd s \<noteq> CHR ''-'' \<and> (\<exists>v. stoul s = Inr (v, length s) \<and> unat v = n)"
  then obtain ws negative ds where num: "number_text ws negative ds s"
    and "unat (if negative then - of_nat (decimal ds) else of_nat (decimal ds) :: u64) = n"
    by (metis stoul_whole)
  then have "n = number_value negative ds" by (simp only: unat_number number_text_def)
  moreover have "\<not> (ws = [] \<and> negative)" using num * by (auto simp: number_text_def)
  ultimately show "accepted_number s n"
    unfolding accepted_number_def using num by blast
qed

lemma ParsePort_iff: "ParsePort s = Inr p \<longleftrightarrow> accepted_number s (unat p)"
proof -
  have "ParsePort s = Inr p \<longleftrightarrow>
      s \<noteq> [] \<and> hd s \<noteq> CHR ''-'' \<and> (\<exists>v. stoul s = Inr (v, length s) \<and> v \<le> 65535 \<and> ucast v = p)"
    by (auto simp: ParsePort_def not_less split: sum.splits conversion_error.splits if_splits)
  moreover have "v \<le> 65535 \<and> ucast v = p \<longleftrightarrow> unat v = unat p" for v :: u64
  proof -
    have "unat p < 65536" using unsigned_less [of p, where 'a = nat] by simp
    moreover have "unat (ucast v :: u16) = unat v mod 65536" by (simp add: unsigned_ucast_eq take_bit_eq_mod)
    ultimately show ?thesis by (auto simp: word_le_nat_alt simp flip: word_unat_eq_iff)
  qed
  ultimately show ?thesis by (simp add: accepted_number_iff)
qed

lemma accepted_decimal_text: "n \<le> SIZE_MAX \<Longrightarrow> accepted_number (decimal_text n) n"
  unfolding accepted_number_def
  by (intro exI [of _ "[]"] exI [of _ False] exI [of _ "decimal_text n"])
    (use decimal_text_digits [of n] in \<open>simp add: number_text_def number_value_def\<close>)

lemma ParsePort_copies: "epoll_ParsePort = ParsePort" "server_ParsePort = ParsePort"
  by (simp_all add: fun_eq_iff ParsePort_def epoll_ParsePort_def server_ParsePort_def)

lemma ParsePositiveSize_accepts: "ParsePositiveSize option s = Inr n \<Longrightarrow> accepted_number s n \<and> 0 < n \<and> n \<le> SIZE_MAX"
  unfolding accepted_number_iff
  by (auto simp: ParsePositiveSize_def unat_gt_0 split: sum.splits conversion_error.splits if_splits)

lemma ParseWorkIterations_accepts:
  assumes "ParseWorkIterations option s = Inr n"
  shows "accepted_number s (unat n) \<and> 0 < unat n \<and> unat n \<le> 1000000"
proof -
  obtain v where v: "s \<noteq> []" "hd s \<noteq> CHR ''-''" "stoul s = Inr (v, length s)" "v \<noteq> 0"
      "v \<le> ucast kMaxWorkIterations" "n = ucast v"
    using assms by (auto simp: ParseWorkIterations_def not_less split: sum.splits conversion_error.splits if_splits)
  then have le: "unat v \<le> 1000000" by (simp add: word_le_nat_alt const_defs)
  moreover have "unat n = unat v mod 2 ^ 32" using v(6) by (simp add: unsigned_ucast_eq take_bit_eq_mod)
  ultimately have "unat n = unat v" by simp
  with v le show ?thesis by (auto simp: accepted_number_iff unat_gt_0)
qed

section \<open>Parsed arguments are usable\<close>

lemma parse_client_options_iterations:
  "parse_client_options cfg b args = Inr cfg' \<Longrightarrow> 0 < unat (cc_work_iterations cfg) \<and> unat (cc_work_iterations cfg) \<le> 1000000 \<Longrightarrow>
     0 < unat (cc_work_iterations cfg') \<and> unat (cc_work_iterations cfg') \<le> 1000000"
  by (induction cfg b args rule: parse_client_options.induct)
    (auto split: if_splits list.splits sum.splits dest: ParseWorkIterations_accepts)

lemma ParseArgs_parsed:
  assumes "ParseArgs argv = Inr cfg"
  shows "length (cc_payload cfg) \<le> (case cc_message_type cfg of kEcho \<Rightarrow> 65536 | kWork \<Rightarrow> 65532)"
    "0 < unat (cc_work_iterations cfg) \<and> unat (cc_work_iterations cfg) \<le> 1000000"
proof -
  obtain p where parsed: "parse_client_options (default_ClientConfig\<lparr>cc_port := p\<rparr>) False (drop 2 argv) = Inr cfg"
    and size: "\<not> (cc_message_type cfg = kEcho \<and> length (PayloadBytes (cc_payload cfg)) > unat kMaxPayloadSize)"
      "\<not> (cc_message_type cfg = kWork \<and> length (PayloadBytes (cc_payload cfg)) > unat (kMaxPayloadSize - 4))"
    using assms by (auto simp: ParseArgs_def Let_def split: if_splits sum.splits)
  show "length (cc_payload cfg) \<le> (case cc_message_type cfg of kEcho \<Rightarrow> 65536 | kWork \<Rightarrow> 65532)"
    using size by (cases "cc_message_type cfg") (simp_all add: PayloadBytes_def kMaxPayloadSize_def)
  show "0 < unat (cc_work_iterations cfg) \<and> unat (cc_work_iterations cfg) \<le> 1000000"
    by (rule parse_client_options_iterations [OF parsed]) (simp add: default_ClientConfig_def)
qed

lemma BuildRequest_encodable:
  assumes "ParseArgs argv = Inr cfg"
  shows "encodable (BuildRequest cfg)"
  using ParseArgs_parsed(1) [OF assms]
  by (cases "cc_message_type cfg")
    (simp_all add: encodable_def BuildRequest_def PayloadBytes_def EncodeWorkRequestPayload_def handler_fields
      IsKnownMessageType_def const_defs Let_def)

definition sizes_in_range :: "EpollEchoServerOptions \<Rightarrow> bool" where
  "sizes_in_range options \<longleftrightarrow>
     (\<forall>n \<in> {opt_worker_count options, opt_work_queue_capacity options, opt_max_read_bytes_per_event options,
        opt_max_write_bytes_per_event options, opt_max_connections options,
        opt_max_in_flight_requests_per_connection options, max_input_buffer (opt_connection_limits options),
        max_output_buffer (opt_connection_limits options)}. 0 < n \<and> n \<le> SIZE_MAX)"

lemma set_size_option_range: "sizes_in_range options \<Longrightarrow> 0 < n \<Longrightarrow> n \<le> SIZE_MAX \<Longrightarrow> sizes_in_range (set_size_option option n options)"
  by (auto simp: sizes_in_range_def set_size_option_def)

lemma set_size_option_keeps:
  "opt_handler (set_size_option option n options) = opt_handler options"
  "opt_shutdown_signals (set_size_option option n options) = opt_shutdown_signals options"
  by (simp_all add: set_size_option_def)

lemma parse_server_options_valid:
  "parse_server_options cfg b args = Inr cfg' \<Longrightarrow> sizes_in_range (sc_options cfg) \<Longrightarrow>
     sizes_in_range (sc_options cfg') \<and> opt_handler (sc_options cfg') = opt_handler (sc_options cfg) \<and>
     opt_shutdown_signals (sc_options cfg') = opt_shutdown_signals (sc_options cfg)"
  by (induction cfg b args rule: parse_server_options.induct)
    (auto split: if_splits list.splits sum.splits simp: set_size_option_keeps
      dest: ParsePositiveSize_accepts intro: set_size_option_range)

lemma epoll_ParseArgs_valid:
  assumes "epoll_ParseArgs argv = Inr cfg"
  shows "sizes_in_range (sc_options cfg)" "opt_handler (sc_options cfg) = Some (\<lambda>m. Inr (HandleOwnedRequest m))"
    "valid_options (sc_options cfg\<lparr>opt_shutdown_signals := signals\<rparr>)"
proof -
  have start: "sizes_in_range (sc_options default_ServerConfig)"
    by (simp add: sizes_in_range_def default_ServerConfig_def default_EpollEchoServerOptions_def default_ConnectionLimits_def
        const_defs SIZE_MAX_def)
  note parsed = parse_server_options_valid [OF assms [unfolded epoll_ParseArgs_def] start]
  then show "sizes_in_range (sc_options cfg)" "opt_handler (sc_options cfg) = Some (\<lambda>m. Inr (HandleOwnedRequest m))"
    by (simp_all add: default_ServerConfig_def default_EpollEchoServerOptions_def)
  then show "valid_options (sc_options cfg\<lparr>opt_shutdown_signals := signals\<rparr>)"
    by (simp add: sizes_in_range_def valid_options_def)
qed

section \<open>The text of a response\<close>

lemma hex_digit_inj: "a < 16 \<Longrightarrow> b < 16 \<Longrightarrow> hex_digit a = hex_digit b \<longleftrightarrow> a = b"
  by (auto simp: hex_digit_def split: if_splits)

lemma hex_byte: "n < 256 \<Longrightarrow> set_width 2 (CHR ''0'') (hex_text n) = [hex_digit (n div 16), hex_digit (n mod 16)]"
  by (subst hex_text.simps)
    (auto simp: set_width_def hex_text.simps [of "n div 16"] hex_digit_def [of 0] eq_commute [of "CHR ''0''"] char_of_eq_iff)

lemma HexPayload_Cons:
  "HexPayload (b # bs) = hex_digit (unat b div 16) # hex_digit (unat b mod 16) # HexPayload bs"
  using unsigned_less [of b, where 'a = nat] by (simp add: HexPayload_def hex_byte)

text \<open>The hexadecimal text determines the payload.\<close>

lemma HexPayload_inj: "HexPayload bs = HexPayload cs \<longleftrightarrow> bs = cs"
proof (induction bs arbitrary: cs)
  case Nil
  then show ?case by (cases cs) (simp_all add: HexPayload_Cons, simp_all add: HexPayload_def)
next
  case (Cons b bs)
  have byte: "hex_digit (unat b div 16) = hex_digit (unat c div 16) \<and> hex_digit (unat b mod 16) = hex_digit (unat c mod 16)
      \<longleftrightarrow> b = c" for c :: byte
    using unsigned_less [of b, where 'a = nat] unsigned_less [of c, where 'a = nat]
    by (auto simp: hex_digit_inj less_mult_imp_div_less) (metis div_mod_decomp word_unat_eq_iff)
  then show ?case
    using Cons.IH by (cases cs) (auto simp: HexPayload_Cons, auto simp: HexPayload_def)
qed

section \<open>Ways out of a program\<close>

lemma wp_print [wp_eqs]:
  "wp (print_out t) Q E (c, s) = Q () (c\<lparr>con_out := con_out c @ t\<rparr>, s)"
  "wp (print_err t) Q E (c, s) = Q () (c\<lparr>con_err := con_err c @ t\<rparr>, s)"
  by (simp_all add: print_out_def print_err_def wp_eqs)

lemma wp_lift_exn [wp_eqs]: "wp (lift_exn r) Q E = (case r of Inl e \<Rightarrow> E e | Inr x \<Rightarrow> Q x)"
  by (simp add: lift_exn_def wp_eqs split: sum.splits)

lemma client_main_exits:
  assumes laws: "net_laws K N" "send_keeps_inbound K N" "close_transfers_nothing K N" "client_laws K N waits"
    and cfg: "ParseArgs argv = Inr cfg" "\<not> (length argv = 2 \<and> argv ! 1 = ''--help'')"
  shows "wp (client_main K strerror argv)
    (\<lambda>code (c', w'). opened N w' = opened N w \<and>
       ((\<exists>response fd n. code = 0 \<and> c' = c\<lparr>con_out := con_out c @ response_line response\<rparr> \<and>
           wire N fd w' = frame_of (BuildRequest cfg) \<and> frame_verdict (received N fd w') = Inr (Some (response, n))) \<or>
        (\<exists>e. code = 1 \<and> con_out c' = con_out c \<and>
           con_err c' = con_err c @ client_usage @ ''pulsecore_client: '' @ what strerror e @ newline \<and>
           client_failure (BuildRequest cfg) e \<and> e \<noteq> RuntimeError ''failed to encode protocol message'')))
    (\<lambda>_ _. False) (c, w)"
proof -
  have "client_failure (BuildRequest cfg) e \<Longrightarrow> e \<noteq> RuntimeError ''failed to encode protocol message''" for e
    using BuildRequest_encodable [OF cfg(1)]
    by (auto simp: client_failure_def connect_failure_def send_failure_def recv_failure_def)
  with cfg show ?thesis
    unfolding client_main_def client_PrintUsage_def
    by (auto simp: wp_eqs Let_def asked_def intro!: wp_mono [OF SendRequestAndReadResponse_exchanges [OF laws]]) metis+
qed

lemma wp_ensuring [wp_eqs]:
  "wp (ensuring p d) Q E = wp p (\<lambda>x. wp d (\<lambda>_. Q x) E) (\<lambda>e. wp d (\<lambda>_. E e) E)"
  by (simp add: ensuring_def wp_eqs)

text \<open>A scope whose body may run for ever: if it is left, the destructor has run.\<close>

lemma ensuring_left:
  assumes "ensuring p d s = Some (r, s')"
    and "\<And>r1 s1. p s = Some (r1, s1) \<Longrightarrow> wp d (\<lambda>_. Q) (\<lambda>_ _. False) s1"
  shows "Q s'" "\<exists>s1. p s = Some (r, s1)"
proof -
  obtain r1 s1 where p: "p s = Some (r1, s1)"
    using assms(1) by (auto simp: ensuring_def unwinding_def catch_def andthen_def split: option.splits)
  from assms(2) [OF p] obtain s2 where d: "d s1 = Some (Inr (), s2)" "Q s2"
    by (elim wp_no_throw) auto
  with assms(1) p have "r = r1 \<and> s' = s2"
    by (cases r1) (auto simp: ensuring_def unwinding_def catch_def andthen_def seq_def throw_def ret_def)
  with d p show "Q s'" "\<exists>s1. p s = Some (r, s1)" by auto
qed

lemma preserves_print [preserve_intros]:
  "preserves (\<lambda>(c, s). I s) (print_out t)" "preserves (\<lambda>(c, s). I s) (print_err t)"
  by (auto simp: preserves_def print_out_def print_err_def modify_def)

lemma preserves_on_world [preserve_intros]: "preserves I p \<Longrightarrow> preserves (\<lambda>(c, s). I s) (on_world p)"
  by (rule preservesI) (auto simp: on_world_def dest: preservesD)

lemma with_server_left:
  assumes run: "with_server K join sv body (c, w) = Some (r, (c', w'))"
    and laws: "setup_laws K N sm" "write_settles K (patience N)" "leaves_descriptors N sm join"
    and body: "preserves (\<lambda>(c, s). framed N (base \<union> server_fds sv) (config sv) s) body"
    and start: "framed N (base \<union> server_fds sv) (config sv) (sv, w)" "server_fds sv \<inter> base = {}"
    and mask: "mask_active (signal_mask_state sv)" "previous_mask (signal_mask_state sv) = m"
  shows "at N sm base m w'"
proof -
  obtain sv' where left: "ensuring body (on_world (delete_EpollEchoServer K join)) (c, (sv, w)) = Some (r, (c', (sv', w')))"
    using run by (auto simp: with_server_def)
  have "(case (c', (sv', w')) of (c, sv, w) \<Rightarrow> at N sm base m w)"
  proof (rule ensuring_left(1) [OF left], goal_cases)
    case (1 r1 s1)
    obtain c1 sv1 w1 where s1: "s1 = (c1, sv1, w1)" by (metis prod_cases3)
    have "config sv1 = config sv" "accounts N (base \<union> server_fds sv) (registry sv1) w1"
      using preservesD [OF body 1] start(1) by (simp_all add: s1 framed_def)
    moreover from this have "server_fds sv1 = server_fds sv" "mask_saved sm m (signal_mask_state sv1) w1"
      using mask by (simp_all add: config_def server_fds_def mask_saved_def)
    ultimately show ?case
      using wp_mono [OF delete_accounted [OF laws, of m sv1 w1 base]] start(2) by (auto simp: s1 wp_eqs)
  qed
  then show ?thesis by simp
qed

lemma preserves_lift_exn [preserve_intros]: "preserves I (lift_exn r)"
  by (simp add: lift_exn_def preserves_basic split: sum.splits)

lemma on_world_left: "on_world p (c, w) = Some (r, s) \<Longrightarrow> \<exists>w'. s = (c, w') \<and> p w = Some (r, w')"
  by (auto simp: on_world_def)

lemma preserves_served:
  assumes laws: "net_laws K N" "setup_laws K N sm" and others: "acts_as_system h K N others"
    and join: "leaves_descriptors N sm join" and signals: "opt_shutdown_signals options \<noteq> []"
  shows "preserves (\<lambda>(c, w). at N sm os m w)
    (andthen (on_world (new_EpollEchoServer K spawn p options)) (\<lambda>sv.
       with_server K join sv
         (seq (PrintStartup (server_port sv) options)
         (seq (on_world (Run K others))
         (seq (print_out t)
            (ret code))))))"
    (is "preserves _ (andthen ?new (\<lambda>sv. with_server K join sv (?body sv)))")
proof (rule preservesI, clarify)
  fix c w r c' w'
  assume w: "at N sm os m w" and run: "andthen ?new (\<lambda>sv. with_server K join sv (?body sv)) (c, w) = Some (r, c', w')"
  note outcome = new_EpollEchoServer_outcome [OF laws(2) w, of spawn p options]
  from run show "at N sm os m w'"
  proof (cases rule: andthen_cases)
    case (threw e)
    then show ?thesis using wpD(2) [OF outcome] by (auto dest: on_world_left)
  next
    case (went_on sv s1)
    then obtain w1 where s1: "s1 = (c, w1)" and new: "new_EpollEchoServer K spawn p options w = Some (Inr sv, w1)"
      by (auto dest: on_world_left)
    from wpD(1) [OF outcome new] have fresh: "fresh_server options sv" and fds: "server_fds sv \<inter> os = {}"
      and w1: "opened N w1 = server_fds sv \<union> os" and mask: "mask_saved sm m (signal_mask_state sv) w1"
      by (simp_all add: at_def)
    have frame: "framed N base cfg (others t)" if "framed N base cfg t" for base cfg t
      using others that system_run_framed [OF laws(1)] unfolding acts_as_system_def by blast
    have "preserves (\<lambda>(c, s). framed N (os \<union> server_fds sv) (config sv) s) (?body sv)"
      unfolding PrintStartup_def by (intro preserve_intros Run_framed [OF laws(1)] frame)
    moreover have "framed N (os \<union> server_fds sv) (config sv) (sv, w1)"
      using fresh w1 by (auto simp: framed_def accounts_def fresh_server_def new_ConnectionRegistry_def fd_list_def)
    moreover have "mask_active (signal_mask_state sv)" "previous_mask (signal_mask_state sv) = m"
      using fresh mask signals by (simp_all add: fresh_server_def mask_saved_def)
    ultimately show ?thesis
      using with_server_left [OF went_on(2) [unfolded s1] laws(2) net_lawsD(7) [OF laws(1)] join _ _ fds] by blast
  qed
qed

lemma epoll_server_main_releases:
  assumes "net_laws K N" "setup_laws K N sm" "acts_as_system h K N others" "leaves_descriptors N sm join"
  shows "preserves (\<lambda>(c, w). at N sm os m w) (epoll_server_main K strerror spawn others join argv)"
  unfolding epoll_server_main_def epoll_PrintUsage_def Let_def
  by (intro preserve_intros preserves_served [OF assms]) simp

lemma throws_print [throw_intros]: "throws_only P (print_out t)" "throws_only P (print_err t)"
  unfolding print_out_def print_err_def by (intro throw_intros)+

lemma mains_catch_everything:
  "throws_only (\<lambda>_. False) (epoll_server_main K strerror spawn others join argv)"
  "throws_only (\<lambda>_. False) (server_main K strerror argv)"
  unfolding epoll_server_main_def server_main_def epoll_PrintUsage_def by (intro throw_intros)+

lemma preserves_blocking_server:
  assumes laws: "net_laws K N" "send_keeps_inbound K N" "close_transfers_nothing K N" "setup_laws K N sm"
  shows "preserves (\<lambda>(c, w). opened N w = os)
    (andthen (on_world (new_BlockingEchoServer K p)) (\<lambda>sv.
       ensuring
         (seq (print_out (t sv)) (loop (\<lambda>_. seq (on_world (ServeOne K sv)) (ret (Inl ()))) ()))
         (on_world (modify (close_all K (destroy (blocking_listener sv)))))))"
    (is "preserves _ (andthen ?new (\<lambda>sv. ensuring (?body sv) (?close sv)))")
proof (rule preservesI, clarify)
  fix c w r c' w'
  assume os: "os = opened N w" and run: "andthen ?new (\<lambda>sv. ensuring (?body sv) (?close sv)) (c, w) = Some (r, c', w')"
  have "at N sm os (sm w) w" by (simp add: at_def os)
  note outcome = new_BlockingEchoServer_outcome [OF laws(4) this, of p]
  from run show "opened N w' = opened N w"
  proof (cases rule: andthen_cases)
    case (threw e)
    then show ?thesis using wpD(2) [OF outcome] by (auto dest: on_world_left simp: at_def os)
  next
    case (went_on sv s1)
    then obtain w1 where s1: "s1 = (c, w1)" and new: "new_BlockingEchoServer K p w = Some (Inr sv, w1)"
      by (auto dest: on_world_left)
    let ?l = "get (blocking_listener sv)"
    from wpD(1) [OF outcome new] have l: "is_valid (blocking_listener sv)" "?l \<notin> opened N w" "opened N w1 = insert ?l (opened N w)"
      by (simp_all add: at_def os)
    have "preserves (\<lambda>w. opened N w = insert ?l (opened N w0)) (ServeOne K sv)" for w0
      by (rule preservesI, rename_tac s r s', case_tac r)
        (use wpD [OF ServeOne_serves [OF laws(1-3), of sv]] in \<open>auto simp: one_served_def\<close>)
    then have body: "preserves (\<lambda>(c, w'). opened N w' = insert ?l (opened N w)) (?body sv)"
      by (intro preserve_intros)
    have "(case (c', w') of (c, w') \<Rightarrow> opened N w' = opened N w)"
    proof (rule ensuring_left(1) [OF went_on(2) [unfolded s1]])
      fix r1 s2 assume "?body sv (c, w1) = Some (r1, s2)"
      from preservesD [OF body this] l show "wp (?close sv) (\<lambda>_ (c, w'). opened N w' = opened N w) (\<lambda>_ _. False) s2"
        by (cases s2) (simp add: wp_eqs close_owned opened_close [OF laws(1)])
    qed
    then show ?thesis by simp
  qed
qed

lemma server_main_releases:
  assumes "net_laws K N" "send_keeps_inbound K N" "close_transfers_nothing K N" "setup_laws K N sm"
  shows "preserves (\<lambda>(c, w). opened N w = os) (server_main K strerror argv)"
  unfolding server_main_def server_PrintUsage_def
  by (intro preserve_intros preserves_blocking_server [OF assms])

section \<open>Runs that fail\<close>

text \<open>A number below zero is accepted as a port when white space comes before its sign.\<close>

lemma negative_port_accepted: "ParsePort '' -18446744073709551615'' = Inr 1"
  by (simp add: ParsePort_def stoul_def split_sign_def is_space_def is_digit_def decimal_def SIZE_MAX_def)

text \<open>A peer that resets its connection ends the blocking server program.\<close>

definition reset_world :: script where
  "reset_world = empty_script\<lparr>accept_script := [None], recv_script := (\<lambda>_. [])(4 := [Inl ECONNRESET])\<rparr>"

lemma reset_ends_server_program:
  "\<exists>w'. server_main scripted (\<lambda>_. ''reset'') [''pulsecore_server''] (\<lparr>con_out = [], con_err = []\<rparr>, reset_world) =
     Some (Inr 1, (\<lparr>con_out = ''PulseCore blocking server listening on 127.0.0.1:0'' @ newline,
       con_err = ''pulsecore_server: recv: reset'' @ newline\<rparr>, w'))"
  by (simp add: server_main_def new_BlockingEchoServer_def blocking_CreateListener_def CreateIpv4Socket_def create_fd_def check_def
      blocking_BoundPort_def ServeOne_def AcceptOne_def scoped_def ServeClient_def with_decoder_def ReadMessage_def Next_fresh
      ensuring_def owning_def unwinding_def program_defs iterate_rules scripted_def reset_world_def empty_script_def
      script_create_def script_setup_def script_open_def Let_def get_def new_UniqueFd_def kInvalidFd_def what_def
      print_out_def print_err_def decimal_text.simps htons_def char_of_eq_iff)

text \<open>The listener is open when \<^verbatim>\<open>epoll_create1\<close> fails.\<close>

definition failing_world :: script where
  "failing_world = empty_script\<lparr>create_script := [None, None, None, None, Some (EOther 24)]\<rparr>"

lemma failing_construction:
  "new_EpollEchoServer scripted (\<lambda>_. None) 9000 options failing_world =
     Some (Inl (SyscallError ''epoll_create1'' (EOther 24)),
       sys_close scripted 3 (snd (script_open failing_world))\<lparr>create_script := []\<rparr>)"
  by (simp add: new_EpollEchoServer_def CreateListener_def CreateEpoll_def create_fd_def check_def owning_def unwinding_def program_defs
      scripted_def failing_world_def empty_script_def script_create_def script_setup_def script_open_def Let_def
      close_all_def destroy_def reset_def get_def new_UniqueFd_def kInvalidFd_def)

section \<open>Properties\<close>

text \<open>
  C38. Exactly which texts are accepted as a port, and as which one: white space, an optional sign and
  digits whose value, negated modulo \<open>2 ^ 64\<close> after a minus sign, fits 16 bits; the minus sign may not
  come first. A port that a server printed is accepted as that port, and the copies in the three programs
  are the same function.
\<close>

theorem port_texts:
  "(ParsePort s = Inr p \<longleftrightarrow>
      (\<exists>ws sign ds. s = ws @ sign @ ds \<and> list_all is_space ws \<and> sign \<in> {[], ''+'', ''-''} \<and>
         \<not> (ws = [] \<and> sign = ''-'') \<and> ds \<noteq> [] \<and> list_all is_digit ds \<and> decimal ds \<le> SIZE_MAX \<and>
         unat p = (if sign = ''-'' then (2 ^ 64 - decimal ds) mod 2 ^ 64 else decimal ds))) \<and>
   ParsePort (decimal_text (unat p)) = Inr p \<and> epoll_ParsePort = ParsePort \<and> server_ParsePort = ParsePort"
proof (intro conjI)
  have "unat p < 65536" using unsigned_less [of p, where 'a = nat] by simp
  then show "ParsePort (decimal_text (unat p)) = Inr p"
    by (simp add: ParsePort_iff accepted_decimal_text SIZE_MAX_def)
  show "ParsePort s = Inr p \<longleftrightarrow>
      (\<exists>ws sign ds. s = ws @ sign @ ds \<and> list_all is_space ws \<and> sign \<in> {[], ''+'', ''-''} \<and>
         \<not> (ws = [] \<and> sign = ''-'') \<and> ds \<noteq> [] \<and> list_all is_digit ds \<and> decimal ds \<le> SIZE_MAX \<and>
         unat p = (if sign = ''-'' then (2 ^ 64 - decimal ds) mod 2 ^ 64 else decimal ds))"
    unfolding ParsePort_iff accepted_number_def number_text_def number_value_def by fastforce
qed (simp_all add: ParsePort_copies)

text \<open>
  C16. Provided that its system calls come back, the client program exits, with every descriptor closed. Arguments that are not understood
  give exit code 1 before any system call. Otherwise it exits with 0 and prints the message that the
  bytes received start with, having sent exactly the request built from the arguments, or with 1
  and prints the reason to the error stream; the reason is never that the request could not be encoded.
\<close>

theorem client_program_exits:
  assumes "net_laws K N" "send_keeps_inbound K N" "close_transfers_nothing K N" "client_laws K N waits"
  shows "\<exists>code c' w'. client_main K strerror argv (c, w) = Some (Inr code, (c', w')) \<and> opened N w' = opened N w \<and>
    (if length argv = 2 \<and> argv ! 1 = ''--help''
     then code = 0 \<and> w' = w \<and> c' = c\<lparr>con_err := con_err c @ client_usage\<rparr>
     else case ParseArgs argv of
       Inl e \<Rightarrow> code = 1 \<and> w' = w \<and>
         c' = c\<lparr>con_err := con_err c @ client_usage @ ''pulsecore_client: '' @ what strerror e @ newline\<rparr>
     | Inr cfg \<Rightarrow>
         (\<exists>response fd n. code = 0 \<and> c' = c\<lparr>con_out := con_out c @ response_line response\<rparr> \<and>
            wire N fd w' = frame_of (BuildRequest cfg) \<and> frame_verdict (received N fd w') = Inr (Some (response, n))) \<or>
         (\<exists>e. code = 1 \<and> con_out c' = con_out c \<and>
            con_err c' = con_err c @ client_usage @ ''pulsecore_client: '' @ what strerror e @ newline \<and>
            client_failure (BuildRequest cfg) e \<and> e \<noteq> RuntimeError ''failed to encode protocol message''))"
proof (cases "length argv = 2 \<and> argv ! 1 = ''--help''")
  case True
  then show ?thesis
    by (simp add: client_main_def client_PrintUsage_def print_err_def program_defs)
next
  case False
  show ?thesis
  proof (cases "ParseArgs argv")
    case (Inl e)
    then show ?thesis
      using False by (auto simp: client_main_def client_PrintUsage_def print_err_def lift_exn_def program_defs)
  next
    case (Inr cfg)
    show ?thesis
      using client_main_exits [OF assms Inr False, of strerror w c] False
      by (elim wp_no_throw) (auto simp: Inr, metis+)
  qed
qed

theorem client_program_exits_witness:
  "client_laws scripted script_net (\<lambda>w. length (create_script w)) \<and>
   (\<exists>code c' w'. client_main scripted (\<lambda>_. ''error'') [''pulsecore_client'', ''80'', ''hi''] (\<lparr>con_out = [], con_err = []\<rparr>, client_world) =
      Some (Inr code, (c', w')) \<and> script_opened w' = {})"
  using client_program_exits [OF scripted_net_laws scripted_blocking_laws,
      of "\<lambda>_. ''error''" "[''pulsecore_client'', ''80'', ''hi'']" "\<lparr>con_out = [], con_err = []\<rparr>" client_world]
    scripted_blocking_laws(3)
  by (auto simp: script_opened_def exchange_worlds)



text \<open>
  C15. However the epoll server program ends (a bad argument, an exception of the constructor at any
  point, an exception of the event loop or a regular stop), it exits without an uncaught exception,
  every descriptor it opened is closed and the signal mask is what it was.
\<close>

theorem epoll_server_program_releases:
  assumes "net_laws K N" "setup_laws K N sm" "acts_as_system (\<lambda>m. Inr (HandleOwnedRequest m)) K N others"
    and "leaves_descriptors N sm join"
    and "epoll_server_main K strerror spawn others join argv (c, w) = Some (r, (c', w'))"
  shows "(\<exists>code. r = Inr code) \<and> opened N w' = opened N w \<and> sm w' = sm w"
proof -
  have "at N sm (opened N w) (sm w) w'"
    using preservesD [OF epoll_server_main_releases [OF assms(1-4)] assms(5)] by (simp add: at_def)
  moreover have "\<exists>code. r = Inr code"
    using assms(5) throws_onlyD [OF mains_catch_everything(1)] by (cases r) auto
  ultimately show ?thesis by (simp add: at_def)
qed

theorem epoll_server_program_releases_witness:
  "\<exists>c' w'. epoll_server_main scripted (\<lambda>_. ''error'') (\<lambda>_. None) (\<lambda>s. s) (\<lambda>s. s) [''pulsecore_epoll_server'']
     (\<lparr>con_out = [], con_err = []\<rparr>, failing_world) = Some (Inr 1, (c', w')) \<and> script_opened w' = {} \<and> sig_mask w' = []"
proof -
  obtain c' w' where run: "epoll_server_main scripted (\<lambda>_. ''error'') (\<lambda>_. None) (\<lambda>s. s) (\<lambda>s. s) [''pulsecore_epoll_server'']
     (\<lparr>con_out = [], con_err = []\<rparr>, failing_world) = Some (Inr 1, (c', w'))"
    by (simp add: epoll_server_main_def epoll_ParseArgs_def default_ServerConfig_def lift_exn_def program_defs failing_construction
        epoll_PrintUsage_def print_err_def Let_def)
  have "acts_as_system (\<lambda>m. Inr (HandleOwnedRequest m)) scripted script_net (\<lambda>s. s)"
    unfolding acts_as_system_def using system_run.finish by blast
  moreover have "leaves_descriptors script_net sig_mask (\<lambda>s. s)" by (simp add: leaves_descriptors_def)
  ultimately show ?thesis
    using epoll_server_program_releases [OF scripted_net_laws scripted_setup_laws _ _ run] run
    by (auto simp: failing_world_def empty_script_def script_opened_def)
qed

end
