(* ===== verification/Load_Generator.thy ===== *)
theory Load_Generator
  imports Command_Line
begin

unbundle bit_operations_syntax

text \<open>
  The load generator (\<^verbatim>\<open>apps/benchmark/epoll_loopback.cpp\<close>): its arguments, the requests of one client and
  the responses it expects, the loop of a client thread over the blocking client functions, and the
  percentiles. Time and durations are parameters: the code computes with floating-point seconds, and nothing
  here depends on their arithmetic. The lemmas show that the threads write disjoint parts of the shared
  vector of latencies, that the expected responses are those of the request handler, and that a percentile
  is the nearest-rank one.
\<close>

section \<open>Arguments\<close>

definition kWorkIterationBytes :: nat where
  [const_defs]: "kWorkIterationBytes = 4"

datatype BenchmarkMessageType = kBenchmarkEcho | kBenchmarkWork

record BenchmarkConfig =
  bc_clients :: nat
  bc_requests_per_client :: nat
  bc_payload_size :: nat
  bc_workers :: nat
  bc_message_type :: BenchmarkMessageType
  bc_work_iterations :: u32

text \<open>The default number of workers depends on \<^verbatim>\<open>std::thread::hardware_concurrency\<close>, a parameter.\<close>

definition default_BenchmarkConfig :: "u32 \<Rightarrow> BenchmarkConfig" where
  "default_BenchmarkConfig hardware_concurrency =
     \<lparr>bc_clients = 4, bc_requests_per_client = 1000, bc_payload_size = 64,
      bc_workers = max 1 (unat hardware_concurrency div 2),
      bc_message_type = kBenchmarkEcho, bc_work_iterations = 1000\<rparr>"

definition benchmark_ParsePositiveSize :: "string \<Rightarrow> string \<Rightarrow> exn + nat" where
  "benchmark_ParsePositiveSize option input =
     (if input = [] \<or> hd input = CHR ''-'' then Inl (RuntimeError (option @ '' must be a positive integer''))
      else
        case stoul input of
          Inl invalid_argument \<Rightarrow> Inl (RuntimeError (option @ '' must be a positive integer''))
        | Inl out_of_range \<Rightarrow> Inl (RuntimeError (option @ '' is out of range''))
        | Inr (v, parsed_chars) \<Rightarrow>
            if parsed_chars \<noteq> length input \<or> v = 0 \<or> SIZE_MAX < unat v
            then Inl (RuntimeError (option @ '' must be a positive integer''))
            else Inr (unat v))"

definition benchmark_ParseMessageType :: "string \<Rightarrow> string \<Rightarrow> exn + BenchmarkMessageType" where
  "benchmark_ParseMessageType option v =
     (if v = ''echo'' then Inr kBenchmarkEcho
      else if v = ''work'' then Inr kBenchmarkWork
      else Inl (RuntimeError (option @ '' must be echo or work'')))"

definition benchmark_ParseWorkIterations :: "string \<Rightarrow> string \<Rightarrow> exn + u32" where
  "benchmark_ParseWorkIterations option text =
     (case benchmark_ParsePositiveSize option text of
        Inl e \<Rightarrow> Inl e
      | Inr v \<Rightarrow>
          if v > unat kMaxWorkIterations then Inl (RuntimeError (option @ '' exceeds maximum work iterations''))
          else Inr (of_nat v))"

definition set_benchmark_option :: "string \<Rightarrow> string \<Rightarrow> BenchmarkConfig \<Rightarrow> exn + BenchmarkConfig" where
  "set_benchmark_option option v cfg =
     (if option = ''--clients''
      then map_sum id (\<lambda>n. cfg\<lparr>bc_clients := n\<rparr>) (benchmark_ParsePositiveSize option v)
      else if option = ''--requests-per-client''
      then map_sum id (\<lambda>n. cfg\<lparr>bc_requests_per_client := n\<rparr>) (benchmark_ParsePositiveSize option v)
      else if option = ''--payload-size''
      then map_sum id (\<lambda>n. cfg\<lparr>bc_payload_size := n\<rparr>) (benchmark_ParsePositiveSize option v)
      else if option = ''--workers''
      then map_sum id (\<lambda>n. cfg\<lparr>bc_workers := n\<rparr>) (benchmark_ParsePositiveSize option v)
      else if option = ''--message-type''
      then map_sum id (\<lambda>t. cfg\<lparr>bc_message_type := t\<rparr>) (benchmark_ParseMessageType option v)
      else if option = ''--work-iterations''
      then map_sum id (\<lambda>n. cfg\<lparr>bc_work_iterations := n\<rparr>) (benchmark_ParseWorkIterations option v)
      else Inl (RuntimeError (''unknown option: '' @ option)))"

fun parse_benchmark_options :: "BenchmarkConfig \<Rightarrow> string list \<Rightarrow> exn + BenchmarkConfig" where
  "parse_benchmark_options cfg [] = Inr cfg"
| "parse_benchmark_options cfg [option] = Inl (RuntimeError (option @ '' requires a value''))"
| "parse_benchmark_options cfg (option # v # rest) =
     (case set_benchmark_option option v cfg of
        Inl e \<Rightarrow> Inl e
      | Inr cfg' \<Rightarrow> parse_benchmark_options cfg' rest)"

definition benchmark_ParseArgs :: "u32 \<Rightarrow> string list \<Rightarrow> exn + BenchmarkConfig" where
  "benchmark_ParseArgs hardware_concurrency argv =
     (case parse_benchmark_options (default_BenchmarkConfig hardware_concurrency) (drop 1 argv) of
        Inl e \<Rightarrow> Inl e
      | Inr cfg \<Rightarrow>
          if bc_message_type cfg = kBenchmarkEcho \<and> bc_payload_size cfg > unat kMaxPayloadSize
          then Inl (RuntimeError ''--payload-size exceeds protocol max payload size'')
          else if bc_message_type cfg = kBenchmarkWork \<and> bc_payload_size cfg > unat kMaxPayloadSize - kWorkIterationBytes
          then Inl (RuntimeError ''--payload-size leaves no room for work request metadata'')
          else if bc_requests_per_client cfg > SIZE_MAX div bc_clients cfg
          then Inl (RuntimeError ''--clients * --requests-per-client is too large'')
          else Inr cfg)"

definition benchmark_MessageTypeName :: "BenchmarkMessageType \<Rightarrow> string" where
  "benchmark_MessageTypeName t = (case t of kBenchmarkEcho \<Rightarrow> ''echo'' | kBenchmarkWork \<Rightarrow> ''work'')"

section \<open>Requests\<close>

record ClientRequestTemplate =
  request_type :: MessageType
  expected_response_type :: MessageType
  request_payload :: "byte list"
  expected_response_payload :: "byte list"

definition BuildClientRequestTemplate :: "nat \<Rightarrow> BenchmarkConfig \<Rightarrow> exn + ClientRequestTemplate" where
  "BuildClientRequestTemplate client_index cfg =
     (let seed = replicate (bc_payload_size cfg) (ucast ((of_nat client_index :: u64) AND 0xFF)) in
      if bc_message_type cfg = kBenchmarkEcho
      then Inr \<lparr>request_type = kEchoRequest, expected_response_type = kEchoResponse,
                request_payload = seed, expected_response_payload = seed\<rparr>
      else
        let work = EncodeWorkRequestPayload (bc_work_iterations cfg) seed;
            expected_response = HandleRequest \<lparr>msg_type = kWorkRequest, request_id = 0, payload = work\<rparr>
        in
        if msg_type expected_response \<noteq> kWorkResponse
        then Inl (LogicError ''failed to prepare expected work response'')
        else Inr \<lparr>request_type = kWorkRequest, expected_response_type = kWorkResponse,
                  request_payload = work, expected_response_payload = payload expected_response\<rparr>)"

definition RequestMessage :: "u64 \<Rightarrow> ClientRequestTemplate \<Rightarrow> Message" where
  "RequestMessage rid t = \<lparr>msg_type = request_type t, request_id = rid, payload = request_payload t\<rparr>"

section \<open>A client thread\<close>

text \<open>
  The state is the shared vector of latencies, the decoder and the system; the other threads write
  other elements of the vector. \<open>now\<close> reads the clock and \<open>elapsed\<close> is the difference of two readings in
  seconds. Writing past the end of the vector is undefined behaviour, a program that does not return. The
  thread starts the part modelled here when the start flag is set.
\<close>

definition store_latency :: "nat \<Rightarrow> 'd \<Rightarrow> ('d list \<times> 's, unit) io" where
  "store_latency k d = (\<lambda>(ds, s). if k < length ds then Some (Inr (), (ds[k := d], s)) else None)"

definition exchange_request ::
  "'w sys \<Rightarrow> ('w \<Rightarrow> 't \<times> 'w) \<Rightarrow> ('t \<Rightarrow> 't \<Rightarrow> 'd) \<Rightarrow> int \<Rightarrow> ClientRequestTemplate \<Rightarrow> u64 \<Rightarrow>
   ('d list \<times> FrameDecoder \<times> 'w, unit) io" where
  "exchange_request K now elapsed fd t rid =
     andthen (on_world (on_world (act now))) (\<lambda>started.
     seq (on_world (on_world (SendMessage K fd (RequestMessage rid t))))
     (andthen (on_world (ReadMessage K fd)) (\<lambda>read.
       if rm_status read \<noteq> kMessage \<or> rm_message read = None
       then throw (RuntimeError ''benchmark client did not receive a response'')
       else
         let m = the (rm_message read) in
         if msg_type m \<noteq> expected_response_type t \<or> request_id m \<noteq> rid \<or> payload m \<noteq> expected_response_payload t
         then throw (RuntimeError ''benchmark client received an unexpected response'')
         else
           andthen (on_world (on_world (act now))) (\<lambda>finished.
             store_latency (unat rid) (elapsed finished started)))))"

definition with_client_decoder :: "('v \<times> FrameDecoder \<times> 'w, 'a) io \<Rightarrow> ('v \<times> 'w, 'a) io" where
  "with_client_decoder m = (\<lambda>(v, w). map_option (\<lambda>(r, (v', (d, w'))). (r, (v', w'))) (m (v, (new_FrameDecoder, w))))"

definition RunClient ::
  "'w sys \<Rightarrow> ('w \<Rightarrow> 't \<times> 'w) \<Rightarrow> ('t \<Rightarrow> 't \<Rightarrow> 'd) \<Rightarrow> u16 \<Rightarrow> nat \<Rightarrow> BenchmarkConfig \<Rightarrow> ('d list \<times> 'w, unit) io" where
  "RunClient K now elapsed p client_index cfg =
     andthen (on_world (ConnectTcp K ''127.0.0.1'' p)) (\<lambda>socket.
       ensuring
         (with_client_decoder
            (andthen (lift_exn (BuildClientRequestTemplate client_index cfg)) (\<lambda>t.
               for_each
                 (\<lambda>request_index.
                    exchange_request K now elapsed (get socket) t
                      (of_nat (client_index * bc_requests_per_client cfg + request_index)))
                 [0..<bc_requests_per_client cfg])))
         (on_world (modify (close_all K (destroy socket)))))"

section \<open>Percentiles\<close>

text \<open>\<open>zero\<close> is \<^verbatim>\<open>0.0\<close> and \<open>micros\<close> turns seconds into microseconds. The rank is computed modulo \<open>2 ^ 64\<close>.\<close>

definition PercentileMicros :: "'d \<Rightarrow> ('d \<Rightarrow> 'd) \<Rightarrow> 'd list \<Rightarrow> nat \<Rightarrow> 'd" where
  "PercentileMicros zero micros sorted_seconds percentile =
     (if sorted_seconds = [] then zero
      else
        let rank = ((percentile * length sorted_seconds + 99) mod 2 ^ 64) div 100;
            index = min (length sorted_seconds - 1) ((rank + 2 ^ 64 - 1) mod 2 ^ 64)
        in micros (sorted_seconds ! index))"

section \<open>Accepted arguments\<close>

definition benchmark_in_range :: "BenchmarkConfig \<Rightarrow> bool" where
  "benchmark_in_range cfg \<longleftrightarrow> 0 < bc_clients cfg \<and> 0 < bc_requests_per_client cfg \<and> 0 < bc_payload_size cfg \<and> 0 < bc_workers cfg \<and>
     0 < unat (bc_work_iterations cfg) \<and> unat (bc_work_iterations cfg) \<le> 1000000"

lemma benchmark_ParsePositiveSize_eq: "benchmark_ParsePositiveSize = ParsePositiveSize"
  by (simp add: fun_eq_iff benchmark_ParsePositiveSize_def ParsePositiveSize_def)

lemma benchmark_ParseWorkIterations_accepts:
  "benchmark_ParseWorkIterations option s = Inr n \<Longrightarrow> 0 < unat n \<and> unat n \<le> 1000000"
  using ParsePositiveSize_accepts [of option s]
  by (auto simp: benchmark_ParseWorkIterations_def benchmark_ParsePositiveSize_eq const_defs unat_of_nat
      split: sum.splits if_splits)

lemma set_benchmark_option_range:
  "benchmark_in_range cfg \<Longrightarrow> set_benchmark_option option v cfg = Inr cfg' \<Longrightarrow> benchmark_in_range cfg'"
  using ParsePositiveSize_accepts [of option v] benchmark_ParseWorkIterations_accepts [of option v]
  by (auto simp: set_benchmark_option_def benchmark_in_range_def benchmark_ParsePositiveSize_eq map_sum_def
      split: if_splits sum.splits)

lemma parse_benchmark_options_range:
  "parse_benchmark_options cfg args = Inr cfg' \<Longrightarrow> benchmark_in_range cfg \<Longrightarrow> benchmark_in_range cfg'"
  by (induction cfg args rule: parse_benchmark_options.induct)
    (auto split: sum.splits dest: set_benchmark_option_range)

lemma benchmark_ParseArgs_parsed:
  assumes "benchmark_ParseArgs hw argv = Inr cfg"
  shows "benchmark_in_range cfg" "bc_clients cfg * bc_requests_per_client cfg \<le> SIZE_MAX"
    "bc_payload_size cfg \<le> (if bc_message_type cfg = kBenchmarkEcho then 65536 else 65532)"
proof -
  have parsed: "parse_benchmark_options (default_BenchmarkConfig hw) (drop 1 argv) = Inr cfg"
    and limit: "bc_requests_per_client cfg \<le> SIZE_MAX div bc_clients cfg"
    and size: "\<not> (bc_message_type cfg = kBenchmarkEcho \<and> bc_payload_size cfg > 65536)"
      "\<not> (bc_message_type cfg = kBenchmarkWork \<and> bc_payload_size cfg > 65532)"
    using assms by (auto simp: benchmark_ParseArgs_def kWorkIterationBytes_def not_less split: sum.splits if_splits)
  show "benchmark_in_range cfg"
    by (rule parse_benchmark_options_range [OF parsed]) (simp add: benchmark_in_range_def default_BenchmarkConfig_def)
  show "bc_clients cfg * bc_requests_per_client cfg \<le> SIZE_MAX"
    using limit by (meson div_times_less_eq_dividend mult_le_mono order_refl order_trans times_div_less_eq_dividend)
  show "bc_payload_size cfg \<le> (if bc_message_type cfg = kBenchmarkEcho then 65536 else 65532)"
    using size by (cases "bc_message_type cfg") auto
qed

text \<open>The expected response is the one the request handler gives, whatever the request id.\<close>

lemma template_expects:
  assumes "BuildClientRequestTemplate i cfg = Inr t"
    and "bc_payload_size cfg \<le> (if bc_message_type cfg = kBenchmarkEcho then 65536 else 65532)"
  shows "encodable (RequestMessage rid t)"
    "HandleRequest (RequestMessage rid t) =
       \<lparr>msg_type = expected_response_type t, request_id = rid, payload = expected_response_payload t\<rparr>"
proof -
  show "encodable (RequestMessage rid t)"
    using assms by (auto simp: BuildClientRequestTemplate_def RequestMessage_def encodable_def IsKnownMessageType_def
        EncodeWorkRequestPayload_def handler_fields const_defs Let_def split: if_splits)
  show "HandleRequest (RequestMessage rid t) =
       \<lparr>msg_type = expected_response_type t, request_id = rid, payload = expected_response_payload t\<rparr>"
    using assms by (auto simp: BuildClientRequestTemplate_def RequestMessage_def HandleRequest_eq HandleOwnedRequest_def
        ErrorResponse_def const_defs Let_def split: if_splits option.splits)
qed

section \<open>What a client thread does\<close>

text \<open>
  After the requests with the ids \<open>ids\<close>: exactly they were sent, the bytes received start with the
  handler's responses to them, and at most the elements of the vector with these numbers were written.
\<close>

definition measured ::
  "'w net \<Rightarrow> int \<Rightarrow> ClientRequestTemplate \<Rightarrow> 'w \<Rightarrow> 'd list \<Rightarrow> u64 list \<Rightarrow> 'd list \<times> FrameDecoder \<times> 'w \<Rightarrow> bool" where
  "measured N fd t w ds ids = (\<lambda>(ds', d, w').
     decoder_inv d \<and> opened N w' = opened N w \<and> length ds' = length ds \<and>
     wire N fd w' = concat (map (\<lambda>r. frame_of (RequestMessage r t)) ids) \<and>
     received N fd w' = concat (map (\<lambda>r. frame_of (HandleRequest (RequestMessage r t))) ids) @ unread d \<and>
     (\<forall>k. k \<notin> unat ` set ids \<longrightarrow> ds' ! k = ds ! k))"

text \<open>A response other than the handler's arrived.\<close>

definition wrong_response :: "'w net \<Rightarrow> int \<Rightarrow> ClientRequestTemplate \<Rightarrow> u64 list \<Rightarrow> 'w \<Rightarrow> bool" where
  "wrong_response N fd t ids w \<longleftrightarrow>
     (\<exists>done_ids rid todo m rest. ids = done_ids @ rid # todo \<and> m \<noteq> HandleRequest (RequestMessage rid t) \<and>
        received N fd w = concat (map (\<lambda>r. frame_of (HandleRequest (RequestMessage r t))) done_ids) @ frame_of m @ rest)"

definition load_failure :: "'w net \<Rightarrow> int \<Rightarrow> ClientRequestTemplate \<Rightarrow> u64 list \<Rightarrow> exn \<Rightarrow> 'w \<Rightarrow> bool" where
  "load_failure N fd t ids e w \<longleftrightarrow> send_failure e \<or> recv_failure e \<or>
     e = RuntimeError ''benchmark client did not receive a response'' \<or>
     e = RuntimeError ''benchmark client received an unexpected response'' \<and> wrong_response N fd t ids w"

definition stopped_measuring ::
  "'w net \<Rightarrow> int \<Rightarrow> ClientRequestTemplate \<Rightarrow> 'w \<Rightarrow> 'd list \<Rightarrow> u64 list \<Rightarrow> exn \<Rightarrow> 'd list \<times> FrameDecoder \<times> 'w \<Rightarrow> bool" where
  "stopped_measuring N fd t w ds ids e = (\<lambda>(ds', d, w').
     opened N w' = opened N w \<and> length ds' = length ds \<and> (\<forall>k. k \<notin> unat ` set ids \<longrightarrow> ds' ! k = ds ! k) \<and>
     load_failure N fd t ids e w')"

lemma wp_store_latency [wp_eqs]:
  "wp (store_latency k x) Q E (ds, s) \<longleftrightarrow> k < length ds \<and> Q () (ds[k := x], s)"
  by (simp add: wp_def store_latency_def)

lemma exchange_request_measures:
  assumes laws: "net_laws K N" "send_keeps_inbound K N" "quiet N now"
    and t: "\<And>r. encodable (RequestMessage r t)"
      "\<And>r. HandleRequest (RequestMessage r t) =
        \<lparr>msg_type = expected_response_type t, request_id = r, payload = expected_response_payload t\<rparr>"
    and before: "measured N fd t w ds ids s" and slot: "unat rid < length ds"
  shows "wp (exchange_request K now elapsed fd t rid) (\<lambda>_. measured N fd t w ds (ids @ [rid]))
    (stopped_measuring N fd t w ds (ids @ rid # todo)) s"
proof -
  obtain ds1 d1 w1 where s: "s = (ds1, d1, w1)" by (metis prod_cases3)
  obtain started w2 where clock: "now w1 = (started, w2)" by (metis surj_pair)
  have b: "decoder_inv d1" "opened N w1 = opened N w" "length ds1 = length ds"
    "wire N fd w1 = concat (map (\<lambda>r. frame_of (RequestMessage r t)) ids)"
    "received N fd w1 = concat (map (\<lambda>r. frame_of (HandleRequest (RequestMessage r t))) ids) @ unread d1"
    "\<And>k. k \<notin> unat ` set ids \<Longrightarrow> ds1 ! k = ds ! k"
    using before unfolding s measured_def prod.case by blast+
  have same: "same_net N v v'" if "now v = (x, v')" for x v v' using quietD [OF laws(3) that] .
  let ?Q = "\<lambda>_ :: unit. measured N fd t w ds (ids @ [rid])" and ?E = "stopped_measuring N fd t w ds (ids @ rid # todo)"
  let ?read = "\<lambda>read. if rm_status read \<noteq> kMessage \<or> rm_message read = None
       then throw (RuntimeError ''benchmark client did not receive a response'')
       else
         let m = the (rm_message read) in
         if msg_type m \<noteq> expected_response_type t \<or> request_id m \<noteq> rid \<or> payload m \<noteq> expected_response_payload t
         then throw (RuntimeError ''benchmark client received an unexpected response'')
         else
           andthen (on_world (on_world (act now))) (\<lambda>finished.
             store_latency (unat rid) (elapsed finished started))"
  have stop: "?E e (ds1, d', w')" if "opened N w' = opened N w" "load_failure N fd t (ids @ rid # todo) e w'" for e d' w'
    using that b(3,6) by (auto simp: stopped_measuring_def)
  have answered: "wp (?read r) ?Q ?E (ds1, d4, w4)"
    if w3: "sent_only N fd (frame_of (RequestMessage rid t)) w2 w3" and d4: "decoder_inv d4"
      and w4: "received_only N fd bs w3 w4" and r: "read_result (unread d1 @ bs) r (unread d4)" for w3 d4 w4 bs r
  proof -
    have obs: "opened N w4 = opened N w" "wire N fd w4 = concat (map (\<lambda>r. frame_of (RequestMessage r t)) (ids @ [rid]))"
      "received N fd w4 = concat (map (\<lambda>r. frame_of (HandleRequest (RequestMessage r t))) ids) @ unread d1 @ bs"
      using b w3 w4 same [OF clock] by (auto simp: sent_only_def received_only_def same_net_def)
    show ?thesis
    proof (cases "unread d1 @ bs" rule: TryDecodeFrame_cases)
      case (decoded m n)
      with r have r: "r = ReadMessageResult_Message m" "unread d4 = drop n (unread d1 @ bs)"
        by (simp_all add: read_result_def flip: frame_verdict_iff)
      have cut: "unread d1 @ bs = frame_of m @ unread d4"
        using TryDecodeFrame_DecodedD(4) [OF decoded] r(2) by (metis append_take_drop_id)
      obtain finished w5 where clock': "now w4 = (finished, w5)" by (metis surj_pair)
      show ?thesis
      proof (cases "m = HandleRequest (RequestMessage rid t)")
        case True
        then have "measured N fd t w ds (ids @ [rid]) (ds1[unat rid := elapsed finished started], d4, w5)"
          using obs same [OF clock'] b d4 cut by (auto simp: measured_def same_net_def nth_list_update)
        with True b slot show ?thesis
          by (simp add: r(1) ReadMessageResult_defs wp_eqs clock' t(2))
      next
        case False
        then have "msg_type m \<noteq> expected_response_type t \<or> request_id m \<noteq> rid \<or> payload m \<noteq> expected_response_payload t"
          by (cases m) (simp add: t(2))
        moreover have "wrong_response N fd t (ids @ rid # todo) w4"
          unfolding wrong_response_def
          by (intro exI [of _ ids] exI [of _ rid] exI [of _ todo] exI [of _ m] exI [of _ "unread d4"]) (simp add: False obs(3) cut)
        ultimately show ?thesis
          using obs by (auto simp: r(1) ReadMessageResult_defs wp_eqs load_failure_def intro!: stop)
      qed
    qed (use r obs in \<open>auto simp: read_result_def ReadMessageResult_defs wp_eqs load_failure_def
        simp flip: frame_verdict_iff intro!: stop\<close>)
  qed
  have reads: "wp (on_world (ReadMessage K fd)) (\<lambda>r. wp (?read r) ?Q ?E) ?E (ds1, d1, w3)"
    if w3: "sent_only N fd (frame_of (RequestMessage rid t)) w2 w3" for w3
    unfolding wp_on_world
  proof (rule wp_mono [OF ReadMessage_reads [OF laws(1)]], goal_cases)
    case 1
    then show ?case using b by simp
  next
    case (2 r s4)
    then obtain d4 w4 bs where s4: "s4 = (d4, w4)" "decoder_inv d4" "received_only N fd bs w3 w4"
      "read_result (unread d1 @ bs) r (unread d4)" by (cases s4) auto
    show ?case unfolding s4(1) by (rule answered [OF w3 s4(2-4)])
  next
    case (3 e s4)
    then show ?case
      using b w3 same [OF clock]
      by (auto simp: load_failure_def recv_failure_def received_only_def sent_only_def same_net_def intro!: stop)
  qed
  have "wp (SendMessage K fd (RequestMessage rid t))
      (\<lambda>_ w3. wp (on_world (ReadMessage K fd)) (\<lambda>r. wp (?read r) ?Q ?E) ?E (ds1, d1, w3)) (\<lambda>e w3. ?E e (ds1, d1, w3)) w2"
  proof (rule wp_mono [OF SendMessage_sends [OF laws(1,2)]], goal_cases)
    case (1 x w3)
    then show ?case using reads by blast
  next
    case (2 e w3)
    then show ?case
      using t(1) b same [OF clock] by (auto simp: load_failure_def sent_only_def same_net_def intro!: stop)
  qed
  then show ?thesis
    unfolding exchange_request_def s by (simp only: wp_andthen wp_seq wp_on_world wp_act clock prod.case)
qed

lemma wp_with_client_decoder [wp_eqs]:
  "wp (with_client_decoder m) Q E (v, w) =
     wp m (\<lambda>x (v, d, w). Q x (v, w)) (\<lambda>e (v, d, w). E e (v, w)) (v, new_FrameDecoder, w)"
  by (auto simp: wp_def with_client_decoder_def split: option.splits sum.splits)

text \<open>The ids of a client's requests are the numbers of its part of the vector.\<close>

definition request_ids :: "nat \<Rightarrow> BenchmarkConfig \<Rightarrow> u64 list" where
  "request_ids i cfg = map (\<lambda>j. of_nat (i * bc_requests_per_client cfg + j)) [0..<bc_requests_per_client cfg]"

lemma request_slot:
  assumes "i < c" "j < n" "c * n \<le> SIZE_MAX"
  shows "unat (of_nat (i * n + j) :: u64) = i * n + j" "i * n + j < c * n" "(i * n + j) div n = i"
proof -
  have "Suc i * n \<le> c * n" using assms(1) by (intro mult_le_mono1) simp
  then show less: "i * n + j < c * n" using assms(2) by simp
  then show "unat (of_nat (i * n + j) :: u64) = i * n + j" using assms(3) by (intro unat_of_size) simp
  show "(i * n + j) div n = i" using assms(2) by simp
qed

lemma requests_measured:
  assumes laws: "net_laws K N" "send_keeps_inbound K N" "quiet N now"
    and cfg: "benchmark_ParseArgs hw argv = Inr cfg" "i < bc_clients cfg"
      "length ds = bc_clients cfg * bc_requests_per_client cfg"
    and t: "BuildClientRequestTemplate i cfg = Inr t" and fresh: "wire N fd w = []" "received N fd w = []"
  shows "wp (for_each (\<lambda>j. exchange_request K now elapsed fd t (of_nat (i * bc_requests_per_client cfg + j)))
      [0..<bc_requests_per_client cfg])
    (\<lambda>_. measured N fd t w ds (request_ids i cfg)) (stopped_measuring N fd t w ds (request_ids i cfg))
    (ds, new_FrameDecoder, w)"
  unfolding request_ids_def
proof (rule wp_for_each_prefix [where I = "\<lambda>js. measured N fd t w ds (map (\<lambda>j. of_nat (i * bc_requests_per_client cfg + j)) js)"])
  fix ys j zs s
  assume split: "[0..<bc_requests_per_client cfg] = ys @ j # zs"
    and before: "measured N fd t w ds (map (\<lambda>j. of_nat (i * bc_requests_per_client cfg + j)) ys) s"
  note parsed = benchmark_ParseArgs_parsed [OF cfg(1)]
  have "j < bc_requests_per_client cfg"
    using arg_cong [OF split, of set] by (metis atLeastLessThan_iff in_set_conv_decomp set_upt)
  note slot = request_slot [OF cfg(2) this parsed(2)]
  show "wp (exchange_request K now elapsed fd t (of_nat (i * bc_requests_per_client cfg + j)))
      (\<lambda>_. measured N fd t w ds (map (\<lambda>j. of_nat (i * bc_requests_per_client cfg + j)) (ys @ [j])))
      (stopped_measuring N fd t w ds (map (\<lambda>j. of_nat (i * bc_requests_per_client cfg + j)) [0..<bc_requests_per_client cfg])) s"
    using exchange_request_measures [OF laws template_expects [OF t parsed(3)] before, of _ elapsed] slot cfg(3)
    unfolding split by simp
qed (use fresh in \<open>simp add: measured_def\<close>)

lemma other_slots:
  assumes "k div bc_requests_per_client cfg \<noteq> i" "i < bc_clients cfg"
    "bc_clients cfg * bc_requests_per_client cfg \<le> SIZE_MAX"
  shows "k \<notin> unat ` set (request_ids i cfg)"
  using assms request_slot [OF assms(2) _ assms(3)] by (auto simp: request_ids_def)

text \<open>What holds when the thread ends, and what holds in addition when it has not thrown.\<close>

definition kept_to_its_slots :: "'w net \<Rightarrow> BenchmarkConfig \<Rightarrow> nat \<Rightarrow> 'd list \<times> 'w \<Rightarrow> 'd list \<times> 'w \<Rightarrow> bool" where
  "kept_to_its_slots N cfg i = (\<lambda>(ds, w) (ds', w').
     opened N w' = opened N w \<and> length ds' = length ds \<and>
     (\<forall>k. k div bc_requests_per_client cfg \<noteq> i \<longrightarrow> ds' ! k = ds ! k))"

lemma RunClient_outcome:
  assumes laws: "net_laws K N" "send_keeps_inbound K N" "close_transfers_nothing K N" "client_laws K N waits" "quiet N now"
    and cfg: "benchmark_ParseArgs hw argv = Inr cfg" "i < bc_clients cfg"
      "length ds = bc_clients cfg * bc_requests_per_client cfg"
  shows "wp (RunClient K now elapsed p i cfg)
    (\<lambda>_ s'. kept_to_its_slots N cfg i (ds, w) s' \<and>
       (\<exists>t fd rest. BuildClientRequestTemplate i cfg = Inr t \<and>
          wire N fd (snd s') = concat (map (\<lambda>r. frame_of (RequestMessage r t)) (request_ids i cfg)) \<and>
          received N fd (snd s') = concat (map (\<lambda>r. frame_of (HandleRequest (RequestMessage r t))) (request_ids i cfg)) @ rest))
    (\<lambda>e s'. kept_to_its_slots N cfg i (ds, w) s') (ds, w)"
    (is "wp _ ?Q ?E _")
  unfolding RunClient_def wp_andthen wp_on_world
proof (rule wp_mono [OF ConnectTcp_connects [OF laws(1,4)]], goal_cases)
  case (1 c w1)
  then have c: "connected N w c w1" by simp
  note slots = other_slots [OF _ cfg(2) benchmark_ParseArgs_parsed(2) [OF cfg(1)]]
  have closed: "close_all K (destroy c) w2 = sys_close K (get c) w2"
      "opened N w2 = opened N w1 \<Longrightarrow> opened N (sys_close K (get c) w2) = opened N w"
      "wire N (get c) (sys_close K (get c) w2) = wire N (get c) w2"
      "received N (get c) (sys_close K (get c) w2) = received N (get c) w2" for w2
    using c laws(3) by (auto simp: close_owned connected_def opened_close [OF laws(1)] close_transfers_nothing_def)
  have fresh: "wire N (get c) w1 = []" "received N (get c) w1 = []" using c by (simp_all add: connected_def)
  show ?case
  proof (cases "BuildClientRequestTemplate i cfg")
    case (Inl e)
    then show ?thesis by (simp add: wp_eqs closed kept_to_its_slots_def)
  next
    case (Inr t)
    have "wp (for_each (\<lambda>j. exchange_request K now elapsed (get c) t (of_nat (i * bc_requests_per_client cfg + j)))
        [0..<bc_requests_per_client cfg])
      (\<lambda>x (v, d, w). ?Q x (v, sys_close K (get c) w)) (\<lambda>e (v, d, w). ?E e (v, sys_close K (get c) w))
      (ds, new_FrameDecoder, w1)"
    proof (rule wp_mono [OF requests_measured [OF laws(1,2,5) cfg Inr fresh]], goal_cases)
      case (1 x s')
      then show ?case
        using closed slots Inr by (cases s') (auto simp: measured_def kept_to_its_slots_def intro!: exI [of _ "get c"])
    next
      case (2 e s')
      then show ?case
        using closed slots by (cases s') (auto simp: stopped_measuring_def kept_to_its_slots_def)
    qed
    then show ?thesis by (simp add: wp_eqs Inr closed split_beta)
  qed
next
  case (2 e w')
  then show ?case by (simp add: kept_to_its_slots_def)
qed

section \<open>Nearest rank\<close>

lemma count_at_most:
  assumes "sorted xs" "k < length xs"
  shows "Suc k \<le> length (filter (\<lambda>y. y \<le> xs ! k) xs)"
    "y < xs ! k \<Longrightarrow> length (filter (\<lambda>z. z \<le> y) xs) \<le> k"
proof -
  have "{..k} \<subseteq> {j. j < length xs \<and> xs ! j \<le> xs ! k}"
    using assms by (auto intro: sorted_nth_mono)
  from card_mono [OF _ this] show "Suc k \<le> length (filter (\<lambda>y. y \<le> xs ! k) xs)"
    by (simp add: length_filter_conv_card)
  show "length (filter (\<lambda>z. z \<le> y) xs) \<le> k" if "y < xs ! k"
  proof -
    have "{j. j < length xs \<and> xs ! j \<le> y} \<subseteq> {..<k}"
      using assms that by (auto simp: not_less intro: ccontr) (meson leD le_less_trans linorder_not_le sorted_nth_mono)
    from card_mono [OF _ this] show ?thesis by (simp add: length_filter_conv_card)
  qed
qed

lemma PercentileMicros_rank:
  assumes "xs \<noteq> []" "0 < p" "p \<le> 100" "p * length xs + 99 < 2 ^ 64"
  defines "rank \<equiv> (p * length xs + 99) div 100"
  shows "PercentileMicros zero micros xs p = micros (xs ! (rank - 1))" "0 < rank" "rank \<le> length xs"
    "p * length xs \<le> 100 * rank" "100 * (rank - 1) < p * length xs"
proof -
  have n: "0 < length xs" using assms(1) by simp
  then have pn: "0 < p * length xs" using assms(2) by simp
  have "p * length xs \<le> 100 * length xs" using assms(3) by (rule mult_le_mono1)
  then show rank: "0 < rank" "rank \<le> length xs" "p * length xs \<le> 100 * rank" "100 * (rank - 1) < p * length xs"
    using pn unfolding rank_def by linarith+
  have "rank < 2 ^ 64" using assms(4) unfolding rank_def by linarith
  then have "(rank + 2 ^ 64 - 1) mod 2 ^ 64 = rank - 1"
    using rank(1) by (cases rank) simp_all
  moreover have "min (length xs - 1) (rank - 1) = rank - 1" using rank(2) by simp
  ultimately show "PercentileMicros zero micros xs p = micros (xs ! (rank - 1))"
    using assms(1,4) by (simp add: PercentileMicros_def Let_def flip: rank_def)
qed

section \<open>Properties\<close>

text \<open>
  C39. Provided that its system calls come back, a client thread of the load generator ends with its socket closed, and it never writes outside its own
  part of the shared latencies, so the threads do not race on them and no write is past the end of the
  vector. When it ends without an exception, it sent exactly its requests, in order, and the bytes
  it received start with the responses that the request handler gives to them.
\<close>

theorem load_client_keeps_to_its_slots:
  assumes "net_laws K N" "send_keeps_inbound K N" "close_transfers_nothing K N" "client_laws K N waits" "quiet N now"
    and "benchmark_ParseArgs hw argv = Inr cfg" "i < bc_clients cfg"
    and "length ds = bc_clients cfg * bc_requests_per_client cfg"
  shows "\<exists>r ds' w'. RunClient K now elapsed p i cfg (ds, w) = Some (r, (ds', w')) \<and> opened N w' = opened N w \<and>
    length ds' = length ds \<and> (\<forall>k. k div bc_requests_per_client cfg \<noteq> i \<longrightarrow> ds' ! k = ds ! k) \<and>
    (r = Inr () \<longrightarrow>
       (\<exists>t fd rest. BuildClientRequestTemplate i cfg = Inr t \<and>
          wire N fd w' = concat (map (\<lambda>j. frame_of (RequestMessage (of_nat (i * bc_requests_per_client cfg + j)) t))
            [0..<bc_requests_per_client cfg]) \<and>
          received N fd w' = concat (map (\<lambda>j. frame_of (HandleRequest
            (RequestMessage (of_nat (i * bc_requests_per_client cfg + j)) t))) [0..<bc_requests_per_client cfg]) @ rest))"
proof -
  note outcome = RunClient_outcome [OF assms, of elapsed p w]
  obtain r ds' w' where run: "RunClient K now elapsed p i cfg (ds, w) = Some (r, (ds', w'))"
    using wp_returns [OF outcome] by auto
  show ?thesis
    using wpD [OF outcome] run
    by (cases r) (auto simp: kept_to_its_slots_def request_ids_def comp_def)
qed

theorem load_client_keeps_to_its_slots_witness:
  "benchmark_ParseArgs 8 [''pulsecore_epoll_benchmark''] = Inr (default_BenchmarkConfig 8) \<and>
   (\<exists>r ds' w'. RunClient scripted (\<lambda>w. (0 :: nat, w)) (\<lambda>a b. a - b) 80 0 (default_BenchmarkConfig 8)
        (replicate 4000 7, client_world) = Some (r, (ds', w')) \<and>
      script_opened w' = {} \<and> ds' ! 1000 = 7)"
proof -
  have args: "benchmark_ParseArgs 8 [''pulsecore_epoll_benchmark''] = Inr (default_BenchmarkConfig 8)"
    by (simp add: benchmark_ParseArgs_def default_BenchmarkConfig_def SIZE_MAX_def)
  have clock: "quiet script_net (\<lambda>w. (0 :: nat, w))" by (simp add: quiet_def)
  have size: "0 < bc_clients (default_BenchmarkConfig 8)"
    "length (replicate 4000 (7 :: nat)) = bc_clients (default_BenchmarkConfig 8) * bc_requests_per_client (default_BenchmarkConfig 8)"
    "bc_requests_per_client (default_BenchmarkConfig 8) = 1000"
    by (simp_all add: default_BenchmarkConfig_def)
  obtain r ds' w' where "RunClient scripted (\<lambda>w. (0 :: nat, w)) (\<lambda>a b. a - b) 80 0 (default_BenchmarkConfig 8)
      (replicate 4000 7, client_world) = Some (r, (ds', w'))" "opened script_net w' = opened script_net client_world"
    "\<forall>k. k div bc_requests_per_client (default_BenchmarkConfig 8) \<noteq> 0 \<longrightarrow> ds' ! k = replicate 4000 7 ! k"
    using load_client_keeps_to_its_slots [OF scripted_net_laws scripted_blocking_laws clock args size(1,2),
        of "\<lambda>a b. a - b" 80 client_world] by blast
  with args size(3) show ?thesis
    by (auto simp: script_opened_def exchange_worlds)
qed

text \<open>
  C40. A percentile is the nearest-rank one: an element such that at least that share of the measurements is
  no larger, and no smaller element has this property.
\<close>

theorem percentile_is_nearest_rank:
  assumes "sorted xs" "xs \<noteq> []" "0 < p" "p \<le> 100" "p * length xs + 99 < 2 ^ 64"
  shows "\<exists>x. x \<in> set xs \<and> PercentileMicros zero micros xs p = micros x \<and>
    p * length xs \<le> 100 * length (filter (\<lambda>y. y \<le> x) xs) \<and>
    (\<forall>y. y < x \<longrightarrow> 100 * length (filter (\<lambda>z. z \<le> y) xs) < p * length xs)"
proof -
  let ?k = "(p * length xs + 99) div 100 - 1"
  note rank = PercentileMicros_rank [OF assms(2-5)]
  have k: "?k < length xs" using rank(2,3) by linarith
  note count = count_at_most [OF assms(1) k]
  show ?thesis
  proof (intro exI conjI allI impI)
    show "xs ! ?k \<in> set xs" using k by simp
    show "PercentileMicros zero micros xs p = micros (xs ! ?k)" by (rule rank(1))
    show "p * length xs \<le> 100 * length (filter (\<lambda>y. y \<le> xs ! ?k) xs)" using count(1) rank(2,4) by linarith
    fix y assume "y < xs ! ?k"
    then show "100 * length (filter (\<lambda>z. z \<le> y) xs) < p * length xs" using count(2) [of y] rank(5) by linarith
  qed
qed

theorem percentile_is_nearest_rank_witness:
  "\<exists>x. x \<in> set [1, 2, 3, 4 :: nat] \<and> PercentileMicros 0 (\<lambda>s. s * 1000000) [1, 2, 3, 4] 50 = x * 1000000 \<and>
     50 * length [1, 2, 3, 4 :: nat] \<le> 100 * length (filter (\<lambda>y. y \<le> x) [1, 2, 3, 4])"
proof -
  have "sorted [1, 2, 3, 4 :: nat]" "[1, 2, 3, 4 :: nat] \<noteq> []" "0 < (50 :: nat)" "50 \<le> (100 :: nat)"
    "50 * length [1, 2, 3, 4 :: nat] + 99 < 2 ^ 64" by simp_all
  from percentile_is_nearest_rank [OF this, of 0 "\<lambda>s. s * 1000000"] show ?thesis by blast
qed

end
