(* ===== verification/Sample_Run.thy ===== *)
theory Sample_Run
  imports Scripted_Net
begin

text \<open>
  A concrete run of the server over the scripted system: it is constructed with one worker and a
  shutdown signal, accepts a connection, reads a request and the end of the stream from it, and
  hands the request to the worker.
\<close>

definition sample_handler :: WorkHandler where
  "sample_handler = (\<lambda>m. Inr (HandleOwnedRequest m))"

definition sample_options :: EpollEchoServerOptions where
  "sample_options = default_EpollEchoServerOptions\<lparr>opt_worker_count := 1, opt_shutdown_signals := [15]\<rparr>"

text \<open>Before the construction: one client will be waiting, and its bytes are on the way.\<close>

definition sample_world :: script where
  "sample_world = empty_script\<lparr>accept_script := [None], recv_script := (\<lambda>_. [])(7 := [Inr sample_frame, Inr []])\<rparr>"

definition started_server :: EpollEchoServer where
  "started_server =
     \<lparr>listener = new_UniqueFd 3, epoll = new_UniqueFd 4,
      signal_mask_state = \<lparr>previous_mask = [], mask_active = True\<rparr>,
      worker_wakeup = new_UniqueFd 5, shutdown_signal = new_UniqueFd 6, server_port = 0,
      registry = new_ConnectionRegistry default_ConnectionLimits,
      connection_flows = [], completed_work = [], stop_requested = False,
      max_read_bytes_per_event = 65536, max_write_bytes_per_event = 65536, max_connections = 1024,
      max_in_flight_requests_per_connection = 1024,
      worker_pool = \<lparr>pool_queue = \<lparr>capacity = 1024, items = [], closed = False\<rparr>, workers = [Ready],
        notifies = 0, notify_alls = 0, accepted = [], completed = []\<rparr>\<rparr>"

definition started_world :: script where
  "started_world = sample_world\<lparr>
     interest := [3 \<mapsto> ListenerEvent, 5 \<mapsto> WorkerWakeupEvent, 6 \<mapsto> ShutdownSignalEvent],
     open_list := [6, 5, 4, 3], fd_next := 7, sig_mask := [15]\<rparr>"

definition accepting_world :: script where
  "accepting_world = started_world\<lparr>accept_script := [], open_list := [7, 6, 5, 4, 3], fd_next := 8\<rparr>"

definition accepted_connection :: Connection where
  "accepted_connection = new_Connection \<lparr>id_value = 1\<rparr> (new_UniqueFd 7) default_ConnectionLimits"

definition accepted_server :: EpollEchoServer where
  "accepted_server = started_server\<lparr>
     registry := (registry started_server)\<lparr>next_id := \<lparr>id_value = 2\<rparr>, connections := [(1, accepted_connection)]\<rparr>,
     connection_flows := [(1, new_ConnectionFlow\<lparr>registered_with_epoll := True\<rparr>)]\<rparr>"

definition accepted_world :: script where
  "accepted_world = accepting_world\<lparr>fl_flags := 2050,
     interest := (interest accepting_world)(7 \<mapsto> ConnectionEvent \<lparr>id_value = 1\<rparr> True False)\<rparr>"

lemmas program_defs = seq_def andthen_def ret_def throw_def peek_def modify_def act_def unless_def catch_def
  unwinding_def owning_def check_def create_fd_def lift_exn_def build_def on_world_def server_def set_server_def
  syscall_def EpollCtl_def loop_def loop_body_def Let_def

lemmas fd_defs = new_UniqueFd_def get_def is_valid_def default_UniqueFd_def

lemmas world_defs = sample_world_def started_world_def accepting_world_def accepted_world_def empty_script_def
  scripted_def script_create_def script_setup_def script_open_def

lemma sample_construction:
  "new_EpollEchoServer scripted (\<lambda>_. None) 0 sample_options sample_world = Some (Inr started_server, started_world)"
  by (simp add: new_EpollEchoServer_def CreateListener_def CreateEpoll_def CreateWorkerWakeup_def
      BlockShutdownSignals_def BuildSignalSet_def CreateShutdownSignalFd_def RequireConnectionLimits_def
      RequirePositiveBudget_def sample_options_def default_EpollEchoServerOptions_def default_ConnectionLimits_def
      new_WorkerPool_def new_BoundedQueue_def constructor_body_def BoundPort_def AddListenerToEpoll_def
      AddWorkerWakeupToEpoll_def AddShutdownSignalToEpoll_def htons_def new_ShutdownSignalMaskState_def
      started_server_def program_defs fd_defs world_defs const_defs fun_eq_iff)

lemma sample_accept:
  "AcceptNonBlocking scripted 3 (sv, started_world) = Some (Inr (new_UniqueFd 7), (sv, accepting_world))"
  "AcceptNonBlocking scripted 3 (sv, accepted_world) = Some (Inr default_UniqueFd, (sv, accepted_world))"
  by (simp_all add: AcceptNonBlocking_def iterate_rules IsWouldBlock_def program_defs fd_defs world_defs fun_eq_iff)

lemma sample_register:
  "register_connection scripted (new_UniqueFd 7) (started_server, accepting_world) =
     Some (Inr (), (accepted_server, accepted_world))"
  by (simp add: register_connection_def add_to_registry_def Add_def new_ConnectionRegistry_def UINT64_MAX_def
      SetNonBlocking_def Find_def find_flow_def put_flow_def set_flow_def flow_at_def deref_def new_Connection_def
      has_pending_output_def pending_output_bytes_def O_NONBLOCK_def default_ConnectionLimits_def
      started_server_def accepted_server_def accepted_connection_def program_defs fd_defs world_defs const_defs)

lemma sample_fields:
  "get (listener started_server) = 3" "get (listener accepted_server) = 3"
  "registry_size (registry started_server) = 0" "max_connections started_server = 1024"
  "is_valid (new_UniqueFd 7)" "\<not> is_valid default_UniqueFd"
  by (simp_all add: started_server_def accepted_server_def registry_size_def new_ConnectionRegistry_def fd_defs kInvalidFd_def)

lemma sample_listener_event:
  "dispatch scripted ListenerEvent (started_server, started_world) = Some (Inr (), (accepted_server, accepted_world))"
proof -
  have "accept_connections scripted (Suc (Suc 62)) (started_server, started_world) =
      Some (Inr (), (accepted_server, accepted_world))"
    unfolding accept_connections.simps
    by (simp add: andthen_server seq_def andthen_def [of "AcceptNonBlocking K fd" for K fd]
        andthen_def [of "register_connection K fd" for K fd] ret_def sample_accept sample_register sample_fields)
  then show ?thesis by (simp add: dispatch_def HandleListenerEvent_def ListenerEvent_def const_defs)
qed

lemma sample_reachable:
  "reachable scripted script_net sample_handler sample_options sample_world (started_server, started_world)"
  "reachable scripted script_net sample_handler sample_options sample_world (accepted_server, accepted_world)"
proof -
  show start: "reachable scripted script_net sample_handler sample_options sample_world (started_server, started_world)"
    unfolding reachable_def using sample_construction
    by (auto simp: sample_options_def default_EpollEchoServerOptions_def sample_handler_def const_defs SIZE_MAX_def
        intro!: exI system_run.finish)
  show "reachable scripted script_net sample_handler sample_options sample_world (accepted_server, accepted_world)"
    using reachable_run [OF start system_run_single [OF system_step.event [OF sample_listener_event]]] .
qed

lemma sample_find: "Find (registry accepted_server) \<lparr>id_value = 1\<rparr> = Some accepted_connection"
  by (simp add: accepted_server_def Find_def)

text \<open>The client sends one frame and closes its end; the request goes to the pool.\<close>

definition received_world :: script where
  "received_world = accepted_world\<lparr>recv_script := (\<lambda>_. [])(7 := [Inr []]), recv_bytes := (\<lambda>_. [])(7 := sample_frame)\<rparr>"

definition read_world :: script where
  "read_world = accepted_world\<lparr>recv_script := (\<lambda>_. []), recv_bytes := (\<lambda>_. [])(7 := sample_frame)\<rparr>"

lemma sample_drain:
  "DrainDecoder (Append new_FrameDecoder sample_frame) [] = (None, new_FrameDecoder, [sample_message])"
proof -
  have "TryDecodeFrame (sample_frame @ []) = Decoded sample_message (length sample_frame)"
    using frames.dec_enc [OF EncodeMessage_sample, of "[]"] by simp
  then have dec: "TryDecodeFrame (unread (Append new_FrameDecoder sample_frame)) = Decoded sample_message (length sample_frame)"
    by (simp add: Append_abs)
  then have "snd (Next (Append new_FrameDecoder sample_frame)) = new_FrameDecoder"
    by (simp add: Next_def Let_def CompactIfNeeded_def Append_def new_FrameDecoder_def unread_def)
  then show ?thesis
    by (simp add: DrainDecoder_decoded [OF dec] DrainDecoder_need_more TryDecodeFrame_short)
qed

lemma sample_read:
  "ReadAvailable scripted accepted_connection 65536 accepted_world =
     Some (Inr (ReadPeerClosed [sample_message]), accepted_connection, read_world)"
proof -
  let ?c = "accepted_connection\<lparr>decoder := Append new_FrameDecoder sample_frame\<rparr>"
  have "ReadAvailable_body scripted 65536 (accepted_connection, [], False, 0, accepted_world) =
      Inl (?c, [], True, 22, received_world)"
    by (simp add: ReadAvailable_body_def accepted_connection_def new_Connection_def received_world_def world_defs
        sample_frame_def DrainDecoder_need_more TryDecodeFrame_short default_ConnectionLimits_def BufferedSize_abs
        const_defs fd_defs)
  moreover have "ReadAvailable_body scripted 65536 (?c, [], True, 22, received_world) =
      Inr (Inr (ReadPeerClosed [sample_message]), accepted_connection, read_world)"
    by (simp add: ReadAvailable_body_def accepted_connection_def new_Connection_def received_world_def read_world_def world_defs
        sample_drain default_ConnectionLimits_def BufferedSize_abs const_defs fd_defs fun_eq_iff)
  ultimately show ?thesis
    by (simp add: ReadAvailable_def iterate_rules)
qed

definition sample_item :: WorkItem where
  "sample_item = \<lparr>wi_connection_id = \<lparr>id_value = 1\<rparr>, wi_sequence = 0, wi_request = sample_message\<rparr>"

definition submitted_server :: EpollEchoServer where
  "submitted_server = accepted_server\<lparr>
     connection_flows := [(1, new_ConnectionFlow\<lparr>next_request_sequence := 1, close_after_flush := True\<rparr>)],
     worker_pool := (worker_pool accepted_server)\<lparr>
       pool_queue := \<lparr>capacity = 1024, items = [sample_item], closed = False\<rparr>, notifies := 1, accepted := [sample_item]\<rparr>\<rparr>"

definition submitted_world :: script where
  "submitted_world = read_world\<lparr>interest := (interest read_world)(7 := None)\<rparr>"

lemmas server_defs = accepted_server_def started_server_def new_ConnectionRegistry_def submitted_server_def
  Find_def Store_def find_flow_def put_flow_def set_flow_def flow_at_def connection_at_def deref_def on_connection_def
  new_ConnectionFlow_def

lemma sample_read_and_submit:
  "read_and_submit scripted \<lparr>id_value = 1\<rparr> (accepted_server, accepted_world) =
     Some (Inr False, (submitted_server\<lparr>connection_flows := [(1, new_ConnectionFlow\<lparr>next_request_sequence := 1,
       close_after_flush := True, registered_with_epoll := True\<rparr>)]\<rparr>, read_world))"
  by (simp add: read_and_submit_def server_defs program_defs sample_read ReadPeerClosed_def TrySubmit_def TryPush_def sample_item_def)

lemma sample_update_interest:
  "UpdateInterest scripted \<lparr>id_value = 1\<rparr> (submitted_server\<lparr>connection_flows := [(1, new_ConnectionFlow\<lparr>next_request_sequence := 1,
       close_after_flush := True, registered_with_epoll := True\<rparr>)]\<rparr>, read_world) =
     Some (Inr (), (submitted_server, submitted_world))"
  by (simp add: UpdateInterest_def server_defs program_defs submitted_world_def read_world_def world_defs
     accepted_connection_def new_Connection_def has_pending_output_def pending_output_bytes_def fd_defs fun_eq_iff)

lemma sample_connection_event:
  "dispatch scripted \<lparr>ev_events = EPOLLIN, ev_data = 1\<rparr> (accepted_server, accepted_world) =
     Some (Inr (), (submitted_server, submitted_world))"
proof -
  let ?sv = "submitted_server\<lparr>connection_flows := [(1, new_ConnectionFlow\<lparr>next_request_sequence := 1,
       close_after_flush := True, registered_with_epoll := True\<rparr>)]\<rparr>"
  have flags: "EPOLLIN AND EPOLLERR = 0" "EPOLLIN \<noteq> 0" "EPOLLIN AND EPOLLOUT = 0"
    by (simp_all add: EPOLLIN_def EPOLLERR_def EPOLLOUT_def)
  have flow: "find_flow \<lparr>id_value = 1\<rparr> accepted_server = Some (new_ConnectionFlow\<lparr>registered_with_epoll := True\<rparr>)"
    "\<not> close_after_flush new_ConnectionFlow"
    by (simp_all add: accepted_server_def find_flow_def new_ConnectionFlow_def)
  have "andthen (connection_at \<lparr>id_value = 1\<rparr>) (\<lambda>c. andthen (flow_at \<lparr>id_value = 1\<rparr>) (\<lambda>fl.
      if ShouldCloseAfterFlush c fl then RemoveConnection scripted \<lparr>id_value = 1\<rparr>
      else UpdateInterest scripted \<lparr>id_value = 1\<rparr>)) (?sv, read_world) =
    Some (Inr (), (submitted_server, submitted_world))"
  proof -
    have "connection_at \<lparr>id_value = 1\<rparr> (?sv, read_world) = Some (Inr accepted_connection, (?sv, read_world))"
      by (simp add: server_defs program_defs)
    moreover have "flow_at \<lparr>id_value = 1\<rparr> (?sv, read_world) = Some (Inr (new_ConnectionFlow\<lparr>next_request_sequence := 1,
       close_after_flush := True, registered_with_epoll := True\<rparr>), (?sv, read_world))"
      by (simp add: server_defs program_defs)
    moreover have "\<not> ShouldCloseAfterFlush accepted_connection (new_ConnectionFlow\<lparr>next_request_sequence := 1,
       close_after_flush := True, registered_with_epoll := True\<rparr>)"
      by (simp add: ShouldCloseAfterFlush_def new_ConnectionFlow_def)
    ultimately show ?thesis
      by (simp add: andthen_def sample_update_interest)
  qed
  then show ?thesis
    by (simp add: dispatch_def HandleConnectionEvent_def const_defs UINT64_MAX_def Let_def andthen_server sample_find flow flags
       andthen_def [of "read_and_submit K i" for K i] andthen_def [of "ret x" for x] sample_read_and_submit ret_def)
qed

lemma sample_submitted_reachable:
  "reachable scripted script_net sample_handler sample_options sample_world (submitted_server, submitted_world)"
  using reachable_run [OF sample_reachable(2) system_run_single [OF system_step.event [OF sample_connection_event]]] .

lemma sample_submitted:
  "Find (registry submitted_server) \<lparr>id_value = 1\<rparr> = Some accepted_connection"
  "find_flow \<lparr>id_value = 1\<rparr> submitted_server =
     Some (new_ConnectionFlow\<lparr>next_request_sequence := 1, close_after_flush := True\<rparr>)"
  "\<not> registered_with_epoll (new_ConnectionFlow\<lparr>next_request_sequence := 1, close_after_flush := True\<rparr>)"
  by (simp_all add: server_defs)

text \<open>Another thread that calls \<^verbatim>\<open>Stop\<close>.\<close>

definition stopping :: "'w sys \<Rightarrow> EpollEchoServer \<times> 'w \<Rightarrow> EpollEchoServer \<times> 'w" where
  "stopping K s = (case Stop K s of Some (Inr _, s') \<Rightarrow> s' | _ \<Rightarrow> s)"

lemma stopping_acts: "acts_as_system h K N (stopping K)"
proof -
  have "\<exists>as. system_run h K N as s (stopping K s)" for s
  proof (cases "\<exists>s'. Stop K s = Some (Inr (), s')")
    case True
    then obtain s' where "Stop K s = Some (Inr (), s')" by blast
    then have "system_run h K N [StopCalled] s (stopping K s)"
      by (simp add: stopping_def system_run_single [OF system_step.stop])
    then show ?thesis ..
  next
    case False
    then have "stopping K s = s" by (auto simp: stopping_def split: option.splits sum.splits)
    then show ?thesis by (metis system_run.finish)
  qed
  then show ?thesis by (simp add: acts_as_system_def)
qed

lemma sample_stopping: "stop_requested (fst (stopping scripted (submitted_server, submitted_world)))"
  by (simp add: stopping_def Stop_def NotifyWorkerWakeup_def server_defs program_defs iterate_rules scripted_def fd_defs kInvalidFd_def)

end
