(* ===== verification/Server_Stop.thy ===== *)
theory Server_Stop
  imports Server_Progress
begin

text \<open>
  The stop flag of the reactor: nothing that the server, its workers or another thread does clears it, so
  that a requested stop is never lost, and the event loop returns once a stop has been requested.
\<close>

definition stop_pending :: "EpollEchoServer \<times> 'w \<Rightarrow> bool" where
  "stop_pending s = stop_requested (fst s)"

section \<open>The programs\<close>

lemma stop_set_server [preserve_intros]:
  assumes "\<And>sv. stop_requested sv \<Longrightarrow> stop_requested (f sv)"
  shows "preserves stop_pending (set_server f)"
  using assms by (auto simp: preserves_def set_server_def modify_def stop_pending_def split: prod.splits)

lemma stop_syscall [preserve_intros]: "preserves stop_pending (syscall call)"
  by (auto simp: preserves_def syscall_def on_world_def act_def stop_pending_def split: prod.splits)

lemma stop_flows [simp]:
  "stop_requested (put_flow i fl sv) = stop_requested sv" "stop_requested (erase_flow i sv) = stop_requested sv"
  by (simp_all add: put_flow_def erase_flow_def)

lemma stop_parts [preserve_intros]:
  "preserves stop_pending (set_flow i g)" "preserves stop_pending (on_connection i f)"
  "preserves stop_pending (remove_from_registry K i)" "preserves stop_pending (add_to_registry K fd)"
  "preserves stop_pending (act (\<lambda>(sv, w). case TrySubmit (worker_pool sv) item of (ok, p) \<Rightarrow> (ok, (sv\<lparr>worker_pool := p\<rparr>, w))))"
  "preserves stop_pending (close_fd K fd)"
proof -
  show "preserves stop_pending (set_flow i g)" "preserves stop_pending (close_fd K fd)"
    unfolding set_flow_def close_fd_def by (intro preserve_intros; simp)+
qed (auto simp: preserves_def on_connection_def remove_from_registry_def add_to_registry_def act_def stop_pending_def
    split: prod.splits option.splits)

lemma stop_SubmitWork [preserve_intros]: "preserves stop_pending (SubmitWork i ms)"
  by (induction ms) (auto simp: Let_def intro!: preserve_intros)

lemma stop_removal [preserve_intros]:
  "preserves stop_pending (EpollCtl K ep op fd ev name)" "preserves stop_pending (RemoveConnection K i)"
  "preserves stop_pending (UpdateInterest K i)"
  unfolding EpollCtl_def RemoveConnection_def UpdateInterest_def Let_def by (intro preserve_intros; simp)+

lemma stop_handlers [preserve_intros]:
  "preserves stop_pending (FlushReadyResponses K i)" "preserves stop_pending (HandleCompletedWork K r)"
  "preserves stop_pending (HandleConnectionEvent K i e)" "preserves stop_pending (HandleWorkerWakeup K)"
  "preserves stop_pending (HandleShutdownSignal K)" "preserves stop_pending (NotifyWorkerWakeup K)"
  "preserves stop_pending (StoreCompletedWork K r)" "preserves stop_pending (Stop K)"
  "preserves stop_pending (AcceptNonBlocking K fd)" "preserves stop_pending (register_connection K client)"
  unfolding FlushReadyResponses_def flush_loop_def HandleCompletedWork_def HandleConnectionEvent_def read_and_submit_def
    write_pending_def HandleWorkerWakeup_def HandleShutdownSignal_def drain_fd_def NotifyWorkerWakeup_def StoreCompletedWork_def
    Stop_def AcceptNonBlocking_def register_connection_def Let_def
  by (intro preserve_intros; simp)+

lemma stop_accepting [preserve_intros]: "preserves stop_pending (accept_connections K n)"
  by (induction n) (auto intro!: preserve_intros)

lemma stop_dispatch: "preserves stop_pending (dispatch K event)"
  unfolding dispatch_def HandleListenerEvent_def Let_def by (intro preserve_intros)

section \<open>The system\<close>

lemma system_step_stop:
  assumes "system_step h K N a s s'" "stop_pending s"
  shows "stop_pending s'"
  using assms(1)
proof cases
  case (event ev)
  then show ?thesis using preservesD [OF stop_dispatch] assms(2) by blast
next
  case (work k sv p w)
  then show ?thesis
    using preservesD [OF preserves_for_each [OF stop_handlers(7)] work(4)] assms(2) by (simp add: stop_pending_def)
next
  case stop
  then show ?thesis using preservesD [OF stop_handlers(8)] assms(2) by blast
qed (use assms(2) in \<open>auto simp: stop_pending_def\<close>)

lemma system_run_stop: "system_run h K N as s s' \<Longrightarrow> stop_pending s \<Longrightarrow> stop_pending s'"
  by (induction rule: system_run.induct) (auto dest: system_step_stop)

text \<open>The event loop returns after a stop request, whatever the other threads do.\<close>

lemma Run_returns:
  assumes "net_laws K N" "acts_as_system h K N others" "server_inv h N s" "stop_pending s"
  shows "\<exists>r s'. Run K others s = Some (r, s')"
proof -
  have acts: "\<exists>as. system_run h K N as t (others t)" for t using assms(2) unfolding acts_as_system_def by blast
  have "server_inv h N (others t)" if "server_inv h N t" for t
    using acts system_run_inv [OF assms(1)] that by blast
  moreover have "stop_requested (fst (others s))"
    using acts system_run_stop assms(4) unfolding stop_pending_def by blast
  ultimately show ?thesis using Run_stops [OF assms(1) _ assms(3)] by blast
qed

end
