(* ===== verification/Load_Threads.thy ===== *)
theory Load_Threads
  imports Load_Generator Sample_Run Server_Stop
begin

text \<open>
  The threads of the load generator (\<^verbatim>\<open>apps/benchmark/epoll_loopback.cpp\<close>): the main thread that starts the
  server's thread and the client threads, lets the clients go at once, joins them and prints the
  measurements; the client threads with their start barrier; and \<^verbatim>\<open>ServerThread\<close>. A step is an atomic action of one
  thread, and \<open>load_run\<close> has their interleavings. The lemmas show that no client sends before all are
  ready, that every run of the threads ends and where, which includes the main thread waiting in vain for a client, and
  what a printed report implies.

  Spinning on an atomic variable is a step that is enabled when the awaited value is there, so a run counts
  no idle rounds. The part of a client thread behind the barrier is one step, \<open>RunClient\<close>, which is enabled
  only when the client's blocking calls come back (the parameter \<open>unblocked\<close>): of the memory that the
  threads share it only writes elements of the vector of
  latencies, no two threads the same and none read before the threads are joined. \<^verbatim>\<open>server_.Run()\<close> is one step, in which the
  activity of other threads is the parameter \<open>others\<close>, as in the event loop's own model.
\<close>

section \<open>The report\<close>

text \<open>The floating-point operations of the report, on a type of numbers that is a parameter.\<close>

record 'd floating =
  fp_of_nat :: "nat \<Rightarrow> 'd"
  fp_times :: "'d \<Rightarrow> 'd \<Rightarrow> 'd"
  fp_divide :: "'d \<Rightarrow> 'd \<Rightarrow> 'd"
  fp_fixed :: "'d \<Rightarrow> string"

definition microseconds :: "'d floating \<Rightarrow> 'd \<Rightarrow> 'd" where
  "microseconds fp seconds = fp_times fp seconds (fp_of_nat fp 1000000)"

definition report_line :: "string \<Rightarrow> string \<Rightarrow> string" where
  "report_line name v = name @ ''='' @ v @ newline"

definition report_text ::
  "'d floating \<Rightarrow> BenchmarkConfig \<Rightarrow> ClientRequestTemplate \<Rightarrow> 'd \<Rightarrow> ('d :: linorder) list \<Rightarrow> string" where
  "report_text fp cfg frame_size_template elapsed_seconds latencies_seconds =
     (let total_requests = bc_clients cfg * bc_requests_per_client cfg;
          round_trip_frame_bytes =
            fp_times fp (fp_of_nat fp total_requests)
              (fp_of_nat fp (kHeaderSize + length (request_payload frame_size_template) +
                 kHeaderSize + length (expected_response_payload frame_size_template)));
          sorted_seconds = sort latencies_seconds;
          percentile = PercentileMicros (fp_of_nat fp 0) (microseconds fp) sorted_seconds
      in report_line ''clients'' (decimal_text (bc_clients cfg)) @
         report_line ''workers'' (decimal_text (bc_workers cfg)) @
         report_line ''message_type'' (benchmark_MessageTypeName (bc_message_type cfg)) @
         (if bc_message_type cfg = kBenchmarkWork
          then report_line ''work_iterations'' (decimal_text (unat (bc_work_iterations cfg))) else []) @
         report_line ''requests_per_client'' (decimal_text (bc_requests_per_client cfg)) @
         report_line ''payload_bytes'' (decimal_text (bc_payload_size cfg)) @
         report_line ''total_requests'' (decimal_text total_requests) @
         report_line ''elapsed_seconds'' (fp_fixed fp elapsed_seconds) @
         report_line ''requests_per_second'' (fp_fixed fp (fp_divide fp (fp_of_nat fp total_requests) elapsed_seconds)) @
         report_line ''round_trip_frame_mib_per_second''
           (fp_fixed fp (fp_divide fp (fp_divide fp round_trip_frame_bytes
              (fp_times fp (fp_of_nat fp 1024) (fp_of_nat fp 1024))) elapsed_seconds)) @
         report_line ''latency_p50_us'' (fp_fixed fp (percentile 50)) @
         report_line ''latency_p95_us'' (fp_fixed fp (percentile 95)) @
         report_line ''latency_p99_us'' (fp_fixed fp (percentile 99)) @
         report_line ''latency_max_us'' (fp_fixed fp (microseconds fp (last sorted_seconds))))"

definition benchmark_report ::
  "'d floating \<Rightarrow> BenchmarkConfig \<Rightarrow> 'd \<Rightarrow> ('d :: linorder) list \<Rightarrow> exn + string" where
  "benchmark_report fp cfg elapsed_seconds latencies_seconds =
     (case BuildClientRequestTemplate 0 cfg of
        Inl e \<Rightarrow> Inl e
      | Inr t \<Rightarrow> Inr (report_text fp cfg t elapsed_seconds latencies_seconds))"

section \<open>Threads\<close>

text \<open>
  Where a client thread is: about to count itself, waiting for the start flag, behind the barrier, in its
  exception handler, or ended, with what it threw and the state of the system it left.
\<close>

datatype 'w client_point =
    Launched
  | Waiting
  | Released
  | Caught exn 'w
  | Finished "exn + unit" 'w

datatype server_point = NoThread | Running | RunThrew exn | RunEnded "exn + unit"

text \<open>\<^verbatim>\<open>Stop\<close> and \<^verbatim>\<open>join\<close>, with which both \<open>StopAndJoin\<close> and the destructor of \<open>ServerThread\<close> begin.\<close>

datatype stop_point = CallStop | AwaitThread | ThreadJoined

text \<open>
  Where the main thread is: in the constructor of \<open>ServerThread\<close> (starting the thread, then constructing
  \<^verbatim>\<open>error_\<close>), creating clients, waiting for them to be ready, about to set the start flag, joining them, in
  \<open>StopAndJoin\<close>, printing, in the destructor of \<open>ServerThread\<close> with the outcome so far, out of
  the scope of the threads, or stopped by \<^verbatim>\<open>std::terminate\<close>. \<open>'t\<close> is the type of clock readings.
\<close>

datatype 't main_point =
    StartThread
  | ConstructError
  | Spawning
  | AwaitReady
  | Releasing 't
  | Joining 't nat
  | Stopping stop_point 't 't
  | Reporting 't 't
  | Leaving stop_point "exn + string"
  | Left "exn + string"
  | Terminated

text \<open>\<open>thread_error\<close> is the member \<^verbatim>\<open>error_\<close>; it is \<open>None\<close> before it is constructed.\<close>

record ('t, 'd, 'w) load_state =
  main_at :: "'t main_point"
  clients :: "'w client_point list"
  ready_clients :: nat
  start :: bool
  first_error :: "exn option"
  latencies_seconds :: "'d list"
  server_thread :: server_point
  joinable :: bool
  thread_error :: "exn option option"
  server_state :: "EpollEchoServer \<times> 'w"

definition RecordFirstException :: "exn \<Rightarrow> ('t, 'd, 'w) load_state \<Rightarrow> ('t, 'd, 'w) load_state" where
  "RecordFirstException current_exception S =
     (if first_error S = None then S\<lparr>first_error := Some current_exception\<rparr> else S)"

text \<open>
  Whether the calls of a client come back: \<open>unblocked i p s w\<close> says that, with the server's thread at \<open>p\<close>
  and the server in state \<open>s\<close>, those of client \<open>i\<close> all do, and that \<open>w\<close> is the state of the system
  that they meet. A client for which there is no such \<open>w\<close> is blocked, in \<^verbatim>\<open>recv\<close> for instance.
\<close>

type_synonym 'w answering = "nat \<Rightarrow> server_point \<Rightarrow> EpollEchoServer \<times> 'w \<Rightarrow> 'w \<Rightarrow> bool"

text \<open>A client thread: the barrier of \<open>RunClient\<close>, the rest of it, and the handler around it.\<close>

inductive client_step ::
  "'w sys \<Rightarrow> ('w \<Rightarrow> 't \<times> 'w) \<Rightarrow> ('t \<Rightarrow> 't \<Rightarrow> 'd) \<Rightarrow> 'w answering \<Rightarrow> BenchmarkConfig \<Rightarrow> nat \<Rightarrow>
   ('t, 'd, 'w) load_state \<Rightarrow> ('t, 'd, 'w) load_state \<Rightarrow> bool"
  for K now elapsed unblocked cfg i where
  ready: "clients S ! i = Launched \<Longrightarrow>
    client_step K now elapsed unblocked cfg i S (S\<lparr>clients := (clients S)[i := Waiting], ready_clients := ready_clients S + 1\<rparr>)"
| started: "clients S ! i = Waiting \<Longrightarrow> start S \<Longrightarrow>
    client_step K now elapsed unblocked cfg i S (S\<lparr>clients := (clients S)[i := Released]\<rparr>)"
| returns: "clients S ! i = Released \<Longrightarrow>
    unblocked i (server_thread S) (server_state S) w \<Longrightarrow>
    RunClient K now elapsed (server_port (fst (server_state S))) i cfg (latencies_seconds S, w) = Some (Inr (), (ds', w')) \<Longrightarrow>
    client_step K now elapsed unblocked cfg i S (S\<lparr>clients := (clients S)[i := Finished (Inr ()) w'], latencies_seconds := ds'\<rparr>)"
| throws: "clients S ! i = Released \<Longrightarrow>
    unblocked i (server_thread S) (server_state S) w \<Longrightarrow>
    RunClient K now elapsed (server_port (fst (server_state S))) i cfg (latencies_seconds S, w) = Some (Inl e, (ds', w')) \<Longrightarrow>
    client_step K now elapsed unblocked cfg i S (S\<lparr>clients := (clients S)[i := Caught e w'], latencies_seconds := ds'\<rparr>)"
| records: "clients S ! i = Caught e w' \<Longrightarrow>
    client_step K now elapsed unblocked cfg i S ((RecordFirstException e S)\<lparr>clients := (clients S)[i := Finished (Inl e) w']\<rparr>)"

text \<open>The thread of \<open>ServerThread\<close>.\<close>

inductive server_thread_step ::
  "'w sys \<Rightarrow> (EpollEchoServer \<times> 'w \<Rightarrow> EpollEchoServer \<times> 'w) \<Rightarrow>
   ('t, 'd, 'w) load_state \<Rightarrow> ('t, 'd, 'w) load_state \<Rightarrow> bool"
  for K others where
  returns: "server_thread S = Running \<Longrightarrow> Run K others (server_state S) = Some (Inr (), s') \<Longrightarrow>
    server_thread_step K others S (S\<lparr>server_thread := RunEnded (Inr ()), server_state := s'\<rparr>)"
| throws: "server_thread S = Running \<Longrightarrow> Run K others (server_state S) = Some (Inl e, s') \<Longrightarrow>
    server_thread_step K others S (S\<lparr>server_thread := RunThrew e, server_state := s'\<rparr>)"
| stores: "server_thread S = RunThrew e \<Longrightarrow>
    server_thread_step K others S (S\<lparr>server_thread := RunEnded (Inl e), thread_error := Some (Some e)\<rparr>)"

inductive stop_and_join_step ::
  "'w sys \<Rightarrow> stop_point \<Rightarrow> ('t, 'd, 'w) load_state \<Rightarrow> stop_point \<Rightarrow> ('t, 'd, 'w) load_state \<Rightarrow> bool"
  for K where
  stop: "Stop K (server_state S) = Some (Inr (), s') \<Longrightarrow>
    stop_and_join_step K CallStop S AwaitThread (S\<lparr>server_state := s'\<rparr>)"
| join: "joinable S \<Longrightarrow> server_thread S = RunEnded r \<Longrightarrow>
    stop_and_join_step K AwaitThread S ThreadJoined (S\<lparr>joinable := False\<rparr>)"
| no_join: "\<not> joinable S \<Longrightarrow> stop_and_join_step K AwaitThread S ThreadJoined S"

text \<open>What \<open>StopAndJoin\<close> throws after the join.\<close>

definition StopAndJoin_error :: "('t, 'd, 'w) load_state \<Rightarrow> exn option" where
  "StopAndJoin_error S = (case thread_error S of None \<Rightarrow> None | Some error \<Rightarrow> error)"

text \<open>
  The main thread from the constructor of \<open>ServerThread\<close> to the end of its scope. \<open>create\<close> says which
  threads cannot be created: number 0 is the server's, number \<open>i + 1\<close> the client \<open>i\<close>. When a client
  thread cannot be created, the vector of threads is destroyed while the earlier ones are
  joinable, which calls \<^verbatim>\<open>std::terminate\<close>.
\<close>

inductive main_step ::
  "'w sys \<Rightarrow> ('w \<Rightarrow> 't \<times> 'w) \<Rightarrow> ('t \<Rightarrow> 't \<Rightarrow> 'd) \<Rightarrow> 'd floating \<Rightarrow> (nat \<Rightarrow> exn option) \<Rightarrow> BenchmarkConfig \<Rightarrow>
   ('t, 'd :: linorder, 'w) load_state \<Rightarrow> ('t, 'd, 'w) load_state \<Rightarrow> bool"
  for K now elapsed fp create cfg where
  thread_starts: "main_at S = StartThread \<Longrightarrow> create 0 = None \<Longrightarrow>
    main_step K now elapsed fp create cfg S (S\<lparr>server_thread := Running, joinable := True, main_at := ConstructError\<rparr>)"
| thread_fails: "main_at S = StartThread \<Longrightarrow> create 0 = Some e \<Longrightarrow>
    main_step K now elapsed fp create cfg S (S\<lparr>main_at := Left (Inl e)\<rparr>)"
| constructs_error: "main_at S = ConstructError \<Longrightarrow>
    main_step K now elapsed fp create cfg S (S\<lparr>thread_error := Some None, main_at := Spawning\<rparr>)"
| spawns: "main_at S = Spawning \<Longrightarrow> length (clients S) < bc_clients cfg \<Longrightarrow> create (Suc (length (clients S))) = None \<Longrightarrow>
    main_step K now elapsed fp create cfg S (S\<lparr>clients := clients S @ [Launched]\<rparr>)"
| spawn_fails: "main_at S = Spawning \<Longrightarrow> length (clients S) < bc_clients cfg \<Longrightarrow> create (Suc (length (clients S))) = Some e \<Longrightarrow>
    main_step K now elapsed fp create cfg S
      (S\<lparr>main_at := if clients S = [] then Leaving CallStop (Inl e) else Terminated\<rparr>)"
| spawned: "main_at S = Spawning \<Longrightarrow> \<not> length (clients S) < bc_clients cfg \<Longrightarrow>
    main_step K now elapsed fp create cfg S (S\<lparr>main_at := AwaitReady\<rparr>)"
| all_ready: "main_at S = AwaitReady \<Longrightarrow> \<not> ready_clients S < bc_clients cfg \<Longrightarrow> server_state S = (sv, w) \<Longrightarrow> now w = (t, w') \<Longrightarrow>
    main_step K now elapsed fp create cfg S (S\<lparr>main_at := Releasing t, server_state := (sv, w')\<rparr>)"
| releases: "main_at S = Releasing t \<Longrightarrow>
    main_step K now elapsed fp create cfg S (S\<lparr>start := True, main_at := Joining t 0\<rparr>)"
| joins: "main_at S = Joining t i \<Longrightarrow> i < length (clients S) \<Longrightarrow> clients S ! i = Finished r w \<Longrightarrow>
    main_step K now elapsed fp create cfg S (S\<lparr>main_at := Joining t (Suc i)\<rparr>)"
| joined: "main_at S = Joining t i \<Longrightarrow> \<not> i < length (clients S) \<Longrightarrow> server_state S = (sv, w) \<Longrightarrow> now w = (t', w') \<Longrightarrow>
    main_step K now elapsed fp create cfg S (S\<lparr>main_at := Stopping CallStop t t', server_state := (sv, w')\<rparr>)"
| stops: "main_at S = Stopping p t t' \<Longrightarrow> stop_and_join_step K p S p' S' \<Longrightarrow>
    main_step K now elapsed fp create cfg S (S'\<lparr>main_at := Stopping p' t t'\<rparr>)"
| stopped: "main_at S = Stopping ThreadJoined t t' \<Longrightarrow>
    main_step K now elapsed fp create cfg S (S\<lparr>main_at :=
      (case StopAndJoin_error S of
         Some e \<Rightarrow> Leaving CallStop (Inl e)
       | None \<Rightarrow>
           (case first_error S of
              Some e \<Rightarrow> Leaving CallStop (Inl e)
            | None \<Rightarrow> Reporting t t'))\<rparr>)"
| reports: "main_at S = Reporting t t' \<Longrightarrow>
    main_step K now elapsed fp create cfg S
      (S\<lparr>main_at := Leaving CallStop (benchmark_report fp cfg (elapsed t' t) (latencies_seconds S))\<rparr>)"
| leaves: "main_at S = Leaving p r \<Longrightarrow> stop_and_join_step K p S p' S' \<Longrightarrow>
    main_step K now elapsed fp create cfg S (S'\<lparr>main_at := Leaving p' r\<rparr>)"
| left: "main_at S = Leaving ThreadJoined r \<Longrightarrow>
    main_step K now elapsed fp create cfg S (S\<lparr>main_at := Left r\<rparr>)"

text \<open>The threads together. No thread acts after \<^verbatim>\<open>std::terminate\<close>.\<close>

inductive load_step ::
  "'w sys \<Rightarrow> ('w \<Rightarrow> 't \<times> 'w) \<Rightarrow> ('t \<Rightarrow> 't \<Rightarrow> 'd) \<Rightarrow> 'd floating \<Rightarrow> (nat \<Rightarrow> exn option) \<Rightarrow>
   (EpollEchoServer \<times> 'w \<Rightarrow> EpollEchoServer \<times> 'w) \<Rightarrow> 'w answering \<Rightarrow> BenchmarkConfig \<Rightarrow>
   ('t, 'd :: linorder, 'w) load_state \<Rightarrow> ('t, 'd, 'w) load_state \<Rightarrow> bool"
  for K now elapsed fp create others unblocked cfg where
  main: "main_step K now elapsed fp create cfg S S' \<Longrightarrow> load_step K now elapsed fp create others unblocked cfg S S'"
| server: "main_at S \<noteq> Terminated \<Longrightarrow> server_thread_step K others S S' \<Longrightarrow>
    load_step K now elapsed fp create others unblocked cfg S S'"
| client: "main_at S \<noteq> Terminated \<Longrightarrow> i < length (clients S) \<Longrightarrow> client_step K now elapsed unblocked cfg i S S' \<Longrightarrow>
    load_step K now elapsed fp create others unblocked cfg S S'"

text \<open>Runs of a given length, and the state in which the scope of the threads is entered.\<close>

inductive load_run ::
  "'w sys \<Rightarrow> ('w \<Rightarrow> 't \<times> 'w) \<Rightarrow> ('t \<Rightarrow> 't \<Rightarrow> 'd) \<Rightarrow> 'd floating \<Rightarrow> (nat \<Rightarrow> exn option) \<Rightarrow>
   (EpollEchoServer \<times> 'w \<Rightarrow> EpollEchoServer \<times> 'w) \<Rightarrow> 'w answering \<Rightarrow> BenchmarkConfig \<Rightarrow>
   ('t, 'd :: linorder, 'w) load_state \<Rightarrow> nat \<Rightarrow> ('t, 'd, 'w) load_state \<Rightarrow> bool"
  for K now elapsed fp create others unblocked cfg S where
  finish: "load_run K now elapsed fp create others unblocked cfg S 0 S"
| more: "load_run K now elapsed fp create others unblocked cfg S n S' \<Longrightarrow> load_step K now elapsed fp create others unblocked cfg S' S'' \<Longrightarrow>
    load_run K now elapsed fp create others unblocked cfg S (Suc n) S''"

definition threads_scope :: "'d floating \<Rightarrow> BenchmarkConfig \<Rightarrow> EpollEchoServer \<Rightarrow> 'w \<Rightarrow> ('t, 'd, 'w) load_state" where
  "threads_scope fp cfg sv w =
     \<lparr>main_at = StartThread, clients = [], ready_clients = 0, start = False, first_error = None,
      latencies_seconds = replicate (bc_clients cfg * bc_requests_per_client cfg) (fp_of_nat fp 0),
      server_thread = NoThread, joinable = False, thread_error = None, server_state = (sv, w)\<rparr>"

section \<open>The program\<close>

definition benchmark_usage :: string where
  "benchmark_usage =
     ''usage: pulsecore_epoll_benchmark '' @
     ''[--clients N] [--requests-per-client N] [--payload-size N] [--workers N] '' @
     ''[--message-type echo|work] [--work-iterations N]'' @ newline"

definition benchmark_PrintUsage :: "(console \<times> 's, unit) io" where
  "benchmark_PrintUsage = print_err benchmark_usage"

text \<open>The capacity is computed modulo \<open>2 ^ 64\<close>.\<close>

definition benchmark_server_options :: "BenchmarkConfig \<Rightarrow> EpollEchoServerOptions" where
  "benchmark_server_options cfg =
     default_EpollEchoServerOptions\<lparr>opt_worker_count := bc_workers cfg,
       opt_work_queue_capacity := max 1024 ((bc_clients cfg * 8) mod 2 ^ 64)\<rparr>"

definition benchmark_failure :: "(errno \<Rightarrow> string) \<Rightarrow> exn \<Rightarrow> console \<Rightarrow> console" where
  "benchmark_failure strerror error c =
     c\<lparr>con_err := con_err c @ benchmark_usage @ ''pulsecore_epoll_benchmark: '' @ what strerror error @ newline\<rparr>"

text \<open>
  The exits of \<^verbatim>\<open>main\<close>: with the usage text, with bad arguments, with a server that cannot be constructed,
  and after the threads, when the server has been destroyed.
\<close>

inductive benchmark_main ::
  "'w sys \<Rightarrow> (errno \<Rightarrow> string) \<Rightarrow> (nat \<Rightarrow> exn option) \<Rightarrow> ('w \<Rightarrow> 't \<times> 'w) \<Rightarrow> ('t \<Rightarrow> 't \<Rightarrow> 'd :: linorder) \<Rightarrow> 'd floating \<Rightarrow>
   (nat \<Rightarrow> exn option) \<Rightarrow> (EpollEchoServer \<times> 'w \<Rightarrow> EpollEchoServer \<times> 'w) \<Rightarrow> 'w answering \<Rightarrow>
   (EpollEchoServer \<times> 'w \<Rightarrow> EpollEchoServer \<times> 'w) \<Rightarrow> u32 \<Rightarrow> string list \<Rightarrow>
   console \<times> 'w \<Rightarrow> int \<Rightarrow> console \<times> 'w \<Rightarrow> bool"
  for K strerror spawn now elapsed fp create others unblocked join hardware_concurrency argv where
  usage: "length argv = 2 \<Longrightarrow> argv ! 1 = ''--help'' \<Longrightarrow>
    benchmark_main K strerror spawn now elapsed fp create others unblocked join hardware_concurrency argv
      (c, w) 0 (c\<lparr>con_err := con_err c @ benchmark_usage\<rparr>, w)"
| bad_arguments: "\<not> (length argv = 2 \<and> argv ! 1 = ''--help'') \<Longrightarrow>
    benchmark_ParseArgs hardware_concurrency argv = Inl error \<Longrightarrow>
    benchmark_main K strerror spawn now elapsed fp create others unblocked join hardware_concurrency argv
      (c, w) 1 (benchmark_failure strerror error c, w)"
| no_server: "\<not> (length argv = 2 \<and> argv ! 1 = ''--help'') \<Longrightarrow>
    benchmark_ParseArgs hardware_concurrency argv = Inr cfg \<Longrightarrow>
    new_EpollEchoServer K spawn 0 (benchmark_server_options cfg) w = Some (Inl error, w') \<Longrightarrow>
    benchmark_main K strerror spawn now elapsed fp create others unblocked join hardware_concurrency argv
      (c, w) 1 (benchmark_failure strerror error c, w')"
| failed: "\<not> (length argv = 2 \<and> argv ! 1 = ''--help'') \<Longrightarrow>
    benchmark_ParseArgs hardware_concurrency argv = Inr cfg \<Longrightarrow>
    new_EpollEchoServer K spawn 0 (benchmark_server_options cfg) w = Some (Inr sv, w1) \<Longrightarrow>
    load_run K now elapsed fp create others unblocked cfg (threads_scope fp cfg sv w1) n S \<Longrightarrow> main_at S = Left (Inl error) \<Longrightarrow>
    delete_EpollEchoServer K join (server_state S) = Some (Inr (), (sv', w')) \<Longrightarrow>
    benchmark_main K strerror spawn now elapsed fp create others unblocked join hardware_concurrency argv
      (c, w) 1 (benchmark_failure strerror error c, w')"
| reported: "\<not> (length argv = 2 \<and> argv ! 1 = ''--help'') \<Longrightarrow>
    benchmark_ParseArgs hardware_concurrency argv = Inr cfg \<Longrightarrow>
    new_EpollEchoServer K spawn 0 (benchmark_server_options cfg) w = Some (Inr sv, w1) \<Longrightarrow>
    load_run K now elapsed fp create others unblocked cfg (threads_scope fp cfg sv w1) n S \<Longrightarrow> main_at S = Left (Inr text) \<Longrightarrow>
    delete_EpollEchoServer K join (server_state S) = Some (Inr (), (sv', w')) \<Longrightarrow>
    benchmark_main K strerror spawn now elapsed fp create others unblocked join hardware_concurrency argv
      (c, w) 0 (c\<lparr>con_out := con_out c @ text\<rparr>, w')"

section \<open>Runs are bounded\<close>

text \<open>The steps that are left, at most: of a client thread, of the server's thread and of the main thread.\<close>

fun client_rank :: "'w client_point \<Rightarrow> nat" where
  "client_rank Launched = 4"
| "client_rank Waiting = 3"
| "client_rank Released = 2"
| "client_rank (Caught e w) = 1"
| "client_rank (Finished r w) = 0"

fun server_rank :: "server_point \<Rightarrow> nat" where
  "server_rank NoThread = 2"
| "server_rank Running = 2"
| "server_rank (RunThrew e) = 1"
| "server_rank (RunEnded r) = 0"

fun stop_rank :: "stop_point \<Rightarrow> nat" where
  "stop_rank CallStop = 2"
| "stop_rank AwaitThread = 1"
| "stop_rank ThreadJoined = 0"

fun main_rank :: "nat \<Rightarrow> nat \<Rightarrow> 't main_point \<Rightarrow> nat" where
  "main_rank n k StartThread = 13 + n + 5 * n"
| "main_rank n k ConstructError = 12 + n + 5 * n"
| "main_rank n k Spawning = 11 + n + 5 * (n - k)"
| "main_rank n k AwaitReady = 10 + n"
| "main_rank n k (Releasing t) = 9 + n"
| "main_rank n k (Joining t i) = 8 + (n - i)"
| "main_rank n k (Stopping p t t') = 5 + stop_rank p"
| "main_rank n k (Reporting t t') = 4"
| "main_rank n k (Leaving p r) = 1 + stop_rank p"
| "main_rank n k (Left r) = 0"
| "main_rank n k Terminated = 0"

definition steps_left :: "BenchmarkConfig \<Rightarrow> ('t, 'd, 'w) load_state \<Rightarrow> nat" where
  "steps_left cfg S = main_rank (bc_clients cfg) (length (clients S)) (main_at S) + server_rank (server_thread S) +
     sum_list (map client_rank (clients S))"

lemma client_moves:
  fixes f :: "'w client_point \<Rightarrow> nat"
  assumes "i < length cs"
  shows "sum_list (map f (cs[i := c])) + f (cs ! i) = sum_list (map f cs) + f c"
proof -
  have "f (cs ! i) \<le> sum_list (map f cs)"
    using assms by (simp add: member_le_sum_list)
  then show ?thesis
    using assms by (simp add: map_update sum_list_update)
qed

lemma stop_and_join_less:
  "stop_and_join_step K p S p' S' \<Longrightarrow>
     stop_rank p' < stop_rank p \<and> clients S' = clients S \<and> server_thread S' = server_thread S \<and> main_at S' = main_at S"
  by (cases rule: stop_and_join_step.cases) auto

text \<open>What the number of steps needs: never more clients than configured, and joins within their number.\<close>

definition counted :: "BenchmarkConfig \<Rightarrow> ('t, 'd, 'w) load_state \<Rightarrow> bool" where
  "counted cfg S \<longleftrightarrow> length (clients S) \<le> bc_clients cfg \<and> (main_at S = StartThread \<longrightarrow> server_thread S = NoThread)"

lemma main_step_less:
  assumes "main_step K now elapsed fp create cfg S S'" "counted cfg S"
  shows "steps_left cfg S' < steps_left cfg S \<and> counted cfg S'"
  using assms
  by (cases rule: main_step.cases)
    (auto simp: steps_left_def counted_def dest: stop_and_join_less split: option.splits)

lemma RecordFirstException_keeps [simp]:
  "clients (RecordFirstException e S) = clients S" "main_at (RecordFirstException e S) = main_at S"
  "server_thread (RecordFirstException e S) = server_thread S" "start (RecordFirstException e S) = start S"
  "ready_clients (RecordFirstException e S) = ready_clients S" "joinable (RecordFirstException e S) = joinable S"
  "latencies_seconds (RecordFirstException e S) = latencies_seconds S"
  "thread_error (RecordFirstException e S) = thread_error S" "server_state (RecordFirstException e S) = server_state S"
  by (simp_all add: RecordFirstException_def)

text \<open>Whether a client has counted itself.\<close>

definition waits_at_barrier :: "'w client_point \<Rightarrow> nat" where
  "waits_at_barrier c = (if c = Launched then 0 else 1)"

lemma waits_at_barrier_simps [simp]: "waits_at_barrier Launched = 0" "c \<noteq> Launched \<Longrightarrow> waits_at_barrier c = 1"
  by (simp_all add: waits_at_barrier_def)

text \<open>A client step moves one client forward to \<open>c\<close> and leaves the other threads where they are.\<close>

definition client_moved :: "nat \<Rightarrow> ('t, 'd, 'w) load_state \<Rightarrow> 'w client_point \<Rightarrow> ('t, 'd, 'w) load_state \<Rightarrow> bool" where
  "client_moved i S c S' \<longleftrightarrow> clients S' = (clients S)[i := c] \<and> client_rank c < client_rank (clients S ! i) \<and>
     main_at S' = main_at S \<and> server_thread S' = server_thread S \<and> joinable S' = joinable S \<and> start S' = start S \<and>
     thread_error S' = thread_error S \<and> server_state S' = server_state S \<and>
     ready_clients S' + waits_at_barrier (clients S ! i) = ready_clients S + waits_at_barrier c \<and>
     (client_rank c < 3 \<longrightarrow> start S \<or> client_rank (clients S ! i) < 3)"

lemma client_step_moves:
  assumes "client_step K now elapsed unblocked cfg i S S'"
  obtains c where "client_moved i S c S'"
  using assms
proof (cases rule: client_step.cases)
  case ready
  then show ?thesis by (intro that [of Waiting]) (simp add: client_moved_def)
next
  case started
  then show ?thesis by (intro that [of Released]) (simp add: client_moved_def)
next
  case (returns w ds' w')
  then show ?thesis by (intro that [of "Finished (Inr ()) w'"]) (simp add: client_moved_def)
next
  case (throws w e ds' w')
  then show ?thesis by (intro that [of "Caught e w'"]) (simp add: client_moved_def)
next
  case (records e w')
  then show ?thesis by (intro that [of "Finished (Inl e) w'"]) (simp add: client_moved_def)
qed

lemma load_step_less:
  assumes "load_step K now elapsed fp create others unblocked cfg S S'" "counted cfg S"
  shows "steps_left cfg S' < steps_left cfg S \<and> counted cfg S'"
  using assms
proof (cases rule: load_step.cases)
  case main
  then show ?thesis using main_step_less assms(2) by blast
next
  case server
  from server(2) show ?thesis
    using assms(2) by (cases rule: server_thread_step.cases) (auto simp: steps_left_def counted_def)
next
  case (client i)
  from client(3) obtain c where "client_moved i S c S'" by (rule client_step_moves)
  then show ?thesis
    using assms(2) client_moves [OF client(2), of client_rank c] by (simp add: steps_left_def counted_def client_moved_def)
qed

lemma load_run_bounded:
  assumes "load_run K now elapsed fp create others unblocked cfg S k S'" "counted cfg S"
  shows "k + steps_left cfg S' \<le> steps_left cfg S \<and> counted cfg S'"
  using assms
proof (induction rule: load_run.induct)
  case (more k S' S'')
  then show ?case using load_step_less [OF more(2)] by fastforce
qed simp

lemma threads_scope_counted:
  "counted cfg (threads_scope fp cfg sv w)" "steps_left cfg (threads_scope fp cfg sv w) = 6 * bc_clients cfg + 15"
  by (simp_all add: counted_def threads_scope_def steps_left_def)

section \<open>Phases\<close>

definition ended :: "'w client_point list \<Rightarrow> bool" where
  "ended cs \<longleftrightarrow> (\<forall>c \<in> set cs. client_rank c = 0)"

text \<open>The counter and the start flag, in relation to where the clients are.\<close>

definition barrier_inv :: "BenchmarkConfig \<Rightarrow> ('t, 'd, 'w) load_state \<Rightarrow> bool" where
  "barrier_inv cfg S \<longleftrightarrow>
     ready_clients S = sum_list (map waits_at_barrier (clients S)) \<and>
     length (clients S) \<le> bc_clients cfg \<and>
     (start S \<longrightarrow> length (clients S) = bc_clients cfg \<and> Launched \<notin> set (clients S)) \<and>
     (\<forall>c \<in> set (clients S). client_rank c < 3 \<longrightarrow> start S)"

definition phase_inv :: "BenchmarkConfig \<Rightarrow> ('t, 'd, 'w) load_state \<Rightarrow> bool" where
  "phase_inv cfg S \<longleftrightarrow>
     (case main_at S of
        StartThread \<Rightarrow> clients S = [] \<and> \<not> start S
      | ConstructError \<Rightarrow> clients S = [] \<and> \<not> start S
      | Spawning \<Rightarrow> \<not> start S
      | AwaitReady \<Rightarrow> length (clients S) = bc_clients cfg \<and> \<not> start S
      | Releasing t \<Rightarrow> length (clients S) = bc_clients cfg \<and> Launched \<notin> set (clients S)
      | Joining t i \<Rightarrow> start S \<and> i \<le> length (clients S) \<and> (\<forall>k < i. client_rank (clients S ! k) = 0)
      | Stopping p t t' \<Rightarrow> start S \<and> ended (clients S)
      | Reporting t t' \<Rightarrow> start S \<and> ended (clients S)
      | Leaving p r \<Rightarrow> ended (clients S)
      | Left r \<Rightarrow> ended (clients S)
      | Terminated \<Rightarrow> True)"

text \<open>The server's thread: it is not waited for twice, and when it is waited for, its loop has been told to stop.\<close>

definition thread_inv :: "('t, 'd, 'w) load_state \<Rightarrow> bool" where
  "thread_inv S \<longleftrightarrow>
     (case server_thread S of
        NoThread \<Rightarrow> \<not> joinable S \<and> (main_at S = StartThread \<or> (\<exists>r. main_at S = Left r))
      | Running \<Rightarrow> joinable S
      | RunThrew e \<Rightarrow> joinable S
      | RunEnded r \<Rightarrow> True) \<and>
     (case main_at S of
        StartThread \<Rightarrow> server_thread S = NoThread
      | Stopping p t t' \<Rightarrow> (p = AwaitThread \<longrightarrow> server_thread S = Running \<longrightarrow> stop_requested (fst (server_state S))) \<and>
          (p = ThreadJoined \<longrightarrow> \<not> joinable S)
      | Reporting t t' \<Rightarrow> \<not> joinable S
      | Leaving p r \<Rightarrow> (p = AwaitThread \<longrightarrow> server_thread S = Running \<longrightarrow> stop_requested (fst (server_state S))) \<and>
          (p = ThreadJoined \<longrightarrow> \<not> joinable S)
      | Left r \<Rightarrow> \<not> joinable S
      | _ \<Rightarrow> True)"

lemma all_waiting:
  "length cs \<le> sum_list (map waits_at_barrier cs) \<longleftrightarrow> Launched \<notin> set cs"
proof (induction cs)
  case (Cons c cs)
  have "sum_list (map waits_at_barrier cs) \<le> length cs"
    by (induction cs) (auto simp: waits_at_barrier_def)
  with Cons show ?case by (cases "c = Launched") simp_all
qed simp

lemma stop_and_join_keeps:
  "stop_and_join_step K p S p' S' \<Longrightarrow>
     clients S' = clients S \<and> ready_clients S' = ready_clients S \<and> start S' = start S \<and>
     first_error S' = first_error S \<and> latencies_seconds S' = latencies_seconds S \<and> thread_error S' = thread_error S \<and>
     server_thread S' = server_thread S"
  by (cases rule: stop_and_join_step.cases) auto

lemma main_step_barrier:
  assumes "main_step K now elapsed fp create cfg S S'" "barrier_inv cfg S" "phase_inv cfg S"
  shows "barrier_inv cfg S'" "phase_inv cfg S'"
proof -
  from assms show "barrier_inv cfg S'"
    by (cases rule: main_step.cases)
      (auto simp: barrier_inv_def phase_inv_def waits_at_barrier_def dest: stop_and_join_keeps split: option.splits)
  have "Launched \<notin> set (clients S)" if "main_at S = AwaitReady" "\<not> ready_clients S < bc_clients cfg"
    using that assms(2,3) all_waiting [of "clients S"] by (simp add: barrier_inv_def phase_inv_def)
  moreover have "length (clients S) \<le> bc_clients cfg" using assms(2) by (simp add: barrier_inv_def)
  moreover note assms(3)
  ultimately show "phase_inv cfg S'"
    by (cases rule: main_step.cases [OF assms(1)])
      (auto simp: phase_inv_def ended_def less_Suc_eq in_set_conv_nth dest!: stop_and_join_keeps split: option.splits)
qed

lemma client_step_barrier:
  assumes step: "client_step K now elapsed unblocked cfg i S S'" and i: "i < length (clients S)"
    and inv: "barrier_inv cfg S" "phase_inv cfg S"
  shows "barrier_inv cfg S'" "phase_inv cfg S'"
proof -
  from step obtain c where c: "client_moved i S c S'" by (rule client_step_moves)
  have old: "clients S ! i \<in> set (clients S)" using i by simp
  have new: "x = c \<or> x \<in> set (clients S)" if "x \<in> set ((clients S)[i := c])" for x
    using that set_update_subset_insert [of "clients S" i c] by auto
  have counted: "c \<noteq> Launched" using c by (cases "clients S ! i") (auto simp: client_moved_def)
  with c old show "barrier_inv cfg S'"
    using inv(1) client_moves [OF i, of waits_at_barrier c] by (auto simp: barrier_inv_def client_moved_def dest!: new)
  from c counted inv(2) i show "phase_inv cfg S'"
    by (auto simp: phase_inv_def client_moved_def ended_def nth_list_update split: main_point.splits dest!: new)
qed

section \<open>The server under test\<close>

abbreviation default_handler :: WorkHandler where
  "default_handler \<equiv> \<lambda>m. Inr (HandleOwnedRequest m)"

text \<open>
  Until its loop ends, the server is in a reachable state; afterwards its descriptors stay
  accounted for.
\<close>

definition server_side ::
  "'w sys \<Rightarrow> 'w net \<Rightarrow> EpollEchoServerOptions \<Rightarrow> 'w \<Rightarrow> int set \<Rightarrow> server_config \<Rightarrow> ('t, 'd, 'w) load_state \<Rightarrow> bool" where
  "server_side K N options w0 base scfg S \<longleftrightarrow>
     (server_thread S = NoThread \<or> server_thread S = Running \<longrightarrow> reachable K N default_handler options w0 (server_state S)) \<and>
     framed N base scfg (server_state S)"

lemma Stop_stops:
  assumes "net_laws K N"
  obtains s' where "Stop K s = Some (Inr (), s')" "stop_requested (fst s')"
proof -
  obtain sv w where s: "s = (sv, w)" by (cases s)
  have "wp (NotifyWorkerWakeup K) (\<lambda>_ (sv', w'). sv' = sv\<lparr>stop_requested := True\<rparr> \<and> True) (\<lambda>_ _. False)
      (sv\<lparr>stop_requested := True\<rparr>, w)"
    by (rule NotifyWorkerWakeup_keeps [OF net_lawsD(7) [OF assms]]) simp_all
  then have "wp (Stop K) (\<lambda>_ s'. stop_requested (fst s')) (\<lambda>_ _. False) s"
    by (auto simp: Stop_def wp_eqs s elim!: wp_mono)
  then show thesis by (elim wp_no_throw) (use that in auto)
qed

lemma server_side_system:
  assumes "net_laws K N" "server_side K N options w0 base scfg S" "system_step default_handler K N a (server_state S) s'"
  shows "server_side K N options w0 base scfg (S\<lparr>server_state := s'\<rparr>)"
  using assms system_step_framed [OF assms(1,3)] reachable_run [OF _ system_run_single [OF assms(3)]]
  by (auto simp: server_side_def)

lemma server_side_clock:
  assumes "net_laws K N" "quiet N now" "server_side K N options w0 base scfg S" "server_state S = (sv, w)" "now w = (t, w')"
  shows "server_side K N options w0 base scfg (S\<lparr>server_state := (sv, w')\<rparr>)"
proof -
  have "same_net N w w'" using assms(2,5) unfolding quiet_def by (metis snd_conv)
  from system_step.elsewhere [OF this] show ?thesis
    using server_side_system [OF assms(1,3)] assms(4) by metis
qed

lemma server_side_stop:
  assumes "net_laws K N" "stop_and_join_step K p S p' S'" "server_side K N options w0 base scfg S"
  shows "server_side K N options w0 base scfg S'"
  using assms(2)
proof (cases rule: stop_and_join_step.cases)
  case (stop s')
  then show ?thesis using server_side_system [OF assms(1,3) system_step.stop] by blast
qed (use assms(3) in \<open>simp_all add: server_side_def\<close>)

lemma main_step_server:
  assumes laws: "net_laws K N" "quiet N now" and step: "main_step K now elapsed fp create cfg S S'"
    and inv: "server_side K N options w0 base scfg S" "thread_inv S"
  shows "server_side K N options w0 base scfg S'" "thread_inv S'"
proof -
  have stop: "(p' = AwaitThread \<longrightarrow> stop_requested (fst (server_state S1))) \<and> (p' = ThreadJoined \<longrightarrow> \<not> joinable S1) \<and>
      (joinable S1 \<or> \<not> joinable S \<or> (\<exists>r. server_thread S = RunEnded r))"
    if "stop_and_join_step K p S p' S1" for p p' S1
    using that
  proof (cases rule: stop_and_join_step.cases)
    case (stop s')
    moreover obtain s1 where "Stop K (server_state S) = Some (Inr (), s1)" "stop_requested (fst s1)"
      using Stop_stops [OF laws(1)] .
    ultimately show ?thesis by auto
  qed auto
  from step inv(1) show "server_side K N options w0 base scfg S'"
    using inv(2) server_side_clock [OF laws inv(1)]
    by (cases rule: main_step.cases)
      (auto simp: server_side_def thread_inv_def dest!: server_side_stop [OF laws(1) _ inv(1)] split: if_splits)
  from step show "thread_inv S'"
    using inv(2)
    by (cases rule: main_step.cases)
      (auto simp: thread_inv_def dest: stop stop_and_join_keeps split: server_point.splits option.splits if_splits)
qed

lemma other_step_server:
  assumes laws: "net_laws K N" "acts_as_system default_handler K N others"
    and step: "server_thread_step K others S S' \<or> client_step K now elapsed unblocked cfg i S S'"
    and inv: "server_side K N options w0 base scfg S" "thread_inv S"
  shows "server_side K N options w0 base scfg S'" "thread_inv S'"
proof -
  have frame: "framed N base scfg (others s)" if "framed N base scfg s" for s
    using laws(2) that system_run_framed [OF laws(1)] unfolding acts_as_system_def by blast
  have framed: "framed N base scfg s'" if "Run K others (server_state S) = Some (r, s')" for r s'
    using preservesD [OF Run_framed [OF laws(1) frame] that] inv(1) by (simp add: server_side_def)
  from step show "server_side K N options w0 base scfg S'"
  proof (elim disjE)
    assume "server_thread_step K others S S'"
    then show ?thesis
      using inv(1) by (cases rule: server_thread_step.cases) (simp_all add: server_side_def framed)
  next
    assume "client_step K now elapsed unblocked cfg i S S'"
    then obtain c where "client_moved i S c S'" by (rule client_step_moves)
    then show ?thesis using inv(1) by (simp add: server_side_def client_moved_def)
  qed
  from step show "thread_inv S'"
  proof (elim disjE)
    assume "server_thread_step K others S S'"
    then show ?thesis
      using inv(2) by (cases rule: server_thread_step.cases) (auto simp: thread_inv_def split: main_point.splits)
  next
    assume "client_step K now elapsed unblocked cfg i S S'"
    then obtain c where "client_moved i S c S'" by (rule client_step_moves)
    then show ?thesis using inv(2) unfolding thread_inv_def client_moved_def by (simp only:)
  qed
qed

section \<open>Outcomes\<close>

text \<open>What has passed on the connection of a client that ended normally.\<close>

definition client_session :: "'w net \<Rightarrow> BenchmarkConfig \<Rightarrow> nat \<Rightarrow> 'w \<Rightarrow> bool" where
  "client_session N cfg i w \<longleftrightarrow>
     (\<exists>t fd rest. BuildClientRequestTemplate i cfg = Inr t \<and>
        wire N fd w = concat (map (\<lambda>r. frame_of (RequestMessage r t)) (request_ids i cfg)) \<and>
        received N fd w = concat (map (\<lambda>r. frame_of (HandleRequest (RequestMessage r t))) (request_ids i cfg)) @ rest)"

definition error_inv :: "('t, 'd, 'w) load_state \<Rightarrow> bool" where
  "error_inv S \<longleftrightarrow>
     (case first_error S of
        None \<Rightarrow> \<forall>e w. Finished (Inl e) w \<notin> set (clients S)
      | Some e \<Rightarrow> \<exists>w. Finished (Inl e) w \<in> set (clients S))"

definition session_inv :: "'w net \<Rightarrow> BenchmarkConfig \<Rightarrow> ('t, 'd, 'w) load_state \<Rightarrow> bool" where
  "session_inv N cfg S \<longleftrightarrow>
     length (latencies_seconds S) = bc_clients cfg * bc_requests_per_client cfg \<and>
     (\<forall>i < length (clients S). \<forall>w. clients S ! i = Finished (Inr ()) w \<longrightarrow> client_session N cfg i w)"

definition report_inv :: "'d floating \<Rightarrow> BenchmarkConfig \<Rightarrow> ('t, 'd :: linorder, 'w) load_state \<Rightarrow> bool" where
  "report_inv fp cfg S \<longleftrightarrow>
     (case main_at S of
        Reporting t t' \<Rightarrow> first_error S = None
      | Leaving p (Inr text) \<Rightarrow> first_error S = None \<and> length (clients S) = bc_clients cfg \<and>
          (\<exists>d. benchmark_report fp cfg d (latencies_seconds S) = Inr text)
      | Left (Inr text) \<Rightarrow> first_error S = None \<and> length (clients S) = bc_clients cfg \<and>
          (\<exists>d. benchmark_report fp cfg d (latencies_seconds S) = Inr text)
      | _ \<Rightarrow> True)"

lemma main_step_outcome:
  assumes "main_step K now elapsed fp create cfg S S'" "barrier_inv cfg S" "phase_inv cfg S"
    and "error_inv S" "session_inv N cfg S" "report_inv fp cfg S"
  shows "error_inv S'" "session_inv N cfg S'" "report_inv fp cfg S'"
proof -
  from assms(1,4) show "error_inv S'"
    by (cases rule: main_step.cases)
      (auto simp: error_inv_def dest!: stop_and_join_keeps split: option.splits)
  from assms(1,5) show "session_inv N cfg S'"
    by (cases rule: main_step.cases)
      (auto simp: session_inv_def nth_append less_Suc_eq dest!: stop_and_join_keeps)
  from assms(1,2,3,6) show "report_inv fp cfg S'"
    by (cases rule: main_step.cases)
      (auto simp: report_inv_def phase_inv_def barrier_inv_def dest!: stop_and_join_keeps split: option.splits sum.splits)
qed

lemma client_step_outcome:
  assumes laws: "net_laws K N" "send_keeps_inbound K N" "close_transfers_nothing K N" "client_laws K N waits" "quiet N now"
    and cfg: "benchmark_ParseArgs hw argv = Inr cfg"
    and step: "client_step K now elapsed unblocked cfg i S S'" and i: "i < length (clients S)"
    and inv: "barrier_inv cfg S" "phase_inv cfg S" "error_inv S" "session_inv N cfg S" "report_inv fp cfg S"
  shows "error_inv S'" "session_inv N cfg S'" "report_inv fp cfg S'"
proof -
  have new: "x = c \<or> x \<in> set (clients S)" if "x \<in> set ((clients S)[i := c])" for x c
    using that set_update_subset_insert [of "clients S" i c] by auto
  have kept: "x = clients S ! i \<or> x \<in> set ((clients S)[i := c])" if "x \<in> set (clients S)" for x c
    using that i by (metis in_set_conv_nth length_list_update nth_list_update_neq)
  have added: "c \<in> set ((clients S)[i := c])" for c using i by (rule set_update_memI)
  from step show "error_inv S'"
    using inv(3) by (cases rule: client_step.cases)
      (auto simp: error_inv_def RecordFirstException_def split: option.splits dest: new kept intro: added)
  have bound: "i < bc_clients cfg" using i inv(1) by (simp add: barrier_inv_def)
  have size: "length (latencies_seconds S) = bc_clients cfg * bc_requests_per_client cfg"
    using inv(4) by (simp add: session_inv_def)
  have outcome: "length ds' = bc_clients cfg * bc_requests_per_client cfg \<and> (r = Inr () \<longrightarrow> client_session N cfg i w')"
    if "RunClient K now elapsed p i cfg (latencies_seconds S, w) = Some (r, (ds', w'))" for p w r ds' w'
    using wpD [OF RunClient_outcome [OF laws cfg bound size, of elapsed p w]] that size
    by (cases r) (auto simp: client_session_def kept_to_its_slots_def)
  from step show "session_inv N cfg S'"
    using inv(4) i by (cases rule: client_step.cases) (auto simp: session_inv_def nth_list_update dest: outcome)
  have "client_rank (clients S ! i) \<noteq> 0" using step by (auto simp: client_moved_def elim!: client_step_moves)
  with i inv(2) have "main_at S \<noteq> Reporting t t'" "main_at S \<noteq> Leaving p r" "main_at S \<noteq> Left r" for t t' p r
    by (auto simp: phase_inv_def ended_def)
  moreover have "main_at S' = main_at S" using step by (auto simp: client_moved_def elim!: client_step_moves)
  ultimately show "report_inv fp cfg S'"
    by (auto simp: report_inv_def split: main_point.splits)
qed

section \<open>Reachable states of the threads\<close>

definition load_inv ::
  "'w sys \<Rightarrow> 'w net \<Rightarrow> 'd floating \<Rightarrow> EpollEchoServerOptions \<Rightarrow> 'w \<Rightarrow> int set \<Rightarrow> server_config \<Rightarrow> BenchmarkConfig \<Rightarrow>
   ('t, 'd :: linorder, 'w) load_state \<Rightarrow> bool" where
  "load_inv K N fp options w0 base scfg cfg S \<longleftrightarrow>
     barrier_inv cfg S \<and> phase_inv cfg S \<and> server_side K N options w0 base scfg S \<and> thread_inv S \<and>
     error_inv S \<and> session_inv N cfg S \<and> report_inv fp cfg S"

lemma server_step_keeps:
  assumes "server_thread_step K others S S'"
  shows "barrier_inv cfg S' = barrier_inv cfg S" "phase_inv cfg S' = phase_inv cfg S" "error_inv S' = error_inv S"
    "session_inv N cfg S' = session_inv N cfg S" "report_inv fp cfg S' = report_inv fp cfg S"
proof -
  have "clients S' = clients S \<and> ready_clients S' = ready_clients S \<and> start S' = start S \<and> main_at S' = main_at S \<and>
      first_error S' = first_error S \<and> latencies_seconds S' = latencies_seconds S"
    using assms by (cases rule: server_thread_step.cases) simp_all
  then show "barrier_inv cfg S' = barrier_inv cfg S" "phase_inv cfg S' = phase_inv cfg S" "error_inv S' = error_inv S"
    "session_inv N cfg S' = session_inv N cfg S" "report_inv fp cfg S' = report_inv fp cfg S"
    by (simp_all only: barrier_inv_def phase_inv_def error_inv_def session_inv_def report_inv_def)
qed

lemma load_step_inv:
  assumes laws: "net_laws K N" "send_keeps_inbound K N" "close_transfers_nothing K N" "client_laws K N waits" "quiet N now"
      "acts_as_system default_handler K N others"
    and cfg: "benchmark_ParseArgs hw argv = Inr cfg"
    and step: "load_step K now elapsed fp create others unblocked cfg S S'" and inv: "load_inv K N fp options w0 base scfg cfg S"
  shows "load_inv K N fp options w0 base scfg cfg S'"
proof -
  have i: "barrier_inv cfg S" "phase_inv cfg S" "server_side K N options w0 base scfg S" "thread_inv S"
    "error_inv S" "session_inv N cfg S" "report_inv fp cfg S"
    using inv by (simp_all add: load_inv_def)
  from step show ?thesis
    unfolding load_inv_def
  proof (cases rule: load_step.cases)
    case main
    note kept = main_step_barrier [OF main i(1,2)] main_step_server [OF laws(1,5) main i(3,4)]
      main_step_outcome [OF main i(1,2,5-7)]
    show "barrier_inv cfg S' \<and> phase_inv cfg S' \<and> server_side K N options w0 base scfg S' \<and> thread_inv S' \<and>
        error_inv S' \<and> session_inv N cfg S' \<and> report_inv fp cfg S'" by (intro conjI kept)
  next
    case server
    note kept = other_step_server [OF laws(1,6) disjI1 [OF server(2)] i(3,4)]
    show "barrier_inv cfg S' \<and> phase_inv cfg S' \<and> server_side K N options w0 base scfg S' \<and> thread_inv S' \<and>
        error_inv S' \<and> session_inv N cfg S' \<and> report_inv fp cfg S'"
      unfolding server_step_keeps [OF server(2)] by (intro conjI i kept)
  next
    case (client k)
    note kept = client_step_barrier [OF client(3,2) i(1,2)] other_step_server [OF laws(1,6) disjI2 [OF client(3)] i(3,4)]
      client_step_outcome [OF laws(1-5) cfg client(3,2) i(1,2,5-7)]
    show "barrier_inv cfg S' \<and> phase_inv cfg S' \<and> server_side K N options w0 base scfg S' \<and> thread_inv S' \<and>
        error_inv S' \<and> session_inv N cfg S' \<and> report_inv fp cfg S'" by (intro conjI kept)
  qed
qed

lemma load_run_inv:
  assumes laws: "net_laws K N" "send_keeps_inbound K N" "close_transfers_nothing K N" "client_laws K N waits" "quiet N now"
      "acts_as_system default_handler K N others"
    and cfg: "benchmark_ParseArgs hw argv = Inr cfg"
    and run: "load_run K now elapsed fp create others unblocked cfg S k S'" and inv: "load_inv K N fp options w0 base scfg cfg S"
  shows "load_inv K N fp options w0 base scfg cfg S'"
  using run inv by (induction rule: load_run.induct) (blast intro: load_step_inv [OF laws cfg])+

text \<open>The server of the load generator.\<close>

lemma constructed_reachable:
  assumes "new_EpollEchoServer K spawn p (benchmark_server_options cfg) w = Some (Inr sv, w1)"
  shows "reachable K N default_handler (benchmark_server_options cfg) w (sv, w1)"
proof -
  have "opt_handler (benchmark_server_options cfg) = Some default_handler"
    "opt_max_in_flight_requests_per_connection (benchmark_server_options cfg) \<le> SIZE_MAX"
    by (simp_all add: benchmark_server_options_def default_EpollEchoServerOptions_def const_defs SIZE_MAX_def)
  then show ?thesis
    unfolding reachable_def using assms system_run.finish by blast
qed

lemma threads_scope_inv:
  assumes laws: "net_laws K N" "setup_laws K N sm"
    and new: "new_EpollEchoServer K spawn p (benchmark_server_options cfg) w = Some (Inr sv, w1)"
  shows "load_inv K N fp (benchmark_server_options cfg) w (opened N w \<union> server_fds sv) (config sv) cfg (threads_scope fp cfg sv w1)"
proof -
  note reach = constructed_reachable [OF new]
  have "framed N (opened N w \<union> server_fds sv) (config sv) (sv, w1)"
    using reachable_inv(4) [OF laws reach] by (simp add: framed_def)
  with reach show ?thesis
    by (simp add: load_inv_def threads_scope_def barrier_inv_def phase_inv_def server_side_def thread_inv_def error_inv_def
        session_inv_def report_inv_def)
qed

text \<open>
  Unless the main thread is through, some thread can act, or the main thread waits for a client whose
  calls do not come back.
\<close>

definition waits_in_vain :: "'w answering \<Rightarrow> ('t, 'd, 'w) load_state \<Rightarrow> bool" where
  "waits_in_vain unblocked S \<longleftrightarrow>
     (\<exists>t i. main_at S = Joining t i \<and> i < length (clients S) \<and> clients S ! i = Released \<and>
        (\<forall>w. \<not> unblocked i (server_thread S) (server_state S) w))"

lemma client_acts:
  assumes laws: "net_laws K N" "send_keeps_inbound K N" "close_transfers_nothing K N" "client_laws K N waits" "quiet N now"
    and cfg: "benchmark_ParseArgs hw argv = Inr cfg" and i: "i < bc_clients cfg"
    and inv: "session_inv N cfg S" and todo: "client_rank (clients S ! i) \<noteq> 0" "clients S ! i = Waiting \<Longrightarrow> start S"
      "clients S ! i = Released \<Longrightarrow> \<exists>w. unblocked i (server_thread S) (server_state S) w"
  shows "\<exists>S'. client_step K now elapsed unblocked cfg i S S'"
proof (cases "clients S ! i")
  case Released
  then obtain w where w: "unblocked i (server_thread S) (server_state S) w" using todo(3) by blast
  have "length (latencies_seconds S) = bc_clients cfg * bc_requests_per_client cfg" using inv by (simp add: session_inv_def)
  from wp_returns [OF RunClient_outcome [OF laws cfg i this]]
  obtain r ds' w' where "RunClient K now elapsed (server_port (fst (server_state S))) i cfg (latencies_seconds S, w) =
      Some (r, (ds', w'))" by fastforce
  with Released w show ?thesis
    by (cases r) (auto intro: client_step.returns client_step.throws)
qed (use todo in \<open>auto intro: client_step.ready client_step.started client_step.records\<close>)

lemma stop_acts:
  assumes laws: "net_laws K N" "setup_laws K N sm" "acts_as_system default_handler K N others"
    and inv: "server_side K N options w0 base scfg S" "thread_inv S" "main_at S = Stopping p t t' \<or> main_at S = Leaving p r"
    and p: "p \<noteq> ThreadJoined"
  shows "(\<exists>p' S'. stop_and_join_step K p S p' S') \<or> (\<exists>S'. server_thread_step K others S S')"
proof (cases p)
  case CallStop
  obtain s' where "Stop K (server_state S) = Some (Inr (), s')" using Stop_stops [OF laws(1)] .
  with CallStop show ?thesis by (blast intro: stop_and_join_step.stop)
next
  case AwaitThread
  show ?thesis
  proof (cases "server_thread S")
    case NoThread
    with inv AwaitThread show ?thesis by (auto simp: thread_inv_def)
  next
    case Running
    obtain sv w where s: "server_state S = (sv, w)" by (cases "server_state S")
    have "server_inv default_handler N (server_state S)"
      using inv(1) Running s reachable_inv(1) [OF laws(1,2)] by (auto simp: server_side_def)
    moreover have "stop_pending (server_state S)"
      using inv(2,3) Running AwaitThread by (auto simp: thread_inv_def stop_pending_def)
    ultimately obtain r s' where "Run K others (server_state S) = Some (r, s')"
      using Run_returns [OF laws(1,3)] by blast
    with Running show ?thesis
      by (cases r) (auto intro: server_thread_step.returns server_thread_step.throws)
  next
    case (RunThrew e)
    then show ?thesis by (blast intro: server_thread_step.stores)
  next
    case (RunEnded r)
    with AwaitThread show ?thesis by (cases "joinable S") (blast intro: stop_and_join_step.join stop_and_join_step.no_join)+
  qed
qed (use p in simp)

lemma some_thread_acts:
  assumes laws: "net_laws K N" "send_keeps_inbound K N" "close_transfers_nothing K N" "client_laws K N waits" "quiet N now"
      "setup_laws K N sm" "acts_as_system default_handler K N others"
    and cfg: "benchmark_ParseArgs hw argv = Inr cfg" and inv: "load_inv K N fp options w0 base scfg cfg S"
    and todo: "\<And>r. main_at S \<noteq> Left r" "main_at S \<noteq> Terminated" "\<not> waits_in_vain unblocked S"
  shows "\<exists>S'. load_step K now elapsed fp create others unblocked cfg S S'"
proof -
  note i = inv [unfolded load_inv_def]
  have stops: ?thesis if "main_at S = Stopping p t t' \<or> main_at S = Leaving p r" for p t t' r
  proof (cases "p = ThreadJoined")
    case True
    with that show ?thesis by (blast intro: load_step.main main_step.stopped main_step.left)
  next
    case False
    with stop_acts [OF laws(1,6,7) _ _ that] i that todo(2) show ?thesis
      by (blast intro: load_step.main load_step.server main_step.stops main_step.leaves)
  qed
  have client: ?thesis if "k < length (clients S)" "client_rank (clients S ! k) \<noteq> 0" "clients S ! k = Waiting \<Longrightarrow> start S"
      "clients S ! k = Released \<Longrightarrow> \<exists>w. unblocked k (server_thread S) (server_state S) w" for k
    using client_acts [OF laws(1-5) cfg, of k S unblocked elapsed] that i todo(2)
    by (fastforce simp: barrier_inv_def intro: load_step.client)
  show ?thesis
  proof (cases "main_at S")
    case StartThread
    then show ?thesis by (cases "create 0") (blast intro: load_step.main main_step.thread_starts main_step.thread_fails)+
  next
    case ConstructError
    then show ?thesis by (blast intro: load_step.main main_step.constructs_error)
  next
    case Spawning
    then show ?thesis
      by (cases "length (clients S) < bc_clients cfg"; cases "create (Suc (length (clients S)))")
        (blast intro: load_step.main main_step.spawns main_step.spawn_fails main_step.spawned)+
  next
    case AwaitReady
    show ?thesis
    proof (cases "ready_clients S < bc_clients cfg")
      case True
      then have "Launched \<in> set (clients S)"
        using AwaitReady i all_waiting [of "clients S"] by (simp add: phase_inv_def barrier_inv_def)
      then obtain k where "k < length (clients S)" "clients S ! k = Launched" by (auto simp: in_set_conv_nth)
      then show ?thesis by (intro client [of k]) simp_all
    next
      case False
      with AwaitReady show ?thesis by (metis load_step.main main_step.all_ready surj_pair)
    qed
  next
    case (Joining t k)
    then have started: "start S" using i by (simp add: phase_inv_def)
    show ?thesis
    proof (cases "k < length (clients S)")
      case True
      show ?thesis
      proof (cases "clients S ! k")
        case (Finished r w)
        with Joining True show ?thesis by (blast intro: load_step.main main_step.joins)
      next
        case Released
        then have "\<exists>w. unblocked k (server_thread S) (server_state S) w"
          using Joining True todo(3) unfolding waits_in_vain_def by blast
        with Released show ?thesis by (intro client [OF True]) simp_all
      qed (use client [OF True] started in simp_all)
    next
      case False
      with Joining show ?thesis by (metis load_step.main main_step.joined surj_pair)
    qed
  qed (use todo stops in \<open>blast intro: load_step.main main_step.releases main_step.reports\<close>)+
qed

text \<open>
  Once the server's thread has ended, nothing that the main thread does before it has joined the clients
  changes the server: a client that is blocked stays so, and the main thread with it.
\<close>

definition hanging :: "'t \<Rightarrow> nat \<Rightarrow> (exn + unit) \<Rightarrow> EpollEchoServer \<times> 'w \<Rightarrow> ('t, 'd, 'w) load_state \<Rightarrow> bool" where
  "hanging t i q s S \<longleftrightarrow> (\<exists>j \<le> i. main_at S = Joining t j) \<and> i < length (clients S) \<and> clients S ! i = Released \<and>
     server_thread S = RunEnded q \<and> server_state S = s"

lemma hanging_step:
  assumes "load_step K now elapsed fp create others unblocked cfg S S'" "hanging t i q s S"
    and blocked: "\<And>w. \<not> unblocked i (RunEnded q) s w"
  shows "hanging t i q s S'"
  using assms(1)
proof (cases rule: load_step.cases)
  case main
  from main assms(2) show ?thesis
    by (cases rule: main_step.cases) (auto simp: hanging_def Suc_le_eq order_le_less)
next
  case server
  from server(2) assms(2) show ?thesis
    by (cases rule: server_thread_step.cases) (simp_all add: hanging_def)
next
  case (client k)
  from client(3) obtain c where c: "client_moved k S c S'" by (rule client_step_moves)
  have "k \<noteq> i" using client(3) assms(2) blocked by (cases rule: client_step.cases) (auto simp: hanging_def)
  with c assms(2) show ?thesis by (simp add: hanging_def client_moved_def)
qed

lemma hanging_run:
  assumes "load_run K now elapsed fp create others unblocked cfg S n S'" "hanging t i q s S"
    and "\<And>w. \<not> unblocked i (RunEnded q) s w"
  shows "hanging t i q s S'"
  using assms(1,2) by (induction rule: load_run.induct) (use hanging_step assms(3) in metis)+

text \<open>The barrier holds whatever the system does.\<close>

lemma load_run_barrier:
  assumes "load_run K now elapsed fp create others unblocked cfg (threads_scope fp cfg sv w) k S"
  shows "barrier_inv cfg S \<and> phase_inv cfg S"
  using assms
proof (induction rule: load_run.induct)
  case finish
  then show ?case by (simp add: threads_scope_def barrier_inv_def phase_inv_def)
next
  case (more k S S')
  from more(2) show ?case
  proof (cases rule: load_step.cases)
    case main
    then show ?thesis using main_step_barrier more.IH by blast
  next
    case server
    then show ?thesis using server_step_keeps(1,2) [OF server(2)] more.IH by metis
  next
    case (client i)
    then show ?thesis using client_step_barrier more.IH by blast
  qed
qed

text \<open>The program is terminated only when a client's thread cannot be created.\<close>

lemma terminated_cause:
  assumes "load_run K now elapsed fp create others unblocked cfg S0 k S" "main_at S0 \<noteq> Terminated" "main_at S = Terminated"
  shows "\<exists>i e. 0 < i \<and> i < bc_clients cfg \<and> create (Suc i) = Some e"
  using assms
proof (induction rule: load_run.induct)
  case (more k S S')
  show ?case
  proof (cases "main_at S = Terminated")
    case True
    then show ?thesis using more by blast
  next
    case False
    from more(2) have "main_step K now elapsed fp create cfg S S'"
      using False more.prems(2)
      by (cases rule: load_step.cases) (auto simp: client_moved_def elim!: server_thread_step.cases client_step_moves)
    then show ?thesis
      using False more.prems(2)
      by (cases rule: main_step.cases) (auto split: if_splits option.splits)
  qed
qed simp

lemma ended_client: "client_rank c = 0 \<Longrightarrow> \<exists>q w. c = Finished q w"
  by (cases c) simp_all

lemma all_counted: "Launched \<notin> set cs \<Longrightarrow> sum_list (map waits_at_barrier cs) = length cs"
  by (induction cs) auto

lemma left_ended:
  assumes "load_inv K N fp options w0 base scfg cfg S" "main_at S = Left r"
  shows "\<forall>c \<in> set (clients S). \<exists>q w. c = Finished q w"
    "server_thread S = NoThread \<or> (\<exists>q. server_thread S = RunEnded q)"
proof -
  have "\<forall>c \<in> set (clients S). client_rank c = 0"
    using assms by (simp add: load_inv_def phase_inv_def ended_def)
  then show "\<forall>c \<in> set (clients S). \<exists>q w. c = Finished q w" using ended_client by blast
  show "server_thread S = NoThread \<or> (\<exists>q. server_thread S = RunEnded q)"
    using assms by (cases "server_thread S") (simp_all add: load_inv_def thread_inv_def)
qed

section \<open>A small run\<close>

text \<open>One client that sends one request of one byte; the clock stands still.\<close>

definition small_argv :: "string list" where
  "small_argv = [''pulsecore_epoll_benchmark'', ''--clients'', ''1'', ''--requests-per-client'', ''1'',
     ''--payload-size'', ''1'', ''--workers'', ''1'']"

definition small_config :: BenchmarkConfig where
  "small_config = \<lparr>bc_clients = 1, bc_requests_per_client = 1, bc_payload_size = 1, bc_workers = 1,
     bc_message_type = kBenchmarkEcho, bc_work_iterations = 1000\<rparr>"

definition nat_floating :: "nat floating" where
  "nat_floating = \<lparr>fp_of_nat = (\<lambda>n. n), fp_times = (*), fp_divide = (div), fp_fixed = decimal_text\<rparr>"

definition still_clock :: "script \<Rightarrow> nat \<times> script" where
  "still_clock w = (0, w)"

definition small_server :: EpollEchoServer where
  "small_server = started_server\<lparr>signal_mask_state := \<lparr>previous_mask = [], mask_active = False\<rparr>, shutdown_signal := default_UniqueFd\<rparr>"

definition small_world :: script where
  "small_world = empty_script\<lparr>interest := [3 \<mapsto> ListenerEvent, 5 \<mapsto> WorkerWakeupEvent], open_list := [5, 4, 3], fd_next := 6\<rparr>"

lemma small_parse: "benchmark_ParseArgs 8 small_argv = Inr small_config"
  by (simp add: benchmark_ParseArgs_def small_argv_def small_config_def default_BenchmarkConfig_def set_benchmark_option_def
      benchmark_ParsePositiveSize_def stoul_def split_sign_def is_space_def is_digit_def decimal_def SIZE_MAX_def)

lemma small_construction:
  "new_EpollEchoServer scripted (\<lambda>_. None) 0 (benchmark_server_options small_config) empty_script =
     Some (Inr small_server, small_world)"
  by (simp add: new_EpollEchoServer_def CreateListener_def CreateEpoll_def CreateWorkerWakeup_def
      BlockShutdownSignals_def BuildSignalSet_def CreateShutdownSignalFd_def RequireConnectionLimits_def
      RequirePositiveBudget_def benchmark_server_options_def default_EpollEchoServerOptions_def default_ConnectionLimits_def
      new_WorkerPool_def new_BoundedQueue_def constructor_body_def BoundPort_def AddListenerToEpoll_def
      AddWorkerWakeupToEpoll_def AddShutdownSignalToEpoll_def htons_def new_ShutdownSignalMaskState_def small_config_def
      small_server_def small_world_def started_server_def Sample_Run.program_defs fd_defs world_defs const_defs fun_eq_iff)

text \<open>What the client thread meets: its request is sent at once, and the response is there.\<close>

definition small_request :: Message where
  "small_request = \<lparr>msg_type = kEchoRequest, request_id = 0, payload = [0]\<rparr>"

definition small_response :: Message where
  "small_response = \<lparr>msg_type = kEchoResponse, request_id = 0, payload = [0]\<rparr>"

definition small_template :: ClientRequestTemplate where
  "small_template = \<lparr>request_type = kEchoRequest, expected_response_type = kEchoResponse, request_payload = [0],
     expected_response_payload = [0]\<rparr>"

definition small_peer :: script where
  "small_peer = empty_script\<lparr>recv_script := (\<lambda>_. [])(3 := [Inr (frame_of small_response)]), send_script := (\<lambda>_. [])(3 := [Inr 100])\<rparr>"

definition small_asked :: script where
  "small_asked = empty_script\<lparr>recv_script := (\<lambda>_. [])(3 := [Inr (frame_of small_response)]),
     sent_bytes := (\<lambda>_. [])(3 := frame_of small_request), fd_next := 4, open_list := [3]\<rparr>"

definition small_told :: script where
  "small_told = empty_script\<lparr>recv_bytes := (\<lambda>_. [])(3 := frame_of small_response),
     sent_bytes := (\<lambda>_. [])(3 := frame_of small_request), fd_next := 4, open_list := [3]\<rparr>"

lemmas small_worlds = small_peer_def small_asked_def small_told_def empty_script_def

lemma small_messages: "encodable small_request" "encodable small_response" "length (payload small_request) = 1"
  "length (payload small_response) = 1" "RequestMessage 0 small_template = small_request"
  by (simp_all add: small_request_def small_response_def small_template_def RequestMessage_def encodable_def
      IsKnownMessageType_def const_defs)

lemma small_connects:
  "ConnectTcp scripted ''127.0.0.1'' p small_peer = Some (Inr (new_UniqueFd 3), snd (script_open small_peer))"
  by (simp add: ConnectTcp_def CreateIpv4Socket_def create_fd_def check_def owning_def unwinding_def catch_def
      andthen_def seq_def act_def ret_def loop_def loop_body_def iterate_rules scripted_def small_worlds
      script_create_def script_setup_def script_open_def new_UniqueFd_def get_def Let_def)

lemma small_sends: "SendMessage scripted 3 small_request (snd (script_open small_peer)) = Some (Inr (), small_asked)"
  by (simp add: SendMessage_def SendAll_def EncodeMessage_eq small_messages Blocking_Tcp.program_defs iterate_rules scripted_def
      small_worlds script_open_def fun_eq_iff)

lemma small_reads:
  "ReadMessage scripted 3 (new_FrameDecoder, small_asked) =
     Some (Inr (ReadMessageResult_Message small_response), (new_FrameDecoder, small_told))"
  by (simp add: ReadMessage_def Blocking_Tcp.program_defs iterate_rules scripted_def small_worlds Next_fresh Next_frame small_messages
      fun_eq_iff take_all)

lemma small_build: "BuildClientRequestTemplate 0 small_config = Inr small_template"
  by (simp add: BuildClientRequestTemplate_def small_config_def small_template_def Let_def)

lemma small_client:
  "RunClient scripted still_clock (-) p 0 small_config ([0], small_peer) =
     Some (Inr (), ([0], sys_close scripted 3 small_told))"
proof -
  have "get (new_UniqueFd 3) = 3" by (simp add: fd_defs)
  moreover have "exchange_request scripted still_clock (-) 3 small_template 0 ([0], new_FrameDecoder, snd (script_open small_peer)) =
      Some (Inr (), ([0], new_FrameDecoder, small_told))"
    by (simp add: exchange_request_def Blocking_Tcp.program_defs still_clock_def small_messages small_sends small_reads
        ReadMessageResult_defs store_latency_def Let_def)
      (simp add: small_response_def small_template_def)
  moreover have "bc_requests_per_client small_config = 1" by (simp add: small_config_def)
  ultimately show ?thesis
    by (simp add: RunClient_def Blocking_Tcp.program_defs small_connects with_client_decoder_def small_build lift_exn_def ensuring_def
        unwinding_def connected_new close_owned)
qed

text \<open>The threads. The calls of the clients come back as long as the server's thread is in its event loop.\<close>

definition served_while_running :: "script answering" where
  "served_while_running i p s w \<longleftrightarrow> p = Running"

abbreviation small_step :: "(nat, nat, script) load_state \<Rightarrow> (nat, nat, script) load_state \<Rightarrow> bool" where
  "small_step \<equiv> load_step scripted still_clock (-) nat_floating (\<lambda>_. None) (\<lambda>s. s) served_while_running small_config"

abbreviation small_run_from :: "script \<Rightarrow> nat \<Rightarrow> (nat, nat, script) load_state \<Rightarrow> bool" where
  "small_run_from w \<equiv> load_run scripted still_clock (-) nat_floating (\<lambda>_. None) (\<lambda>s. s) served_while_running small_config
     (threads_scope nat_floating small_config small_server w)"

abbreviation small_run :: "nat \<Rightarrow> (nat, nat, script) load_state \<Rightarrow> bool" where
  "small_run \<equiv> small_run_from small_world"

definition small_released_in :: "script \<Rightarrow> (nat, nat, script) load_state" where
  "small_released_in w =
     \<lparr>main_at = Joining 0 0, clients = [Released], ready_clients = 1, start = True, first_error = None,
      latencies_seconds = [0], server_thread = Running, joinable = True, thread_error = Some None,
      server_state = (small_server, w)\<rparr>"

abbreviation small_released :: "(nat, nat, script) load_state" where
  "small_released \<equiv> small_released_in small_world"

definition small_stopped :: "EpollEchoServer \<times> script" where
  "small_stopped = (small_server\<lparr>stop_requested := True\<rparr>, small_world\<lparr>read_script := (\<lambda>_. [])(5 := [Inr 8])\<rparr>)"

definition small_end :: "(nat, nat, script) load_state" where
  "small_end =
     \<lparr>main_at = Left (benchmark_report nat_floating small_config 0 [0]),
      clients = [Finished (Inr ()) (sys_close scripted 3 small_told)], ready_clients = 1, start = True, first_error = None,
      latencies_seconds = [0], server_thread = RunEnded (Inr ()), joinable = False, thread_error = Some None,
      server_state = small_stopped\<rparr>"

lemma small_run_released: "small_run_from w 8 (small_released_in w)"
proof -
  let ?S = "threads_scope nat_floating small_config small_server w :: (nat, nat, script) load_state"
  let ?S1 = "?S\<lparr>server_thread := Running, joinable := True, main_at := ConstructError\<rparr>"
  let ?S2 = "?S1\<lparr>thread_error := Some None, main_at := Spawning\<rparr>"
  let ?S3 = "?S2\<lparr>clients := clients ?S2 @ [Launched]\<rparr>"
  let ?S4 = "?S3\<lparr>main_at := AwaitReady\<rparr>"
  let ?S5 = "?S4\<lparr>clients := (clients ?S4)[0 := Waiting], ready_clients := ready_clients ?S4 + 1\<rparr>"
  let ?S6 = "?S5\<lparr>main_at := Releasing 0, server_state := (small_server, w)\<rparr>"
  let ?S7 = "?S6\<lparr>start := True, main_at := Joining 0 0\<rparr>"
  have "small_step ?S ?S1" by (rule load_step.main [OF main_step.thread_starts]) (simp_all add: threads_scope_def)
  moreover have "small_step ?S1 ?S2" by (rule load_step.main [OF main_step.constructs_error]) simp
  moreover have "small_step ?S2 ?S3"
    by (rule load_step.main [OF main_step.spawns]) (simp_all add: threads_scope_def small_config_def)
  moreover have "small_step ?S3 ?S4"
    by (rule load_step.main [OF main_step.spawned]) (simp_all add: threads_scope_def small_config_def)
  moreover have "small_step ?S4 ?S5"
    by (rule load_step.client [of _ 0, OF _ _ client_step.ready]) (simp_all add: threads_scope_def)
  moreover have "small_step ?S5 ?S6"
    by (rule load_step.main [OF main_step.all_ready]) (simp_all add: threads_scope_def small_config_def still_clock_def)
  moreover have "small_step ?S6 ?S7"
    by (rule load_step.main [OF main_step.releases]) simp
  moreover have "small_step ?S7 (?S7\<lparr>clients := (clients ?S7)[0 := Released]\<rparr>)"
    by (rule load_step.client [of _ 0, OF _ _ client_step.started]) (simp_all add: threads_scope_def)
  ultimately have "small_run_from w (Suc (Suc (Suc (Suc (Suc (Suc (Suc (Suc 0)))))))) (?S7\<lparr>clients := (clients ?S7)[0 := Released]\<rparr>)"
    by (meson load_run.intros)
  moreover have "?S7\<lparr>clients := (clients ?S7)[0 := Released]\<rparr> = small_released_in w"
    by (simp add: threads_scope_def small_released_in_def small_config_def nat_floating_def)
  ultimately show ?thesis by (simp add: numeral_eq_Suc)
qed

lemma small_stop:
  "Stop scripted (small_server, small_world) = Some (Inr (), small_stopped)"
  "Stop scripted small_stopped = Some (Inr (), small_stopped)"
  by (simp_all add: Stop_def NotifyWorkerWakeup_def small_stopped_def small_server_def small_world_def started_server_def
      Sample_Run.program_defs iterate_rules scripted_def fd_defs kInvalidFd_def empty_script_def fun_eq_iff)

lemma small_loop: "Run scripted (\<lambda>s. s) small_stopped = Some (Inr (), small_stopped)"
  by (simp add: Run_def CloseAllConnections_def small_stopped_def small_server_def started_server_def new_ConnectionRegistry_def
      Sample_Run.program_defs iterate_rules)

lemma small_run_end: "small_run 19 small_end"
proof -
  let ?S9 = "small_released\<lparr>clients := (clients small_released)[0 := Finished (Inr ()) (sys_close scripted 3 small_told)],
     latencies_seconds := [0]\<rparr>"
  let ?S10 = "?S9\<lparr>main_at := Joining 0 (Suc 0)\<rparr>"
  let ?S11 = "?S10\<lparr>main_at := Stopping CallStop 0 0, server_state := (small_server, small_world)\<rparr>"
  let ?S12 = "?S11\<lparr>server_state := small_stopped, main_at := Stopping AwaitThread 0 0\<rparr>"
  let ?S13 = "?S12\<lparr>server_thread := RunEnded (Inr ()), server_state := small_stopped\<rparr>"
  let ?S14 = "?S13\<lparr>joinable := False, main_at := Stopping ThreadJoined 0 0\<rparr>"
  let ?S15 = "?S14\<lparr>main_at := Reporting 0 0\<rparr>"
  let ?S16 = "?S15\<lparr>main_at := Leaving CallStop (benchmark_report nat_floating small_config (0 - 0) (latencies_seconds ?S15))\<rparr>"
  let ?S17 = "?S16\<lparr>server_state := small_stopped, main_at := Leaving AwaitThread (benchmark_report nat_floating small_config 0 [0])\<rparr>"
  let ?S18 = "?S17\<lparr>main_at := Leaving ThreadJoined (benchmark_report nat_floating small_config 0 [0])\<rparr>"
  let ?S19 = "?S18\<lparr>main_at := Left (benchmark_report nat_floating small_config 0 [0])\<rparr>"
  have "small_step small_released ?S9"
    by (rule load_step.client [of _ 0, OF _ _ client_step.returns [where w = small_peer]])
      (simp_all add: small_released_in_def small_client served_while_running_def)
  moreover have "small_step ?S9 ?S10"
    by (rule load_step.main [OF main_step.joins]) (simp_all add: small_released_in_def)
  moreover have "small_step ?S10 ?S11"
    by (rule load_step.main [OF main_step.joined [where i = "Suc 0"]]) (simp_all add: small_released_in_def still_clock_def)
  moreover have "small_step ?S11 ?S12"
    by (rule load_step.main [OF main_step.stops [OF _ stop_and_join_step.stop]]) (simp_all add: small_stop)
  moreover have "small_step ?S12 ?S13"
    by (rule load_step.server [OF _ server_thread_step.returns]) (simp_all add: small_released_in_def small_loop)
  moreover have "small_step ?S13 ?S14"
    by (rule load_step.main [OF main_step.stops [OF _ stop_and_join_step.join]]) (simp_all add: small_released_in_def)
  moreover have "small_step ?S14 ?S15"
    using load_step.main [OF main_step.stopped [of ?S14 0 0]] by (simp add: small_released_in_def StopAndJoin_error_def)
  moreover have "small_step ?S15 ?S16"
    by (rule load_step.main [OF main_step.reports]) simp
  moreover have "small_step ?S16 ?S17"
    by (rule load_step.main [OF main_step.leaves [OF _ stop_and_join_step.stop]]) (simp_all add: small_released_in_def small_stop)
  moreover have "small_step ?S17 ?S18"
    by (rule load_step.main [OF main_step.leaves [OF _ stop_and_join_step.no_join]]) simp_all
  moreover have "small_step ?S18 ?S19"
    by (rule load_step.main [OF main_step.left]) simp
  ultimately have "small_run (Suc (Suc (Suc (Suc (Suc (Suc (Suc (Suc (Suc (Suc (Suc 8))))))))))) ?S19"
    using small_run_released by (meson load_run.more)
  moreover have "?S19 = small_end" by (simp add: small_released_in_def small_end_def)
  ultimately show ?thesis by (simp add: numeral_eq_Suc)
qed

lemma small_laws: "quiet script_net still_clock" "acts_as_system default_handler scripted script_net (\<lambda>s. s)"
proof -
  show "quiet script_net still_clock" by (simp add: quiet_def still_clock_def)
  show "acts_as_system default_handler scripted script_net (\<lambda>s. s)"
    unfolding acts_as_system_def using system_run.finish by blast
qed

text \<open>A server whose event loop fails at once.\<close>

definition small_failing :: script where
  "small_failing = small_world\<lparr>wait_script := [Inl ENOENT]\<rparr>"

lemma small_failure:
  "Run scripted (\<lambda>s. s) (small_server, small_failing) = Some (Inl (SyscallError ''epoll_wait'' ENOENT), (small_server, small_world))"
  by (simp add: Run_def small_failing_def small_world_def empty_script_def small_server_def started_server_def
      Sample_Run.program_defs iterate_rules scripted_def fd_defs)

text \<open>It fails when the client has been let go: the client is blocked, and the main thread waits for it.\<close>

lemma small_failing_construction:
  "new_EpollEchoServer scripted (\<lambda>_. None) 0 (benchmark_server_options small_config) (empty_script\<lparr>wait_script := [Inl ENOENT]\<rparr>) =
     Some (Inr small_server, small_failing)"
  by (simp add: new_EpollEchoServer_def CreateListener_def CreateEpoll_def CreateWorkerWakeup_def
      BlockShutdownSignals_def BuildSignalSet_def CreateShutdownSignalFd_def RequireConnectionLimits_def
      RequirePositiveBudget_def benchmark_server_options_def default_EpollEchoServerOptions_def default_ConnectionLimits_def
      new_WorkerPool_def new_BoundedQueue_def constructor_body_def BoundPort_def AddListenerToEpoll_def
      AddWorkerWakeupToEpoll_def AddShutdownSignalToEpoll_def htons_def new_ShutdownSignalMaskState_def small_config_def
      small_server_def small_failing_def small_world_def started_server_def Sample_Run.program_defs fd_defs world_defs const_defs
      fun_eq_iff)

definition small_hung :: "(nat, nat, script) load_state" where
  "small_hung =
     \<lparr>main_at = Joining 0 0, clients = [Released], ready_clients = 1, start = True, first_error = None,
      latencies_seconds = [0], server_thread = RunEnded (Inl (SyscallError ''epoll_wait'' ENOENT)), joinable = True,
      thread_error = Some (Some (SyscallError ''epoll_wait'' ENOENT)), server_state = (small_server, small_world)\<rparr>"

lemma small_run_hung: "small_run_from small_failing 10 small_hung"
proof -
  let ?e = "SyscallError ''epoll_wait'' ENOENT"
  let ?S8 = "small_released_in small_failing"
  let ?S9 = "?S8\<lparr>server_thread := RunThrew ?e, server_state := (small_server, small_world)\<rparr>"
  let ?S10 = "?S9\<lparr>server_thread := RunEnded (Inl ?e), thread_error := Some (Some ?e)\<rparr>"
  have "small_step ?S8 ?S9"
    by (rule load_step.server [OF _ server_thread_step.throws]) (simp_all add: small_released_in_def small_failure)
  moreover have "small_step ?S9 ?S10"
    by (rule load_step.server [OF _ server_thread_step.stores]) (simp_all add: small_released_in_def)
  ultimately have "small_run_from small_failing (Suc (Suc 8)) ?S10"
    using small_run_released by (meson load_run.more)
  moreover have "?S10 = small_hung" by (simp add: small_released_in_def small_hung_def)
  ultimately show ?thesis by (simp add: numeral_eq_Suc)
qed

lemma small_program:
  "\<exists>c' w'. benchmark_main scripted (\<lambda>_. []) (\<lambda>_. None) still_clock (-) nat_floating (\<lambda>_. None) (\<lambda>s. s)
     served_while_running (\<lambda>s. s) 8 small_argv
     (\<lparr>con_out = [], con_err = []\<rparr>, empty_script) 0 (c', w')"
proof -
  have args: "\<not> (length small_argv = 2 \<and> small_argv ! 1 = ''--help'')" by (simp add: small_argv_def)
  obtain lines where lines: "main_at small_end = Left (Inr lines)"
    by (simp add: small_end_def benchmark_report_def small_build)
  have join: "leaves_descriptors script_net sig_mask (\<lambda>s. s)" by (simp add: leaves_descriptors_def)
  have mask: "mask_saved sig_mask [] (signal_mask_state (fst small_stopped)) (snd small_stopped)"
    by (simp add: mask_saved_def small_stopped_def small_server_def small_world_def empty_script_def)
  have "\<exists>x s'. delete_EpollEchoServer scripted (\<lambda>s. s) (server_state small_end) = Some (Inr x, s')"
    by (rule wp_no_throw [OF delete_EpollEchoServer_releases [OF scripted_setup_laws net_lawsD(7) [OF scripted_net_laws] join mask]])
      (simp add: small_end_def)
  then have "\<exists>sv' w'. delete_EpollEchoServer scripted (\<lambda>s. s) (server_state small_end) = Some (Inr (), (sv', w'))" by auto
  then show ?thesis
    using benchmark_main.reported [OF args small_parse small_construction small_run_end lines] by blast
qed

section \<open>Properties\<close>

text \<open>
  C20. The clients start together: whenever a client thread is behind the start barrier, all client threads
  have been created and have counted themselves, and the counter is their number. This holds for every
  interleaving of the threads and whatever the system does.
\<close>

theorem clients_start_together:
  assumes "load_run K now elapsed fp create others unblocked cfg (threads_scope fp cfg sv w) k S"
    and "c \<in> set (clients S)" "c \<noteq> Launched" "c \<noteq> Waiting"
  shows "start S \<and> length (clients S) = bc_clients cfg \<and> ready_clients S = bc_clients cfg \<and> Launched \<notin> set (clients S)"
proof -
  have inv: "barrier_inv cfg S" using load_run_barrier [OF assms(1)] by simp
  moreover have "client_rank c < 3" using assms(3,4) by (cases c) simp_all
  ultimately have "start S" "length (clients S) = bc_clients cfg" "Launched \<notin> set (clients S)"
    using assms(2) by (auto simp: barrier_inv_def)
  then show ?thesis using inv by (simp add: barrier_inv_def all_counted)
qed

theorem clients_start_together_witness:
  "small_run 8 small_released \<and> start small_released \<and> ready_clients small_released = bc_clients small_config"
  using clients_start_together [OF small_run_released, of Released] small_run_released by (simp add: small_released_in_def)

text \<open>
  C19. Where the threads of the load generator come to rest. Every run from the start of the threads has at most
  six steps per client and fifteen more, so no run goes on for ever, and a state in which no thread can act is one of
  three. The main thread has left the scope of the threads, and then the client threads and the server's thread have
  ended before the server is destroyed. Or a client thread could not be created after others were, which terminates the
  program. Or the main thread waits in \<^verbatim>\<open>join\<close> for a client behind the barrier whose calls do not come back, the server being
  where its thread left it; nothing else holds the program up, neither the barrier nor the server's thread.
\<close>

theorem load_threads_end:
  assumes "net_laws K N" "send_keeps_inbound K N" "close_transfers_nothing K N" "client_laws K N waits" "quiet N now"
    and "setup_laws K N sm" "acts_as_system default_handler K N others"
    and "benchmark_ParseArgs hw argv = Inr cfg"
    and "new_EpollEchoServer K spawn 0 (benchmark_server_options cfg) w = Some (Inr sv, w1)"
    and "load_run K now elapsed fp create others unblocked cfg (threads_scope fp cfg sv w1) k S"
  shows "k \<le> 6 * bc_clients cfg + 15 \<and>
    ((\<nexists>S'. load_step K now elapsed fp create others unblocked cfg S S') \<longrightarrow>
       (\<exists>r. main_at S = Left r \<and> (\<forall>c \<in> set (clients S). \<exists>q w. c = Finished q w) \<and>
          (server_thread S = NoThread \<or> (\<exists>q. server_thread S = RunEnded q))) \<or>
       main_at S = Terminated \<and> (\<exists>i e. 0 < i \<and> i < bc_clients cfg \<and> create (Suc i) = Some e) \<or>
       (\<exists>t i. main_at S = Joining t i \<and> i < bc_clients cfg \<and> clients S ! i = Released \<and>
          (\<forall>w. \<not> unblocked i (server_thread S) (server_state S) w)))"
proof -
  note inv = load_run_inv [OF assms(1-5,7,8,10) threads_scope_inv [OF assms(1,6,9)]]
  have "k \<le> 6 * bc_clients cfg + 15"
    using load_run_bounded [OF assms(10) threads_scope_counted(1)] unfolding threads_scope_counted(2) by simp
  moreover have "(\<exists>r. main_at S = Left r) \<or> main_at S = Terminated \<or> waits_in_vain unblocked S"
    if "\<nexists>S'. load_step K now elapsed fp create others unblocked cfg S S'"
    using some_thread_acts [OF assms(1-8) inv] that by blast
  moreover have "\<exists>i e. 0 < i \<and> i < bc_clients cfg \<and> create (Suc i) = Some e" if "main_at S = Terminated"
    using terminated_cause [OF assms(10) _ that] by (simp add: threads_scope_def)
  moreover have "\<exists>t i. main_at S = Joining t i \<and> i < bc_clients cfg \<and> clients S ! i = Released \<and>
      (\<forall>w. \<not> unblocked i (server_thread S) (server_state S) w)" if "waits_in_vain unblocked S"
    using that inv unfolding waits_in_vain_def load_inv_def barrier_inv_def by fastforce
  ultimately show ?thesis
    using left_ended [OF inv] by metis
qed

theorem load_threads_end_witness:
  "small_run 19 small_end \<and> 19 \<le> 6 * bc_clients small_config + 15"
  using load_threads_end [OF scripted_net_laws scripted_blocking_laws small_laws(1) scripted_setup_laws small_laws(2)
      small_parse small_construction small_run_end] small_run_end by blast

text \<open>
  C29. A server that fails while clients wait for it hangs the load generator. Suppose the server's thread has ended,
  because its event loop threw or was told to stop, while the main thread joins the clients, and a client behind the
  barrier is blocked with the server left as it is. Then no thread ever changes that: in every continuation the client
  is still blocked and the main thread still joining, the program does not come to \<open>StopAndJoin\<close>, which would report the error, nor
  to the destructor, and the listening socket, the other descriptors of the server and those of its
  connections are all open, so that no end of stream releases the client.
\<close>

theorem failed_server_hangs_clients:
  assumes "net_laws K N" "send_keeps_inbound K N" "close_transfers_nothing K N" "client_laws K N waits" "quiet N now"
    and "setup_laws K N sm" "acts_as_system default_handler K N others"
    and "benchmark_ParseArgs hw argv = Inr cfg"
    and "new_EpollEchoServer K spawn 0 (benchmark_server_options cfg) w = Some (Inr sv, w1)"
    and "load_run K now elapsed fp create others unblocked cfg (threads_scope fp cfg sv w1) k S"
    and "server_thread S = RunEnded q" "main_at S = Joining t j"
    and "i < length (clients S)" "clients S ! i = Released" "\<And>w. \<not> unblocked i (RunEnded q) (server_state S) w"
    and "load_run K now elapsed fp create others unblocked cfg S n S'"
  shows "clients S' ! i = Released \<and> (\<exists>j'. main_at S' = Joining t j') \<and> server_state S' = server_state S \<and>
    server_fds sv \<union> set (fd_list (registry (fst (server_state S')))) \<subseteq> opened N (snd (server_state S'))"
proof -
  have inv: "load_inv K N fp (benchmark_server_options cfg) w (opened N w \<union> server_fds sv) (config sv) cfg S"
    by (rule load_run_inv [OF assms(1-5,7,8,10) threads_scope_inv [OF assms(1,6,9)]])
  then have "\<forall>k < j. client_rank (clients S ! k) = 0"
    using assms(12) by (simp add: load_inv_def phase_inv_def)
  moreover have "client_rank (clients S ! i) \<noteq> 0" using assms(14) by simp
  ultimately have "j \<le> i" by (metis not_le_imp_less)
  then have "hanging t i q (server_state S) S" using assms(11-14) by (simp add: hanging_def)
  from hanging_run [where unblocked = unblocked, OF assms(16) this assms(15)]
  have "hanging t i q (server_state S) S'" .
  moreover have "framed N (opened N w \<union> server_fds sv) (config sv) (server_state S)"
    using inv by (simp add: load_inv_def server_side_def)
  ultimately show ?thesis
    by (cases "server_state S") (auto simp: hanging_def framed_def accounts_def)
qed

theorem failed_server_hangs_clients_witness:
  "small_run_from small_failing 10 small_hung \<and> server_thread small_hung = RunEnded (Inl (SyscallError ''epoll_wait'' ENOENT)) \<and>
   (\<nexists>n S' r. load_run scripted still_clock (-) nat_floating (\<lambda>_. None) (\<lambda>s. s) served_while_running small_config
      small_hung n S' \<and> main_at S' = Left r)"
proof -
  have hung: "server_thread small_hung = RunEnded (Inl (SyscallError ''epoll_wait'' ENOENT))" "main_at small_hung = Joining 0 0"
    "0 < length (clients small_hung)" "clients small_hung ! 0 = Released"
    "\<And>w. \<not> served_while_running 0 (RunEnded (Inl (SyscallError ''epoll_wait'' ENOENT))) (server_state small_hung) w"
    by (simp_all add: small_hung_def served_while_running_def)
  note joining = failed_server_hangs_clients [OF scripted_net_laws scripted_blocking_laws small_laws(1) scripted_setup_laws
      small_laws(2) small_parse small_failing_construction small_run_hung hung]
  show ?thesis
    using small_run_hung hung(1) joining by (metis main_point.distinct(1) main_point.simps)
qed

text \<open>
  C18. What a printed report implies. When the main thread leaves the threads with a report, every configured
  client thread ended without an exception: it sent exactly its requests, in order, and the bytes it received
  start with the responses that the request handler gives to them. The report is computed from the
  latencies as the threads left them.
\<close>

theorem report_means_all_answered:
  assumes "net_laws K N" "send_keeps_inbound K N" "close_transfers_nothing K N" "client_laws K N waits" "quiet N now"
    and "setup_laws K N sm" "acts_as_system default_handler K N others"
    and "benchmark_ParseArgs hw argv = Inr cfg"
    and "new_EpollEchoServer K spawn 0 (benchmark_server_options cfg) w = Some (Inr sv, w1)"
    and "load_run K now elapsed fp create others unblocked cfg (threads_scope fp cfg sv w1) k S" "main_at S = Left (Inr text)"
  shows "(\<exists>d. benchmark_report fp cfg d (latencies_seconds S) = Inr text) \<and>
    (\<forall>i < bc_clients cfg. \<exists>w' t fd rest. clients S ! i = Finished (Inr ()) w' \<and> BuildClientRequestTemplate i cfg = Inr t \<and>
       wire N fd w' = concat (map (\<lambda>r. frame_of (RequestMessage r t)) (request_ids i cfg)) \<and>
       received N fd w' = concat (map (\<lambda>r. frame_of (HandleRequest (RequestMessage r t))) (request_ids i cfg)) @ rest)"
proof -
  note inv = load_run_inv [OF assms(1-5,7,8,10) threads_scope_inv [OF assms(1,6,9)]]
  have ok: "first_error S = None" "length (clients S) = bc_clients cfg"
    "\<exists>d. benchmark_report fp cfg d (latencies_seconds S) = Inr text"
    using inv assms(11) by (simp_all add: load_inv_def report_inv_def)
  have "\<exists>w'. clients S ! i = Finished (Inr ()) w' \<and> client_session N cfg i w'" if i: "i < bc_clients cfg" for i
  proof -
    have "clients S ! i \<in> set (clients S)" using i ok(2) by simp
    then obtain q w' where q: "clients S ! i = Finished q w'" "Finished q w' \<in> set (clients S)"
      using left_ended(1) [OF inv assms(11)] by metis
    then have "q = Inr ()" using inv ok(1) by (cases q) (auto simp: load_inv_def error_inv_def)
    with q i ok(2) inv show ?thesis by (auto simp: load_inv_def session_inv_def)
  qed
  with ok(3) show ?thesis unfolding client_session_def by blast
qed

theorem report_means_all_answered_witness:
  "\<exists>text. small_run 19 small_end \<and> main_at small_end = Left (Inr text) \<and>
     (\<exists>d. benchmark_report nat_floating small_config d (latencies_seconds small_end) = Inr text) \<and>
     (\<exists>w'. clients small_end ! 0 = Finished (Inr ()) w')"
proof -
  have one: "0 < bc_clients small_config" by (simp add: small_config_def)
  obtain lines where left: "main_at small_end = Left (Inr lines)"
    by (simp add: small_end_def benchmark_report_def small_build)
  note answered = report_means_all_answered [OF scripted_net_laws scripted_blocking_laws small_laws(1) scripted_setup_laws
      small_laws(2) small_parse small_construction small_run_end left]
  then have "\<exists>w'. clients small_end ! 0 = Finished (Inr ()) w'" using one by blast
  with answered left small_run_end show ?thesis by blast
qed

text \<open>
  C22. An exception of the server's event loop can get lost. The thread is started by the initialiser of the member
  \<^verbatim>\<open>thread_\<close>, before the member \<^verbatim>\<open>error_\<close> is constructed: when the loop throws at once, the thread stores its exception in
  a member that does not exist yet, and the construction that follows overwrites it with no exception. \<open>StopAndJoin\<close> then
  has nothing to rethrow.
\<close>

theorem server_error_can_be_lost:
  assumes "create 0 = None" "Run K others (sv, w) = Some (Inl e, s')"
  shows "\<exists>S. load_run K now elapsed fp create others unblocked cfg (threads_scope fp cfg sv w) 4 S \<and>
    server_thread S = RunEnded (Inl e) \<and> main_at S = Spawning \<and> StopAndJoin_error S = None"
proof -
  let ?S = "threads_scope fp cfg sv w"
  let ?S1 = "?S\<lparr>server_thread := Running, joinable := True, main_at := ConstructError\<rparr>"
  let ?S2 = "?S1\<lparr>server_thread := RunThrew e, server_state := s'\<rparr>"
  let ?S3 = "?S2\<lparr>server_thread := RunEnded (Inl e), thread_error := Some (Some e)\<rparr>"
  let ?S4 = "?S3\<lparr>thread_error := Some None, main_at := Spawning\<rparr>"
  have "load_step K now elapsed fp create others unblocked cfg ?S ?S1"
    by (rule load_step.main [OF main_step.thread_starts]) (simp_all add: threads_scope_def assms)
  moreover have "load_step K now elapsed fp create others unblocked cfg ?S1 ?S2"
    by (rule load_step.server [OF _ server_thread_step.throws]) (simp_all add: threads_scope_def assms)
  moreover have "load_step K now elapsed fp create others unblocked cfg ?S2 ?S3"
    by (rule load_step.server [OF _ server_thread_step.stores]) simp_all
  moreover have "load_step K now elapsed fp create others unblocked cfg ?S3 ?S4"
    by (rule load_step.main [OF main_step.constructs_error]) simp
  ultimately have "load_run K now elapsed fp create others unblocked cfg ?S (Suc (Suc (Suc (Suc 0)))) ?S4"
    by (blast intro: load_run.intros)
  then show ?thesis
    by (intro exI [of _ ?S4]) (simp add: StopAndJoin_error_def numeral_eq_Suc)
qed

theorem server_error_can_be_lost_witness:
  "\<exists>S. load_run scripted still_clock (-) nat_floating (\<lambda>_. None) (\<lambda>s. s) served_while_running small_config
       (threads_scope nat_floating small_config small_server small_failing) 4 S \<and>
     server_thread S = RunEnded (Inl (SyscallError ''epoll_wait'' ENOENT)) \<and> main_at S = Spawning \<and> StopAndJoin_error S = None"
  by (rule server_error_can_be_lost [OF _ small_failure]) simp

text \<open>
  C21. However the load generator exits, with the usage text, with an error of its arguments, of the server's construction,
  of the event loop or of a client, or with a report, the descriptors that the main thread and the server
  opened are closed. The exit code is 0 or 1; with 1 nothing is printed on the standard output, and the
  usage text and the error on the standard error stream.
\<close>

theorem benchmark_program_releases:
  assumes "net_laws K N" "send_keeps_inbound K N" "close_transfers_nothing K N" "client_laws K N waits" "quiet N now"
    and "setup_laws K N sm" "acts_as_system default_handler K N others" "leaves_descriptors N sm join"
    and "benchmark_main K strerror spawn now elapsed fp create others unblocked join hw argv (c, w) code (c', w')"
  shows "opened N w' = opened N w \<and>
    (code = 0 \<and> (length argv = 2 \<and> argv ! 1 = ''--help'' \<or> con_err c' = con_err c) \<or>
     code = 1 \<and> con_out c' = con_out c \<and>
       (\<exists>e. con_err c' = con_err c @ benchmark_usage @ ''pulsecore_epoll_benchmark: '' @ what strerror e @ newline))"
proof -
  have left: "opened N w' = opened N w"
    if cfg: "benchmark_ParseArgs hw argv = Inr cfg"
      and new: "new_EpollEchoServer K spawn 0 (benchmark_server_options cfg) w = Some (Inr sv, w1)"
      and run: "load_run K now elapsed fp create others unblocked cfg (threads_scope fp cfg sv w1) n S"
      and del: "delete_EpollEchoServer K join (server_state S) = Some (Inr (), (sv', w'))" for cfg sv w1 n S sv' w'
  proof -
    have inv: "load_inv K N fp (benchmark_server_options cfg) w (opened N w \<union> server_fds sv) (config sv) cfg S"
      by (rule load_run_inv [OF assms(1-5,7) cfg run threads_scope_inv [OF assms(1,6) new]])
    obtain sv2 w2 where s: "server_state S = (sv2, w2)" by (cases "server_state S")
    have same: "config sv2 = config sv" "accounts N (opened N w \<union> server_fds sv) (registry sv2) w2"
      using inv s by (simp_all add: load_inv_def server_side_def framed_def)
    moreover have "server_fds sv \<inter> opened N w = {}"
      using reachable_inv(5) [OF assms(1,6) constructed_reachable [OF new]] .
    moreover have "server_fds sv2 = server_fds sv" using same(1) by (simp add: config_def server_fds_def)
    moreover have "mask_saved sm (if mask_active (signal_mask_state sv2) then previous_mask (signal_mask_state sv2) else sm w2)
        (signal_mask_state sv2) w2" by (simp add: mask_saved_def)
    ultimately have "wp (delete_EpollEchoServer K join)
        (\<lambda>_ (sv', w'). at N sm (opened N w)
           (if mask_active (signal_mask_state sv2) then previous_mask (signal_mask_state sv2) else sm w2) w') (\<lambda>_ _. False) (sv2, w2)"
      using delete_accounted [OF assms(6) net_lawsD(7) [OF assms(1)] assms(8)] by metis
    from wpD(1) [OF this del [unfolded s]] show ?thesis by (simp add: at_def)
  qed
  have built: "opened N w' = opened N w"
    if "new_EpollEchoServer K spawn 0 options w = Some (Inl e, w')" for options e w'
    using wpD(2) [OF new_EpollEchoServer_outcome [OF assms(6), of "opened N w" "sm w"] that] by (simp add: at_def)
  from assms(9) show ?thesis
    by (cases rule: benchmark_main.cases) (auto simp: benchmark_failure_def dest: left built)
qed

theorem benchmark_program_releases_witness:
  "\<exists>c' w'. benchmark_main scripted (\<lambda>_. []) (\<lambda>_. None) still_clock (-) nat_floating (\<lambda>_. None) (\<lambda>s. s)
     served_while_running (\<lambda>s. s) 8 small_argv
       (\<lparr>con_out = [], con_err = []\<rparr>, empty_script) 0 (c', w') \<and> script_opened w' = {}"
proof -
  have join: "leaves_descriptors script_net sig_mask (\<lambda>s. s)" by (simp add: leaves_descriptors_def)
  obtain c' w' where run: "benchmark_main scripted (\<lambda>_. []) (\<lambda>_. None) still_clock (-) nat_floating (\<lambda>_. None)
      (\<lambda>s. s) served_while_running (\<lambda>s. s) 8 small_argv (\<lparr>con_out = [], con_err = []\<rparr>, empty_script) 0 (c', w')"
    using small_program by blast
  from benchmark_program_releases [OF scripted_net_laws scripted_blocking_laws small_laws(1) scripted_setup_laws small_laws(2) join run]
  have "script_opened w' = script_opened empty_script" by simp
  with run show ?thesis by (auto simp: script_opened_def empty_script_def)
qed

end
