(* ===== verification/Service.thy ===== *)
theory Service
  imports Server_System "HOL-Library.Sublist"
begin

text \<open>
  What the server promises, with nothing of how it does it: a service that keeps one session per client.
  A session has the bytes heard from the client and the bytes said to it. Sessions begin
  under ids that were never used, hear bytes, say bytes and end; what has been said is always a
  prefix of the responses to the messages in what has been heard. A lemma composes such steps, one session
  after the other, into any change of finitely many sessions that is allowed for each of them.
\<close>

record session =
  heard :: "byte list"
  said :: "byte list"

record service =
  used_ids :: "ConnectionId set"
  sessions :: "ConnectionId \<rightharpoonup> session"

definition answers :: "WorkHandler \<Rightarrow> byte list \<Rightarrow> byte list" where
  "answers h bs = concat (map (\<lambda>m. frame_of (respond h m)) (fst (parse_stream frame_verdict bs)))"

inductive service_step :: "WorkHandler \<Rightarrow> service \<Rightarrow> service \<Rightarrow> bool" for h where
  begins: "i \<notin> used_ids v \<Longrightarrow>
    service_step h v (v\<lparr>used_ids := insert i (used_ids v), sessions := (sessions v)(i \<mapsto> \<lparr>heard = [], said = []\<rparr>)\<rparr>)"
| hears: "sessions v i = Some s \<Longrightarrow>
    service_step h v (v\<lparr>sessions := (sessions v)(i \<mapsto> s\<lparr>heard := heard s @ bs\<rparr>)\<rparr>)"
| says: "sessions v i = Some s \<Longrightarrow> prefix (said s @ bs) (answers h (heard s)) \<Longrightarrow>
    service_step h v (v\<lparr>sessions := (sessions v)(i \<mapsto> s\<lparr>said := said s @ bs\<rparr>)\<rparr>)"
| finishes: "sessions v i = Some s \<Longrightarrow>
    service_step h v (v\<lparr>sessions := (sessions v)(i := None)\<rparr>)"

abbreviation service_steps :: "WorkHandler \<Rightarrow> service \<Rightarrow> service \<Rightarrow> bool" where
  "service_steps h \<equiv> (service_step h)\<^sup>*\<^sup>*"

text \<open>What may become of one session while others change too.\<close>

definition session_goes :: "WorkHandler \<Rightarrow> ConnectionId \<Rightarrow> service \<Rightarrow> service \<Rightarrow> bool" where
  "session_goes h i v v' \<longleftrightarrow>
     (i \<in> used_ids v \<longrightarrow> i \<in> used_ids v') \<and>
     (case sessions v' i of
        None \<Rightarrow> True
      | Some s' \<Rightarrow> i \<in> used_ids v' \<and> prefix (said s') (answers h (heard s')) \<and>
          (case sessions v i of
             None \<Rightarrow> i \<notin> used_ids v
           | Some s \<Rightarrow> prefix (heard s) (heard s') \<and> prefix (said s) (said s')))"

text \<open>The change of one session is a sequence of steps: it hears what it has not heard, then it says it.\<close>

lemma session_grows:
  assumes "sessions v i = Some s" "prefix (heard s) (heard s')" "prefix (said s) (said s')"
    and "prefix (said s') (answers h (heard s'))"
  shows "service_steps h v (v\<lparr>sessions := (sessions v)(i \<mapsto> s')\<rparr>)"
proof -
  obtain bs cs where bs: "heard s' = heard s @ bs" and cs: "said s' = said s @ cs"
    using assms(2,3) by (auto elim!: prefixE)
  let ?s = "s\<lparr>heard := heard s @ bs\<rparr>"
  let ?v = "v\<lparr>sessions := (sessions v)(i \<mapsto> ?s)\<rparr>"
  have "service_step h v ?v" by (rule service_step.hears [OF assms(1)])
  moreover have "service_step h ?v (?v\<lparr>sessions := (sessions ?v)(i \<mapsto> ?s\<lparr>said := said ?s @ cs\<rparr>)\<rparr>)"
    by (rule service_step.says) (use assms(4) bs cs in simp_all)
  moreover have "?v\<lparr>sessions := (sessions ?v)(i \<mapsto> ?s\<lparr>said := said ?s @ cs\<rparr>)\<rparr> = v\<lparr>sessions := (sessions v)(i \<mapsto> s')\<rparr>"
    using bs cs by (cases s; cases s') simp
  ultimately show ?thesis by (metis converse_rtranclp_into_rtranclp r_into_rtranclp)
qed

definition take_over :: "ConnectionId set \<Rightarrow> service \<Rightarrow> service \<Rightarrow> service" where
  "take_over A v v' = \<lparr>used_ids = used_ids v \<union> (used_ids v' \<inter> A), sessions = (\<lambda>i. if i \<in> A then sessions v' i else sessions v i)\<rparr>"

lemma session_goes_steps:
  assumes goes: "session_goes h i v v'" and known: "\<And>s. sessions v i = Some s \<Longrightarrow> i \<in> used_ids v"
  shows "service_steps h v (take_over {i} v v')"
proof (cases "i \<in> used_ids v")
  case True
  then have used: "used_ids v \<union> (used_ids v' \<inter> {i}) = used_ids v" by auto
  have eq: "take_over {i} v v' = v\<lparr>sessions := (sessions v)(i := sessions v' i)\<rparr>"
    unfolding take_over_def used by (auto simp: fun_eq_iff)
  show ?thesis
  proof (cases "sessions v' i")
    case None
    show ?thesis
    proof (cases "sessions v i")
      case None
      then have "(sessions v)(i := sessions v' i) = sessions v" using \<open>sessions v' i = None\<close> by auto
      then show ?thesis unfolding eq by simp
    next
      case (Some s)
      then show ?thesis
        unfolding eq \<open>sessions v' i = None\<close> by (intro r_into_rtranclp service_step.finishes)
    qed
  next
    case (Some s')
    with goes True obtain s where "sessions v i = Some s"
      by (auto simp: session_goes_def split: option.splits)
    with goes Some show ?thesis
      unfolding eq by (auto simp: session_goes_def intro!: session_grows)
  qed
next
  case False
  then have none: "sessions v i = None" using known by (cases "sessions v i") auto
  let ?new = "v\<lparr>used_ids := insert i (used_ids v), sessions := (sessions v)(i \<mapsto> \<lparr>heard = [], said = []\<rparr>)\<rparr>"
  have begins: "service_step h v ?new" using False by (rule service_step.begins)
  show ?thesis
  proof (cases "sessions v' i")
    case None
    show ?thesis
    proof (cases "i \<in> used_ids v'")
      case True
      have "service_step h ?new (?new\<lparr>sessions := (sessions ?new)(i := None)\<rparr>)"
        by (rule service_step.finishes) simp
      moreover have "take_over {i} v v' = ?new\<lparr>sessions := (sessions ?new)(i := None)\<rparr>"
        using True None none by (auto simp: take_over_def fun_eq_iff)
      ultimately show ?thesis using begins by (metis converse_rtranclp_into_rtranclp r_into_rtranclp)
    next
      case False
      then have "take_over {i} v v' = v" using None none by (auto simp: take_over_def fun_eq_iff)
      then show ?thesis by simp
    qed
  next
    case (Some s')
    have "service_steps h ?new (?new\<lparr>sessions := (sessions ?new)(i \<mapsto> s')\<rparr>)"
      by (rule session_grows [where s = "\<lparr>heard = [], said = []\<rparr>"])
        (use goes Some in \<open>auto simp: session_goes_def\<close>)
    moreover have "take_over {i} v v' = ?new\<lparr>sessions := (sessions ?new)(i \<mapsto> s')\<rparr>"
      using goes Some by (auto simp: take_over_def session_goes_def fun_eq_iff)
    ultimately show ?thesis using begins by (metis converse_rtranclp_into_rtranclp)
  qed
qed

lemma take_over_insert: "i \<notin> A \<Longrightarrow> take_over {i} (take_over A v v') v' = take_over (insert i A) v v'"
  by (auto simp: take_over_def fun_eq_iff)

lemma sessions_go:
  assumes "finite A" "\<And>i. session_goes h i v v'" "\<And>i s. sessions v i = Some s \<Longrightarrow> i \<in> used_ids v"
  shows "service_steps h v (take_over A v v')"
  using assms(1)
proof (induction rule: finite_induct)
  case empty
  then show ?case by (cases v) (simp add: take_over_def)
next
  case (insert i A)
  have same: "sessions (take_over A v v') i = sessions v i" "i \<in> used_ids (take_over A v v') \<longleftrightarrow> i \<in> used_ids v"
    using insert.hyps by (simp_all add: take_over_def)
  have "session_goes h i (take_over A v v') v'" "\<And>s. sessions (take_over A v v') i = Some s \<Longrightarrow> i \<in> used_ids (take_over A v v')"
    using assms(2) [of i] assms(3) [of i] unfolding session_goes_def same .
  then have "service_steps h (take_over A v v') (take_over {i} (take_over A v v') v')"
    by (rule session_goes_steps)
  with insert show ?case by (metis rtranclp_trans take_over_insert)
qed

lemma finite_ids: "finite (A :: ConnectionId set)"
proof (rule finite_imageD [of id_value])
  show "inj_on id_value A" by (rule inj_onI) (simp add: id_value_eq_iff)
qed simp

text \<open>A change that is allowed for every session is a sequence of steps of the service.\<close>

lemma service_goes:
  assumes "\<And>i. session_goes h i v v'" "\<And>i s. sessions v i = Some s \<Longrightarrow> i \<in> used_ids v"
  shows "service_steps h v v'"
proof -
  have "used_ids v \<subseteq> used_ids v'" using assms(1) by (auto simp: session_goes_def)
  then have "take_over UNIV v v' = v'" by (cases v') (auto simp: take_over_def)
  then show ?thesis using sessions_go [OF finite_ids [of UNIV] assms(1,2)] by simp
qed

end
