(* ===== verification/Server_Refinement.thy ===== *)
theory Server_Refinement
  imports Service Server_Progress
begin

text \<open>
  The server implements the service of \<^verbatim>\<open>Service\<close>: the sessions are the registered connections with the bytes received
  and sent on their descriptors, the used ids those below the registry's next one. The lemmas show that no
  program of the reactor takes back a byte or reuses an id: connections present before and after have the
  same descriptor, and what was received and sent on it has only grown. Together with the
  invariant this makes every step of the server a sequence of steps of the service.
\<close>

section \<open>Connections only advance\<close>

definition advances :: "'w net \<Rightarrow> EpollEchoServer \<times> 'w \<Rightarrow> EpollEchoServer \<times> 'w \<Rightarrow> bool" where
  "advances N = (\<lambda>(sv, w) (sv', w').
     id_value (next_id (registry sv)) \<le> id_value (next_id (registry sv')) \<and>
     (\<forall>i c'. id_value i < id_value (next_id (registry sv)) \<longrightarrow> Find (registry sv') i = Some c' \<longrightarrow>
        (\<exists>c. Find (registry sv) i = Some c \<and> get (conn_fd c') = get (conn_fd c) \<and>
           prefix (received N (get (conn_fd c)) w) (received N (get (conn_fd c)) w') \<and>
           prefix (wire N (get (conn_fd c)) w) (wire N (get (conn_fd c)) w'))))"

lemma advances_refl [simp]: "advances N s s"
  by (auto simp: advances_def)

lemma advances_trans:
  assumes "advances N s s1" "advances N s1 s2"
  shows "advances N s s2"
proof -
  obtain sv w sv1 w1 sv2 w2 where s: "s = (sv, w)" "s1 = (sv1, w1)" "s2 = (sv2, w2)" by (metis surj_pair)
  have "\<exists>c. Find (registry sv) i = Some c \<and> get (conn_fd c2) = get (conn_fd c) \<and>
      prefix (received N (get (conn_fd c)) w) (received N (get (conn_fd c)) w2) \<and>
      prefix (wire N (get (conn_fd c)) w) (wire N (get (conn_fd c)) w2)"
    if i: "id_value i < id_value (next_id (registry sv))" "Find (registry sv2) i = Some c2" for i c2
  proof -
    have "id_value i < id_value (next_id (registry sv1))"
      using assms(1) i(1) s by (auto simp: advances_def)
    then obtain c1 where c1: "Find (registry sv1) i = Some c1" "get (conn_fd c2) = get (conn_fd c1)"
      "prefix (received N (get (conn_fd c1)) w1) (received N (get (conn_fd c1)) w2)"
      "prefix (wire N (get (conn_fd c1)) w1) (wire N (get (conn_fd c1)) w2)"
      using assms(2) i(2) s by (auto simp: advances_def)
    moreover obtain c where "Find (registry sv) i = Some c" "get (conn_fd c1) = get (conn_fd c)"
      "prefix (received N (get (conn_fd c)) w) (received N (get (conn_fd c)) w1)"
      "prefix (wire N (get (conn_fd c)) w) (wire N (get (conn_fd c)) w1)"
      using assms(1) i(1) c1(1) s by (auto simp: advances_def)
    ultimately show ?thesis by (metis prefix_order.trans)
  qed
  moreover have "id_value (next_id (registry sv)) \<le> id_value (next_id (registry sv2))"
    using assms s by (auto simp: advances_def)
  ultimately show ?thesis by (simp add: advances_def s)
qed

text \<open>The shape in which the programs preserve it: from a fixed earlier state, with the descriptors accounted for.\<close>

definition moved :: "'w net \<Rightarrow> int set \<Rightarrow> server_config \<Rightarrow> EpollEchoServer \<times> 'w \<Rightarrow> EpollEchoServer \<times> 'w \<Rightarrow> bool" where
  "moved N base cfg s0 s \<longleftrightarrow> framed N base cfg s \<and> advances N s0 s"

lemma moved_by:
  assumes "preserves (framed N base cfg) p"
    and "\<And>s r s'. framed N base cfg s \<Longrightarrow> p s = Some (r, s') \<Longrightarrow> advances N s s'"
  shows "preserves (moved N base cfg s0) p"
  by (rule preservesI) (use assms in \<open>auto simp: moved_def dest: preservesD intro: advances_trans\<close>)

lemma advances_quiet: "registry sv' = registry sv \<Longrightarrow> same_net N w w' \<Longrightarrow> advances N (sv, w) (sv', w')"
  by (auto simp: advances_def same_net_def)

text \<open>Receiving and sending only add bytes.\<close>

definition grows :: "'w net \<Rightarrow> 'w \<Rightarrow> 'w \<Rightarrow> bool" where
  "grows N w w' \<longleftrightarrow> (\<forall>fd. prefix (received N fd w) (received N fd w') \<and> prefix (wire N fd w) (wire N fd w'))"

lemma grows_trans: "grows N w w1 \<Longrightarrow> grows N w1 w2 \<Longrightarrow> grows N w w2"
  unfolding grows_def by (meson prefix_order.trans)

lemma grows_calls:
  assumes laws: "net_laws K N"
  shows "sys_recv K fd n w = (r, w') \<Longrightarrow> grows N w w'" "sys_send K fd bs w = (q, w') \<Longrightarrow> grows N w w'"
proof -
  show "grows N w w'" if "sys_recv K fd n w = (r, w')"
  proof -
    have "wire N x w' = wire N x w" "x \<noteq> fd \<Longrightarrow> received N x w' = received N x w"
      "received N fd w' = received N fd w @ (case r of Inl e \<Rightarrow> [] | Inr bs \<Rightarrow> bs)" for x
      using net_lawsD(8) [OF laws] that unfolding recv_observed_def by blast+
    then show ?thesis unfolding grows_def by (metis prefixI prefix_order.refl)
  qed
  show "grows N w w'" if "sys_send K fd bs w = (q, w')"
  proof -
    have same: "received N x w' = received N x w" "x \<noteq> fd \<Longrightarrow> wire N x w' = wire N x w" for x
      using net_lawsD(9) [OF laws] that unfolding send_observed_def by blast+
    moreover have "prefix (wire N fd w) (wire N fd w')"
      using send_extends_streamD [OF net_lawsD(3) [OF laws]] that by (cases q) fastforce+
    ultimately show ?thesis unfolding grows_def by (metis prefix_order.refl)
  qed
qed

lemma advances_store:
  assumes "Find (registry sv) i = Some c" "get (conn_fd c') = get (conn_fd c)" "grows N w w'"
  shows "advances N (sv, w) (sv\<lparr>registry := Store i c' (registry sv)\<rparr>, w')"
  using assms by (auto simp: advances_def grows_def Find_def Store_def update_conv' split: if_splits)

section \<open>The programs\<close>

lemma moved_set_server [preserve_intros]:
  assumes "\<And>sv. config (f sv) = config sv" "\<And>sv. registry (f sv) = registry sv"
  shows "preserves (moved N base cfg s0) (set_server f)"
  by (rule moved_by [OF framed_set_server [OF assms]])
    (use assms in \<open>auto simp: set_server_def modify_def intro!: advances_quiet\<close>)

lemma moved_syscall:
  assumes "\<And>w r w'. call w = (r, w') \<Longrightarrow> same_net N w w'"
  shows "preserves (moved N base cfg s0) (syscall call)"
proof (rule moved_by)
  show "preserves (framed N base cfg) (syscall call)"
    by (rule framed_syscall) (use assms in \<open>auto simp: same_net_def\<close>)
  show "advances N s s'" if "syscall call s = Some (r, s')" for s r s'
    using that assms by (cases s) (auto simp: syscall_def on_world_def act_def intro!: advances_quiet split: prod.splits)
qed

lemma moved_set_flow [preserve_intros]: "preserves (moved N base cfg s0) (set_flow i f)"
  unfolding set_flow_def by (intro preserve_intros; simp)

lemma moved_on_connection:
  assumes "preserves (framed N base cfg) (on_connection i f)"
    and "\<And>c w r c' w'. f c w = Some (r, c', w') \<Longrightarrow> conn_fd c' = conn_fd c \<and> grows N w w'"
  shows "preserves (moved N base cfg s0) (on_connection i f)"
proof (rule moved_by [OF assms(1)])
  fix s r s' assume "on_connection i f s = Some (r, s')"
  then show "advances N s s'"
    using assms(2) by (cases s) (auto simp: on_connection_def intro!: advances_store split: option.splits)
qed

lemma moved_queue [preserve_intros]:
  "preserves (moved N base cfg s0) (on_connection i (\<lambda>c w. case QueueOutput c m of (ok, c') \<Rightarrow> Some (Inr ok, c', w)))"
  by (rule moved_on_connection [OF framed_queue])
    (auto simp: grows_def QueueOutput_def CompactOutputBuffer_def Let_def split: prod.splits option.splits if_splits)

lemma moved_calls [preserve_intros]:
  assumes laws: "net_laws K N"
  shows "preserves (moved N base cfg s0) (syscall (sys_epoll_ctl K ep op fd ev))"
    "preserves (moved N base cfg s0) (syscall (sys_epoll_wait K ep n t))"
    "preserves (moved N base cfg s0) (syscall (sys_read K fd n))"
    "preserves (moved N base cfg s0) (syscall (sys_write_u64 K fd v))"
    "preserves (moved N base cfg s0) (on_connection i (\<lambda>c. ReadAvailable K c n))"
    "preserves (moved N base cfg s0) (on_connection i (\<lambda>c. WriteAvailable K c n))"
proof -
  have ctl: "same_net N w w'" if "sys_epoll_ctl K ep op fd ev w = (r, w')" for w r w'
    using net_lawsD(12) [OF laws] that unfolding others_quiet_def by (metis quietD)
  show "preserves (moved N base cfg s0) (syscall (sys_epoll_ctl K ep op fd ev))"
    "preserves (moved N base cfg s0) (syscall (sys_epoll_wait K ep n t))"
    "preserves (moved N base cfg s0) (syscall (sys_read K fd n))"
    "preserves (moved N base cfg s0) (syscall (sys_write_u64 K fd v))"
    by (rule moved_syscall; auto dest: ctl net_quiet [OF laws])+
  show "preserves (moved N base cfg s0) (on_connection i (\<lambda>c. ReadAvailable K c n))"
  proof (rule moved_on_connection [OF framed_calls(5) [OF laws]])
    fix c w r c' w' assume "ReadAvailable K c n w = Some (r, c', w')"
    from ReadAvailable_system [where P = "grows N w", OF grows_trans [OF _ grows_calls(1) [OF laws]] _ this]
    show "conn_fd c' = conn_fd c \<and> grows N w w'" by (auto simp: grows_def)
  qed
  show "preserves (moved N base cfg s0) (on_connection i (\<lambda>c. WriteAvailable K c n))"
  proof (rule moved_on_connection [OF framed_calls(6) [OF laws]])
    fix c w r c' w' assume "WriteAvailable K c n w = Some (r, c', w')"
    from WriteAvailable_system [where P = "grows N w", OF grows_trans [OF _ grows_calls(2) [OF laws]] _ this]
    show "conn_fd c' = conn_fd c \<and> grows N w w'" by (auto simp: grows_def)
  qed
qed

text \<open>Removing a connection closes its descriptor, which is no other connection's.\<close>

lemma accounts_distinct:
  assumes "accounts N base r w" "Find r i = Some c" "Find r j = Some d" "get (conn_fd c) = get (conn_fd d)"
  shows "i = j"
proof -
  have "(id_value i, c) \<in> set (connections r)" "(id_value j, d) \<in> set (connections r)"
    using assms(2,3) by (auto simp: Find_def dest: map_of_SomeD)
  moreover have "inj_on (\<lambda>(k, c). get (conn_fd c)) (set (connections r))"
    using assms(1) by (auto simp: accounts_def fd_list_def distinct_map)
  ultimately show ?thesis
    using assms(4) by (auto simp: inj_on_def id_value_eq_iff)
qed

lemma moved_remove [preserve_intros]:
  assumes laws: "net_laws K N"
  shows "preserves (moved N base cfg s0) (remove_from_registry K i)"
proof (rule moved_by [OF framed_remove [OF laws]])
  fix s r s' assume s: "framed N base cfg s" and run: "remove_from_registry K i s = Some (r, s')"
  obtain sv w where sv: "s = (sv, w)" by (cases s)
  have acc: "accounts N base (registry sv) w" using s sv by (simp add: framed_def)
  show "advances N s s'"
  proof (cases "Find (registry sv) i")
    case None
    with run sv show ?thesis
      by (auto simp: remove_from_registry_def act_def Remove_def Find_def split: prod.splits)
  next
    case (Some c)
    then have valid: "destroy (conn_fd c) = [get (conn_fd c)]"
      using acc by (force simp: accounts_def Find_def destroy_def reset_def is_valid_def get_def dest: map_of_SomeD)
    have other: "get (conn_fd d) \<noteq> get (conn_fd c)" if "Find (registry sv) j = Some d" "j \<noteq> i" for j d
      using accounts_distinct [OF acc that(1) Some] that(2) by auto
    have s': "s' = (sv\<lparr>registry := (registry sv)\<lparr>connections := AList.delete (id_value i) (connections (registry sv))\<rparr>\<rparr>,
        sys_close K (get (conn_fd c)) w)"
      using run sv Some by (auto simp: remove_from_registry_def act_def Remove_def Find_def valid close_all_def split: prod.splits)
    have "received N x (sys_close K (get (conn_fd c)) w) = received N x w \<and> wire N x (sys_close K (get (conn_fd c)) w) = wire N x w"
      if "x \<noteq> get (conn_fd c)" for x
      using net_lawsD(11) [OF laws] that unfolding close_observed_def by blast
    with other show ?thesis
      unfolding s' sv by (auto simp: advances_def Find_def delete_conv' id_value_eq_iff split: if_splits)
  qed
qed

lemma moved_submit [preserve_intros]:
  "preserves (moved N base cfg s0) (act (\<lambda>(sv, w). case TrySubmit (worker_pool sv) item of (ok, p) \<Rightarrow> (ok, (sv\<lparr>worker_pool := p\<rparr>, w))))"
  by (rule moved_by [OF framed_submit]) (auto simp: act_def intro!: advances_quiet split: prod.splits)

lemma moved_SubmitWork [preserve_intros]: "preserves (moved N base cfg s0) (SubmitWork i ms)"
  by (induction ms) (auto simp: Let_def intro!: preserve_intros)

lemma moved_removal [preserve_intros]:
  assumes laws: "net_laws K N"
  shows "preserves (moved N base cfg s0) (EpollCtl K ep op fd ev name)"
    "preserves (moved N base cfg s0) (RemoveConnection K i)" "preserves (moved N base cfg s0) (UpdateInterest K i)"
  unfolding EpollCtl_def RemoveConnection_def UpdateInterest_def Let_def
  by (intro preserve_intros laws; simp)+

lemma moved_responses [preserve_intros]:
  assumes laws: "net_laws K N"
  shows "preserves (moved N base cfg s0) (FlushReadyResponses K i)" "preserves (moved N base cfg s0) (HandleCompletedWork K r)"
    "preserves (moved N base cfg s0) (HandleConnectionEvent K i e)" "preserves (moved N base cfg s0) (HandleWorkerWakeup K)"
    "preserves (moved N base cfg s0) (HandleShutdownSignal K)" "preserves (moved N base cfg s0) (NotifyWorkerWakeup K)"
    "preserves (moved N base cfg s0) (StoreCompletedWork K r)" "preserves (moved N base cfg s0) (Stop K)"
  unfolding FlushReadyResponses_def flush_loop_def HandleCompletedWork_def HandleConnectionEvent_def read_and_submit_def
    write_pending_def HandleWorkerWakeup_def HandleShutdownSignal_def drain_fd_def NotifyWorkerWakeup_def StoreCompletedWork_def
    Stop_def Let_def
  by (intro preserve_intros laws; simp)+

text \<open>
  An accepted descriptor is no registered connection's, and a registered connection gets an id
  that no earlier one had.
\<close>

lemma registered_open:
  assumes "accounts N base r w" "Find r i = Some c"
  shows "get (conn_fd c) \<in> opened N w" "get (conn_fd c) \<notin> base"
proof -
  have "get (conn_fd c) \<in> set (fd_list r)"
    using assms(2) by (force simp: Find_def fd_list_def dest: map_of_SomeD)
  then show "get (conn_fd c) \<in> opened N w" "get (conn_fd c) \<notin> base"
    using assms(1) by (auto simp: accounts_def)
qed

lemma advances_elsewhere:
  assumes "\<And>i c. Find (registry sv) i = Some c \<Longrightarrow>
      received N (get (conn_fd c)) w' = received N (get (conn_fd c)) w \<and> wire N (get (conn_fd c)) w' = wire N (get (conn_fd c)) w"
    and "id_value (next_id (registry sv)) \<le> id_value (next_id (registry sv'))"
    and "\<And>i. id_value i < id_value (next_id (registry sv)) \<Longrightarrow> Find (registry sv') i = Find (registry sv) i"
  shows "advances N (sv, w) (sv', w')"
  using assms by (auto simp: advances_def)

lemma accept_advances:
  assumes laws: "net_laws K N" and s: "framed N base cfg s" and run: "AcceptNonBlocking K lfd s = Some (r, s')"
  shows "advances N s s'"
proof -
  have "case r of Inl e \<Rightarrow> advances N s s' | Inr client \<Rightarrow> advances N s s'"
  proof (rule loop_partial [where I = "\<lambda>_. moved N base cfg s", OF _ _ run [unfolded AcceptNonBlocking_def]])
    show "moved N base cfg s s" using s by (simp add: moved_def)
    fix u s1 assume "moved N base cfg s s1"
    then have s1: "framed N base cfg s1" "advances N s s1" by (simp_all add: moved_def)
    obtain sv w where sv: "s1 = (sv, w)" by (cases s1)
    obtain a w' where a: "sys_accept K lfd AcceptNonblockCloexec w = (a, w')" by (metis surj_pair)
    have obs: "case a of Inl e \<Rightarrow> same_net N w w'
        | Inr fd \<Rightarrow> fd \<notin> opened N w \<and> (\<forall>x. x \<noteq> fd \<longrightarrow> received N x w' = received N x w \<and> wire N x w' = wire N x w)"
      using net_lawsD(10) [OF laws] a unfolding accept_observed_def by (fastforce split: sum.splits)
    have acc: "accounts N base (registry sv) w" using s1(1) sv by (simp add: framed_def)
    have "advances N s1 (sv, w')"
      unfolding sv
    proof (rule advances_elsewhere)
      fix i c assume "Find (registry sv) i = Some c"
      then have live: "get (conn_fd c) \<in> opened N w" by (rule registered_open(1) [OF acc])
      show "received N (get (conn_fd c)) w' = received N (get (conn_fd c)) w \<and> wire N (get (conn_fd c)) w' = wire N (get (conn_fd c)) w"
      proof (cases a)
        case (Inl e)
        with obs show ?thesis by (simp add: same_net_def)
      next
        case (Inr fd)
        with obs live have "get (conn_fd c) \<noteq> fd" by auto
        with obs Inr show ?thesis by simp
      qed
    qed simp_all
    then have step: "advances N s (sv, w')" using advances_trans s1(2) by blast
    have "moved N base cfg s (sv, w')" if "a = Inl e" for e
      using that obs s1(1) sv step by (auto simp: moved_def framed_def same_net_def intro: accounts_opened)
    with step a sv show "wp (andthen (syscall (sys_accept K lfd AcceptNonblockCloexec)) (\<lambda>r.
         case r of
           Inl e \<Rightarrow>
             if e = EINTR then ret (Inl ())
             else if IsWouldBlock e then ret (Inr default_UniqueFd)
             else throw (SyscallError ''accept4'' e)
         | Inr fd \<Rightarrow> ret (Inr (new_UniqueFd fd))))
       (\<lambda>y s'. case y of Inl x' \<Rightarrow> moved N base cfg s s' | Inr client \<Rightarrow> advances N s s') (\<lambda>_. advances N s) s1"
      by (cases a) (simp_all add: wp_eqs)
  qed
  then show ?thesis by (cases r) simp_all
qed

lemma refuse_advances:
  assumes laws: "net_laws K N" and s: "framed_client N base cfg client s" "is_valid client"
    and run: "close_fd K client s = Some (r, s')"
  shows "advances N s s'"
proof -
  obtain sv w where sv: "s = (sv, w)" by (cases s)
  have acc: "accounts N (insert (get client) base) (registry sv) w" using s sv by (simp add: framed_client_def framed_def)
  have "destroy client = [get client]" using s(2) by (simp add: destroy_def reset_def is_valid_def get_def)
  then have s': "s' = (sv, sys_close K (get client) w)"
    using run sv by (simp add: close_fd_def syscall_def on_world_def act_def close_all_def)
  have "received N x (sys_close K (get client) w) = received N x w \<and> wire N x (sys_close K (get client) w) = wire N x w"
    if "x \<noteq> get client" for x
    using net_lawsD(11) [OF laws] that unfolding close_observed_def by blast
  with registered_open(2) [OF acc] show ?thesis
    unfolding s' sv by (intro advances_elsewhere) auto
qed

lemma add_advances:
  assumes laws: "net_laws K N" and acc: "accounts N (insert (get fd) base) (registry sv) w" and valid: "is_valid fd"
    and add: "Add K fd (registry sv) w = (a, rg, w1)"
  shows "advances N (sv, w) (sv\<lparr>registry := rg\<rparr>, w1)"
proof (rule advances_elsewhere)
  have destroy: "destroy fd = [get fd]" using valid by (simp add: destroy_def reset_def is_valid_def get_def)
  show "received N (get (conn_fd c)) w1 = received N (get (conn_fd c)) w \<and> wire N (get (conn_fd c)) w1 = wire N (get (conn_fd c)) w"
    if c: "Find (registry sv) i = Some c" for i c
  proof -
    have other: "get (conn_fd c) \<noteq> get fd" using registered_open(2) [OF acc c] by auto
    have "received N x (sys_close K (get fd) v) = received N x v" "wire N x (sys_close K (get fd) v) = wire N x v"
      if "x \<noteq> get fd" for x v
      using net_lawsD(11) [OF laws] that unfolding close_observed_def by blast+
    moreover have "same_net N w w2" if "SetNonBlocking K (get fd) w = (x, w2)" for x w2
      using SetNonBlocking_quiet(1) [OF laws that] .
    ultimately show ?thesis
      using add valid other unfolding Add_def destroy close_all_def
      by (auto simp: Let_def same_net_def split: if_splits prod.splits sum.splits)
  qed
  have le: "id_value (next_id (registry sv)) \<le> id_value (next_id (registry sv)) + 1"
    if "id_value (next_id (registry sv)) \<noteq> UINT64_MAX"
    using below_incr [OF that order_refl] by (rule less_imp_le)
  show "id_value (next_id (registry sv)) \<le> id_value (next_id (registry (sv\<lparr>registry := rg\<rparr>)))"
    using add valid le unfolding Add_def by (auto simp: Let_def split: if_splits prod.splits sum.splits)
  show "Find (registry (sv\<lparr>registry := rg\<rparr>)) i = Find (registry sv) i" if "id_value i < id_value (next_id (registry sv))" for i
    using add valid that unfolding Add_def by (auto simp: Let_def Find_def split: if_splits prod.splits sum.splits)
qed

lemma register_advances:
  assumes laws: "net_laws K N" and s: "framed_client N base cfg client s" "is_valid client"
    and run: "register_connection K client s = Some (r, s')"
  shows "advances N s s'"
proof -
  obtain sv w where sv: "s = (sv, w)" by (cases s)
  obtain a rg w1 where add: "Add K client (registry sv) w = (a, rg, w1)" by (metis surj_pair)
  have acc: "accounts N (insert (get client) base) (registry sv) w" using s sv by (simp add: framed_client_def framed_def)
  let ?s1 = "(sv\<lparr>registry := rg\<rparr>, w1)"
  have first: "advances N s ?s1" unfolding sv by (rule add_advances [OF laws acc s(2) add])
  have "reg_limits rg = reg_limits (registry sv)"
    using add by (auto simp: Add_def Let_def split: if_splits prod.splits sum.splits)
  then have start: "framed N base cfg ?s1"
    using s sv accounts_add [OF laws _ _ _ add, of base] by (simp add: framed_client_def framed_def config_registry)
  have rest: "preserves (moved N base cfg s0)
    (andthen (server (\<lambda>sv. Find (registry sv) i)) (\<lambda>connection.
       case connection of
         None \<Rightarrow> throw (RuntimeError ''registered connection cannot be found'')
       | Some c \<Rightarrow>
           andthen (server (find_flow i)) (\<lambda>flow.
             if flow \<noteq> None then throw (RuntimeError ''connection flow already exists'')
             else
               seq (set_server (put_flow i new_ConnectionFlow))
                 (andthen (server (\<lambda>sv. get (epoll sv))) (\<lambda>ep.
                    catch
                      (seq (EpollCtl K ep EPOLL_CTL_ADD (get (conn_fd c))
                              (Some (ConnectionEvent i True (has_pending_output c)))
                              ''epoll_ctl(ADD connection)'')
                         (set_flow i (\<lambda>fl. fl\<lparr>registered_with_epoll := True\<rparr>)))
                      (\<lambda>e. seq (set_server (erase_flow i))
                             (andthen (remove_from_registry K i) (\<lambda>removed. throw e))))))))" for i s0
    by (intro preserve_intros laws; simp)
  from run show ?thesis
    unfolding register_connection_def
  proof (cases rule: andthen_cases)
    case (threw e)
    with add first sv show ?thesis by (simp add: add_to_registry_def)
  next
    case (went_on i s1)
    with add sv have s1: "s1 = ?s1" by (simp add: add_to_registry_def)
    then have "moved N base cfg ?s1 s1" by (simp add: moved_def start)
    with went_on(2) preservesD [OF rest [of ?s1 i], of s1 r s'] have "moved N base cfg ?s1 s'" by blast
    then have "advances N ?s1 s'" by (simp only: moved_def)
    with first show ?thesis by (rule advances_trans)
  qed
qed

lemma moved_accepting [preserve_intros]:
  assumes laws: "net_laws K N"
  shows "preserves (moved N base cfg s0) (accept_connections K n)"
proof (induction n arbitrary: s0)
  case (Suc n)
  let ?one = "\<lambda>client. if \<not> is_valid client then ret ()
       else
         andthen (server (\<lambda>sv. registry_size (registry sv) \<ge> max_connections sv)) (\<lambda>full.
           seq (if full then close_fd K client else register_connection K client) (accept_connections K n))"
  have one: "advances N s s'" if client: "framed_client N base cfg client s" and run: "?one client s = Some (r, s')"
    for client s r s'
  proof (cases "is_valid client")
    case False
    with run show ?thesis by (simp add: ret_def)
  next
    case True
    with run obtain b where
      "andthen (if b then close_fd K client else register_connection K client) (\<lambda>_. accept_connections K n) s = Some (r, s')"
      by (auto simp: andthen_server seq_def [of "if b then p else q" for b p q])
    then show ?thesis
    proof (cases rule: andthen_cases)
      case (threw e)
      with client True show ?thesis
        by (auto intro: refuse_advances [OF laws] register_advances [OF laws] split: if_splits)
    next
      case (went_on x s1)
      with client True have s1: "framed N base cfg s1" "advances N s s1"
        by (auto intro: framed_refuse [OF laws] framed_register [OF laws] refuse_advances [OF laws] register_advances [OF laws]
            split: if_splits)
      have "moved N base cfg s1 s'" by (rule preservesD [OF Suc went_on(2)]) (simp add: moved_def s1)
      with s1(2) show ?thesis unfolding moved_def by (blast intro: advances_trans)
    qed
  qed
  have "advances N s s'" if "framed N base cfg s" "andthen (AcceptNonBlocking K fd) ?one s = Some (r, s')" for fd s r s'
    using that(2)
  proof (cases rule: andthen_cases)
    case (threw e)
    with accept_advances [OF laws that(1)] show ?thesis by blast
  next
    case (went_on client s1)
    have "framed_client N base cfg client s1" using framed_accept [OF laws that(1) went_on(1)] by simp
    from advances_trans [OF accept_advances [OF laws that(1) went_on(1)] one [OF this went_on(2)]] show ?thesis .
  qed
  then show ?case
    by (intro moved_by [OF framed_accepting [OF laws]]) (simp add: andthen_server)
qed (simp add: preserve_intros)

lemma dispatch_advances:
  assumes laws: "net_laws K N" and "framed N base cfg s" "dispatch K event s = Some (r, s')"
  shows "advances N s s'"
proof -
  have "preserves (moved N base cfg s0) (dispatch K event)" for s0
    unfolding dispatch_def HandleListenerEvent_def Let_def by (intro preserve_intros laws)
  from preservesD [OF this assms(3), of s] show ?thesis using assms(2) by (simp add: moved_def)
qed

section \<open>The system\<close>

lemma system_step_advances:
  assumes laws: "net_laws K N" and step: "system_step h K N a s s'" and s: "framed N base cfg s"
  shows "advances N s s'"
  using step
proof cases
  case (event ev)
  then show ?thesis using dispatch_advances [OF laws s] by blast
next
  case (poll ep n t w r w' sv)
  then show ?thesis using net_quiet(3) [OF laws poll(4)] by (auto intro: advances_quiet)
next
  case (wakeup b sv p w)
  then show ?thesis by (auto intro: advances_quiet)
next
  case (work k sv p w)
  let ?s = "(sv\<lparr>worker_pool := p\<rparr>, w)"
  have store: "preserves (moved N base cfg ?s) (for_each (StoreCompletedWork K) rs)" for rs
    by (intro preserve_intros laws)
  have "framed N base cfg ?s" using s work(2) by (simp add: framed_def)
  then have "advances N ?s s'" using preservesD [OF store work(4)] by (simp add: moved_def)
  moreover have "advances N s ?s" unfolding work(2) by (rule advances_quiet) simp_all
  ultimately show ?thesis by (metis advances_trans)
next
  case stop
  have "preserves (moved N base cfg s) (Stop K)" by (intro preserve_intros laws)
  from preservesD [OF this stop(2)] show ?thesis using s by (simp add: moved_def)
next
  case (elsewhere w w' sv)
  then show ?thesis by (auto intro: advances_quiet)
qed

section \<open>Refinement\<close>

text \<open>What a reachable server has sent or is about to send on a connection, and when this is all of it.\<close>

lemma reachable_answered:
  assumes "net_laws K N" "setup_laws K N sm" "reachable K N h options w0 (sv, w)" "Find (registry sv) i = Some c"
  obtains ms n where "answered h N c w ms n"
    "length ms - n \<le> opt_max_in_flight_requests_per_connection options"
    "results_for i (outstanding h (worker_pool sv) (completed_work sv)) = {#} \<Longrightarrow> n = length ms"
proof -
  note inv = reachable_inv [OF assms(1-3)]
  from Inv_flow [OF inv(1)] assms(4) obtain fl where "find_flow i sv = Some fl" by (metis not_Some_eq)
  with InvD(3) [OF inv(1), of i c fl] assms(4) have s: "session_at h N [] [] sv w i c fl" "settled c fl" by simp_all
  from session_answered [OF s(1), unfolded append_Nil] obtain n where
    n: "flow_tracks h (max_in_flight_requests_per_connection sv) (items_of i (accepted (worker_pool sv)))
        (results_for i (outstanding h (worker_pool sv) (completed_work sv))) n fl"
      "answered h N c w (map wi_request (items_of i (accepted (worker_pool sv)))) n" .
  have "n = length (items_of i (accepted (worker_pool sv)))"
    if "results_for i (outstanding h (worker_pool sv) (completed_work sv)) = {#}"
    using next_outstanding [OF n(1)] tracksD(3) [OF n(1)] s(2) that by (fastforce simp: settled_def)
  with n(2) tracksD(4) [OF n(1)] inv(3) show thesis by (auto intro!: that)
qed

text \<open>The service that a state of the server stands for.\<close>

definition service_of :: "'w net \<Rightarrow> EpollEchoServer \<times> 'w \<Rightarrow> service" where
  "service_of N = (\<lambda>(sv, w).
     \<lparr>used_ids = {i. id_value i < id_value (next_id (registry sv))},
      sessions = (\<lambda>i. map_option (\<lambda>c. \<lparr>heard = received N (get (conn_fd c)) w, said = wire N (get (conn_fd c)) w\<rparr>)
        (Find (registry sv) i))\<rparr>)"

text \<open>Before the first connection: id 0 is never given out.\<close>

definition new_service :: service where
  "new_service = \<lparr>used_ids = {\<lparr>id_value = 0\<rparr>}, sessions = Map.empty\<rparr>"

lemma answered_said:
  assumes "answered h N c w ms n"
  shows "prefix (wire N (get (conn_fd c)) w) (answers h (received N (get (conn_fd c)) w))"
proof -
  have "answers h (received N (get (conn_fd c)) w) =
      wire N (get (conn_fd c)) w @ pending c @ concat (map (\<lambda>m. frame_of (respond h m)) (drop n ms))"
    using assms unfolding answers_def answered_def
    by (metis append.assoc append_take_drop_id concat_append fst_conv map_append)
  then show ?thesis by simp
qed

lemma service_known: "reg_inv (registry sv) \<Longrightarrow> sessions (service_of N (sv, w)) i = Some x \<Longrightarrow> i \<in> used_ids (service_of N (sv, w))"
  by (auto simp: service_of_def reg_inv_def entry_ok_def Find_def)

lemma system_step_refines:
  assumes laws: "net_laws K N" "setup_laws K N sm" and s: "reachable K N h options w0 s" and step: "system_step h K N a s s'"
  shows "service_steps h (service_of N s) (service_of N s')"
proof (rule service_goes)
  obtain sv w sv' w' where sv: "s = (sv, w)" "s' = (sv', w')" by (metis surj_pair)
  have s': "reachable K N h options w0 s'" by (rule reachable_run [OF s system_run_single [OF step]])
  note inv = reachable_inv [OF laws s [unfolded sv]] and inv' = reachable_inv [OF laws s' [unfolded sv]]
  have reg: "reg_inv (registry sv)" "reg_inv (registry sv')"
    using InvD(1) [OF inv(1)] InvD(1) [OF inv'(1)] by (simp_all add: core_def)
  show "i \<in> used_ids (service_of N s)" if "sessions (service_of N s) i = Some x" for i x
    using service_known [OF reg(1)] that unfolding sv .
  have adv: "advances N (sv, w) (sv', w')"
    using system_step_advances [OF laws(1) step, of _ "config sv"] inv(4) by (auto simp: sv framed_def)
  show "session_goes h i (service_of N s) (service_of N s')" for i
  proof (cases "Find (registry sv') i")
    case None
    then show ?thesis using adv by (auto simp: sv session_goes_def service_of_def advances_def)
  next
    case (Some c')
    obtain ms n where "answered h N c' w' ms n"
      using reachable_answered [OF laws s' [unfolded sv] Some] by blast
    then have said: "prefix (wire N (get (conn_fd c')) w') (answers h (received N (get (conn_fd c')) w'))"
      by (rule answered_said)
    have used: "id_value i < id_value (next_id (registry sv'))"
      using reg(2) Some by (auto simp: reg_inv_def entry_ok_def Find_def)
    show ?thesis
    proof (cases "id_value i < id_value (next_id (registry sv))")
      case True
      with adv Some obtain c where "Find (registry sv) i = Some c" "get (conn_fd c') = get (conn_fd c)"
        "prefix (received N (get (conn_fd c)) w) (received N (get (conn_fd c)) w')"
        "prefix (wire N (get (conn_fd c)) w) (wire N (get (conn_fd c)) w')"
        by (auto simp: advances_def)
      with Some said used show ?thesis by (simp add: sv session_goes_def service_of_def)
    next
      case False
      then have "Find (registry sv) i = None"
        using reg(1) by (cases "Find (registry sv) i") (auto simp: reg_inv_def entry_ok_def Find_def)
      with False Some said used show ?thesis by (simp add: sv session_goes_def service_of_def)
    qed
  qed
qed

lemma system_run_refines:
  assumes laws: "net_laws K N" "setup_laws K N sm"
  shows "system_run h K N as s s' \<Longrightarrow> reachable K N h options w0 s \<Longrightarrow>
    service_steps h (service_of N s) (service_of N s')"
proof (induction rule: system_run.induct)
  case (more a s s1 as s')
  have "reachable K N h options w0 s1" by (rule reachable_run [OF more.prems system_run_single [OF more.hyps(1)]])
  with more system_step_refines [OF laws more.prems more.hyps(1)] show ?case by (meson rtranclp_trans)
qed simp

lemma reachable_refines:
  assumes laws: "net_laws K N" "setup_laws K N sm" and "reachable K N h options w0 s"
  shows "service_steps h new_service (service_of N s)"
proof -
  obtain spawn p sv1 w1 as where opt: "opt_handler options = Some h" "opt_max_in_flight_requests_per_connection options \<le> SIZE_MAX"
    and new: "new_EpollEchoServer K spawn p options w0 = Some (Inr sv1, w1)" and run: "system_run h K N as (sv1, w1) s"
    using assms(3) unfolding reachable_def by blast
  have "fresh_server options sv1"
    using wpD(1) [OF new_EpollEchoServer_outcome [OF laws(2), of "opened N w0" "sm w0"] new] by (simp add: at_def)
  moreover have "id_value i < 1 \<longleftrightarrow> i = \<lparr>id_value = 0\<rparr>" for i :: ConnectionId
    by (cases i) (simp add: word_less_1)
  ultimately have "service_of N (sv1, w1) = new_service"
    by (simp add: service_of_def new_service_def fresh_server_def new_ConnectionRegistry_def Find_def fun_eq_iff)
  moreover have "reachable K N h options w0 (sv1, w1)"
    unfolding reachable_def using opt new system_run.finish by blast
  ultimately show ?thesis using system_run_refines [OF laws run] by metis
qed

end
