(* ===== verification/Spec2Isabelle.thy ===== *)
theory Spec2Isabelle
  imports Load_Threads Server_Refinement
begin

text \<open>
  PulseCore is a TCP request/response engine: clients send length-prefixed frames, a single-threaded
  epoll reactor reads and writes them without blocking, a pool of worker threads computes the responses, and
  the reactor sends them back per connection in the order of the requests. Beside it there are a
  blocking baseline server, a client, and small command-line programs. This development models that code
  definition by definition and proves what makes it correct.

  \<^bold>\<open>Parts of the program and their theories\<close>

  \<^item> Frames (\<^verbatim>\<open>protocol/codec\<close>): \<^verbatim>\<open>Codec\<close> has the constants, \<open>EncodeMessage\<close> and \<open>TryDecodeFrame\<close> on byte lists, with
    machine words for the header fields; \<^verbatim>\<open>Framing\<close> states what any framing must satisfy as a
    locale, with the reference parser \<open>parse_stream\<close>, and \<^verbatim>\<open>Codec\<close> interprets it. \<^verbatim>\<open>Frame_Decoder\<close> has the incremental decoder
    with its buffer and offset, and shows that it is a byte queue and that chunk boundaries do not matter.
  \<^item> Request handling (\<^verbatim>\<open>core/handler\<close>): \<^verbatim>\<open>Handler\<close>, total on every request, with the limits of work requests.
  \<^item> Descriptors (\<^verbatim>\<open>common/unique_fd\<close>): \<^verbatim>\<open>Unique_Fd\<close>, a store of handles under every sequence of moves, resets and
    destructions.
  \<^item> Queue and workers (\<^verbatim>\<open>core/bounded_queue.hpp\<close>, \<^verbatim>\<open>network/worker_pool\<close>): \<^verbatim>\<open>Bounded_Queue\<close> has the critical sections and
    the interface of a bounded queue; \<^verbatim>\<open>Worker_Pool\<close> is a state machine whose steps are the atomic actions of single
    threads, notifications and spurious wake-ups included.
  \<^item> Connections (\<^verbatim>\<open>network/connection\<close>, \<^verbatim>\<open>network/connection_registry\<close>): \<^verbatim>\<open>Connection\<close> has the budgeted read and write loops
    and the output buffer, \<^verbatim>\<open>Connection_Registry\<close> the table of ids with its interface.
  \<^item> The reactor (\<^verbatim>\<open>network/epoll_echo_server\<close>): \<^verbatim>\<open>Echo_Server\<close> has one program per member function, \<^verbatim>\<open>Server_Setup\<close> the
    constructor with the unwinding of a failed construction, and the destructor.
  \<^item> The blocking baseline (\<^verbatim>\<open>network/blocking_tcp\<close>): \<^verbatim>\<open>Blocking_Tcp\<close> has the server that serves one client at a time and the client
    call, and shows what passes on their connections, that nothing stays open and that both ends agree.
  \<^item> The programs (\<^verbatim>\<open>apps/client\<close>, \<^verbatim>\<open>apps/server\<close>, \<^verbatim>\<open>apps/epoll_server\<close>): \<^verbatim>\<open>Command_Line\<close> has the parsers of the arguments over
    \<^verbatim>\<open>std::stoul\<close>, the printed text and the main functions, with the standard streams as strings. It shows which texts are
    numbers, that accepted arguments are never refused by a later stage, and that every way out of a program
    closes what it opened.
  \<^item> The load generator (\<^verbatim>\<open>apps/benchmark\<close>): \<^verbatim>\<open>Load_Generator\<close> has its arguments, the requests with the responses it expects, the
    loop of a client thread and the percentiles, with time as a parameter. It shows that the threads write disjoint
    parts of the shared measurements and that the expected responses are the handler's. \<^verbatim>\<open>Load_Threads\<close> has the main thread, the
    client threads with their start barrier, \<^verbatim>\<open>ServerThread\<close>, the report and the exits of the program, as a state machine whose
    steps are the atomic actions of single threads. It shows that the clients start together, that every run of the threads is
    bounded and where it can stop, what a printed report implies, how an exception of the server's thread can get lost, and that a
    server that ends while a client waits for it leaves the program hanging.

  The state of each class is a record with the source's members; pointers into the registry are
  lookups by id, and a dangling pointer makes a program not return, so that the theorems that handlers
  return exclude it. Exceptions are values of the sum type, and every \<^verbatim>\<open>throw\<close> of the source is a branch.

  \<^bold>\<open>Programs and the operating system\<close>

  The operating system is not part of the repository: \<^verbatim>\<open>Kernel\<close> has it as a record of functions over an
  abstract system state, which every definition that makes a system call takes as its first argument. What
  is documented of the calls is stated as predicates over that record (\<open>recv_takes_stream\<close>, \<open>send_extends_stream\<close>,
  the laws in \<open>net_laws\<close> and \<open>setup_laws\<close>), which are hypotheses of the theorems; \<^verbatim>\<open>Scripted_Net\<close> shows that a concrete
  scripted system satisfies all of them, and \<^verbatim>\<open>Sample_Run\<close> runs the server on it. Loops are \<open>iterate\<close> (\<^verbatim>\<open>Loops\<close>), a
  partial function into options, so that a loop that does not return is \<open>None\<close>; there is no fuel. \<^verbatim>\<open>Effects\<close> has
  the programs (state, exceptions, loops), their weakest preconditions, which demand that a program
  returns, a calculus of predicates that a program keeps even when it throws, and one of the exceptions that can
  leave it. Retry loops return because each
  interruption by a signal uses up some \<open>patience\<close>; the event loop itself is not claimed to return unless
  it is stopped. A system call is a total function, so that \<open>returns\<close> means: in an execution in which
  every system call comes back; a blocking call that never does is modelled in one place, the client threads of the load
  generator, where the parameter \<open>unblocked\<close> says when their calls come back. The bytes that a peer is going to send are a list (\<open>inbound\<close>), so that serving a client of the
  blocking server ends.

  \<^bold>\<open>What is shown about the reactor\<close>

  \<^verbatim>\<open>Session\<close> relates the counters and the table of early responses of one connection to the history of its
  requests, with 64-bit sequence numbers that wrap around. \<^verbatim>\<open>Echo_Server_Invariant\<close> and \<^verbatim>\<open>Echo_Server_Handlers\<close> show that
  every handler returns and keeps the invariant built on it; \<^verbatim>\<open>Server_Frame\<close> that configuration and open descriptors stay
  accounted for on every path, exceptions included. \<^verbatim>\<open>Server_System\<close> is the server, its workers and other threads
  as one state machine, \<open>reachable\<close> its states from a constructed server; \<^verbatim>\<open>Server_Progress\<close> shows that answers arrive and
  that a stopped loop closes everything; \<^verbatim>\<open>Server_Stop\<close> that a requested stop is never lost. The properties below are about all
  reachable states. Two of them compare the server with something simpler: \<^verbatim>\<open>Service\<close> specifies it as a service that keeps one
  session per client, and \<^verbatim>\<open>Server_Refinement\<close> shows that every step of the server is a sequence of steps of that service; and
  the blocking server, which exists as the simple reference for the reactor, sends the same responses on the same bytes.

  \<^bold>\<open>Granularity\<close>

  A handler of the reactor is one step: the workers touch only the queue and the completion list, both
  under a mutex and read or written once by a handler's critical section, so that no interleaving inside a handler
  can be observed, with the exception of the queue being shorter when \<^verbatim>\<open>SubmitWork\<close> pushes several requests, which only
  makes a push succeed more often. In \<^verbatim>\<open>Run\<close> the other threads act between two rounds of the loop; their activity is the
  parameter \<open>others\<close>. In the load generator \<^verbatim>\<open>Run\<close> and the part of a client thread behind the barrier are one step each. The
  latter is possible only when the calls of the client come back, given where the server's thread is and what it has left; which
  states of the system the client then meets is part of the parameter \<open>unblocked\<close>, because the other threads use the system too.

  \<^bold>\<open>Not modelled\<close>

  Memory allocation failures (with them \<^verbatim>\<open>std::length_error\<close> of the vectors of the load generator for huge
  counts), the abnormal end of the load generator's process by \<^verbatim>\<open>std::terminate\<close> beyond the state in which it is called,
  failures of the standard output streams, the branch of the blocking code for platforms with
  \<^verbatim>\<open>SO_NOSIGPIPE\<close>, the relaxed memory order of the stop flag (it is one boolean that is only ever set),
  and the fairness of the scheduler (progress is stated as the existence of a run of the workers, and for the load generator
  as the bound on its runs). Of the load generator the floating-point operations, the clock and the formatting of floating-point
  numbers are parameters. The tests are not modelled, since they exercise the library.
\<close>

section \<open>The server as a whole\<close>

text \<open>
  C1. End to end, responses are in the order of the requests. In every state that a constructed server
  can reach by handling events (with any flags, in any order), with its workers running, polling and being
  stopped in any interleaving, each live connection satisfies: the requests \<open>ms\<close> are exactly the
  messages that the reference parser finds in the bytes received from that peer, and the bytes sent to it
  together with those still pending are exactly the encoded responses to the first \<open>n\<close> of them, in
  the order of the requests; at most the configured number of requests is in flight.
\<close>

theorem responses_follow_requests:
  assumes "net_laws K N" "setup_laws K N sm" "reachable K N h options w0 (sv, w)" "Find (registry sv) i = Some c"
  shows "\<exists>ms n. answered h N c w ms n \<and>
    length ms - n \<le> opt_max_in_flight_requests_per_connection options"
  using reachable_answered [OF assms] by blast

theorem responses_follow_requests_witness:
  "received script_net 7 submitted_world = sample_frame \<and>
   (\<exists>ms n. answered sample_handler script_net accepted_connection submitted_world ms n \<and>
      length ms - n \<le> opt_max_in_flight_requests_per_connection sample_options)"
  using responses_follow_requests [OF scripted_net_laws scripted_setup_laws sample_submitted_reachable sample_submitted(1)]
  by (simp add: submitted_world_def read_world_def)

text \<open>
  C3. Equivalence with the blocking baseline. Take any connection of a server with the default handler in any
  reachable state, and a run of the blocking server's \<open>ServeClient\<close> that read the same bytes from a fresh connection
  and ended normally. What the reactor has sent, with what it has buffered to send, is a prefix of what the
  blocking server sent, and the same bytes as soon as no result of the workers is outstanding for the
  connection: the reads that were split, the order in which the workers finished and the writes that were cut short leave no trace.
\<close>

theorem reactor_agrees_with_blocking_server:
  assumes "net_laws K N" "setup_laws K N sm"
    and "reachable K N (\<lambda>m. Inr (HandleOwnedRequest m)) options w0 (sv, w)" "Find (registry sv) i = Some c"
    and "net_laws Kb Nb" "send_keeps_inbound Kb Nb" "wire Nb fd v = []" "received Nb fd v = []"
    and "ServeClient Kb fd v = Some (Inr (), v')" "received Nb fd v' = received N (get (conn_fd c)) w"
  shows "prefix (wire N (get (conn_fd c)) w @ pending c) (wire Nb fd v') \<and>
    (results_for i (outstanding (\<lambda>m. Inr (HandleOwnedRequest m)) (worker_pool sv) (completed_work sv)) = {#} \<longrightarrow>
       wire N (get (conn_fd c)) w @ pending c = wire Nb fd v')"
proof -
  let ?h = "\<lambda>m. Inr (HandleOwnedRequest m)"
  obtain ms n where reactor: "answered ?h N c w ms n"
    "results_for i (outstanding ?h (worker_pool sv) (completed_work sv)) = {#} \<Longrightarrow> n = length ms"
    using reachable_answered [OF assms(1-4)] by blast
  have "blocking_session Nb fd None v'"
    using served_session [OF wpD(1) [OF ServeClient_serves [OF assms(5,6)] assms(9)] assms(7,8)] .
  with reactor(1) assms(10) have blocking: "wire Nb fd v' = responses ms"
    by (auto simp: blocking_session_def answered_def)
  have "frame_of (respond ?h m) = frame_of (HandleRequest m)" for m
    by (simp add: respond_def HandleRequest_eq)
  then have "wire N (get (conn_fd c)) w @ pending c = responses (take n ms)"
    using reactor(1) by (simp add: answered_def responses_def)
  moreover have "prefix (responses (take n ms)) (responses ms)"
    by (metis append_take_drop_id concat_append map_append prefixI responses_def)
  ultimately show ?thesis
    using reactor(2) by (auto simp: blocking)
qed

theorem reactor_agrees_with_blocking_server_witness:
  "ServeClient scripted 3 server_world = Some (Inr (), server_finished) \<and>
   prefix (wire script_net 7 submitted_world @ pending accepted_connection) (wire script_net 3 server_finished)"
proof -
  have "wire script_net 3 server_world = []" "received script_net 3 server_world = []"
    "received script_net 3 server_finished = received script_net (get (conn_fd accepted_connection)) submitted_world"
    "get (conn_fd accepted_connection) = 7"
    by (simp_all add: serving_worlds script_wire_def submitted_world_def read_world_def accepted_connection_def
        new_Connection_def new_UniqueFd_def get_def)
  from reactor_agrees_with_blocking_server [OF scripted_net_laws scripted_setup_laws
      sample_submitted_reachable [unfolded sample_handler_def] sample_submitted(1) scripted_net_laws scripted_blocking_laws(1)
      this(1,2) server_run this(3)] this(4) server_run
  show ?thesis by simp
qed

text \<open>
  C2. The server implements its specification, a service that keeps one session per client: a session begins under an id
  that was never used before, hears bytes, says bytes as long as they continue the responses to the messages
  heard, and ends. The state of a constructed server is reached by steps of the service from the
  service without sessions, and every step of the server, its workers or another thread is a sequence of
  steps of the service. So no received or sent byte is ever taken back, no response is sent early, and no id is reused.
\<close>

theorem server_refines_service:
  assumes "net_laws K N" "setup_laws K N sm" "reachable K N h options w0 s"
  shows "service_steps h new_service (service_of N s) \<and>
    (\<forall>a s'. system_step h K N a s s' \<longrightarrow> service_steps h (service_of N s) (service_of N s'))"
  using reachable_refines [OF assms] system_step_refines [OF assms] by blast

theorem server_refines_service_witness:
  "service_steps sample_handler new_service (service_of script_net (submitted_server, submitted_world)) \<and>
   sessions (service_of script_net (submitted_server, submitted_world)) \<lparr>id_value = 1\<rparr> =
     Some \<lparr>heard = sample_frame, said = []\<rparr>"
proof -
  have "received script_net 7 submitted_world = sample_frame" "wire script_net 7 submitted_world = []"
    "get (conn_fd accepted_connection) = 7"
    by (simp_all add: submitted_world_def read_world_def world_defs script_wire_def accepted_connection_def
        new_Connection_def new_UniqueFd_def get_def)
  with server_refines_service [OF scripted_net_laws scripted_setup_laws sample_submitted_reachable] show ?thesis
    by (simp add: service_of_def sample_submitted(1))
qed

text \<open>
  C4. Progress. From every reachable state the workers on their own can reach a state in which the next
  handling of their wake-up event either fails with an error of the operating system, or leaves every live
  connection with the responses to all requests received from it sent or pending.
\<close>

theorem requests_get_answered:
  assumes "net_laws K N" "setup_laws K N sm" "reachable K N h options w0 s"
  shows "\<exists>acts s1 r s2. system_run h K N acts s s1 \<and> list_all worker_action acts \<and>
    dispatch K worker_wakeup_event s1 = Some (r, s2) \<and>
    (case r of
       Inl e \<Rightarrow> external e
     | Inr _ \<Rightarrow> \<forall>i c. Find (registry (fst s2)) i = Some c \<longrightarrow> (\<exists>ms. answered h N c (snd s2) ms (length ms)))"
  using answers_arrive [OF assms(1)] reachable_inv(1) [OF assms(1,2)] assms(3) by (cases s) blast

theorem requests_get_answered_witness:
  "\<exists>acts s1 r s2. system_run sample_handler scripted script_net acts (submitted_server, submitted_world) s1 \<and>
    list_all worker_action acts \<and> dispatch scripted worker_wakeup_event s1 = Some (r, s2) \<and>
    (case r of
       Inl e \<Rightarrow> external e
     | Inr _ \<Rightarrow> \<forall>i c. Find (registry (fst s2)) i = Some c \<longrightarrow>
         (\<exists>ms. answered sample_handler script_net c (snd s2) ms (length ms)))"
  by (rule requests_get_answered [OF scripted_net_laws scripted_setup_laws sample_submitted_reachable])

text \<open>
  C5. Every event handler returns, for any event and in every reachable state: none of its loops runs
  for ever and no pointer into the registry dangles. When it throws, the cause is a failed system call, a
  short read of a wake-up descriptor or the exhausted id space, never a broken internal assumption; when it
  does not throw, the state it leaves is reachable.
\<close>

theorem handlers_return:
  assumes "net_laws K N" "setup_laws K N sm" "reachable K N h options w0 s"
  shows "\<exists>r s'. dispatch K event s = Some (r, s') \<and>
    (case r of Inl e \<Rightarrow> external e | Inr _ \<Rightarrow> reachable K N h options w0 s')"
proof -
  obtain sv w where s: "s = (sv, w)" by (cases s)
  note handled = dispatch_inv [OF assms(1) reachable_inv(1) [OF assms(1,2) assms(3) [unfolded s]], of event]
  obtain r s' where r: "dispatch K event s = Some (r, s')" using wp_returns [OF handled] s by blast
  have "case r of Inl e \<Rightarrow> external e | Inr _ \<Rightarrow> reachable K N h options w0 s'"
  proof (cases r)
    case (Inl e)
    with wpD(2) [OF handled] r s show ?thesis by simp
  next
    case (Inr u)
    with r have "system_step h K N (Event event) s s'" by (simp add: system_step.event)
    with Inr assms(3) show ?thesis by (simp add: reachable_run [OF _ system_run_single])
  qed
  with r show ?thesis by blast
qed

theorem handlers_return_witness:
  "\<exists>r s'. dispatch scripted \<lparr>ev_events = EPOLLIN, ev_data = 1\<rparr> (accepted_server, accepted_world) = Some (r, s') \<and>
    (case r of Inl e \<Rightarrow> external e
     | Inr _ \<Rightarrow> reachable scripted script_net sample_handler sample_options sample_world s')"
  by (rule handlers_return [OF scripted_net_laws scripted_setup_laws sample_reachable(2)])

text \<open>
  C9. Limits: in every reachable state there are at most as many connections as configured, and
  each of them buffers at most the configured number of bytes in either direction.
\<close>

theorem limits_hold:
  assumes "net_laws K N" "setup_laws K N sm" "reachable K N h options w0 (sv, w)"
  shows "live_connection_count sv \<le> opt_max_connections options \<and>
    (\<forall>i c. Find (registry sv) i = Some c \<longrightarrow>
       length (pending c) \<le> max_output_buffer (opt_connection_limits options) \<and>
       length (unread (decoder c)) \<le> max_input_buffer (opt_connection_limits options))"
proof -
  note inv = reachable_inv [OF assms]
  have core: "core sv" using InvD(1) [OF inv(1)] .
  have "length (pending c) \<le> max_output_buffer (opt_connection_limits options) \<and>
      length (unread (decoder c)) \<le> max_input_buffer (opt_connection_limits options)"
    if "Find (registry sv) i = Some c" for i c
  proof -
    have "entry_ok (registry sv) (id_value i) c"
      using core that by (simp add: core_def reg_inv_def Find_def)
    with inv(6) show ?thesis
      by (auto simp: entry_ok_def in_inv_def out_inv_def pending_def)
  qed
  with core inv(2) show ?thesis
    by (simp add: core_def live_connection_count_def)
qed

theorem limits_hold_witness:
  "live_connection_count accepted_server \<le> opt_max_connections sample_options"
  using limits_hold [OF scripted_net_laws scripted_setup_laws sample_reachable(2)] by simp

text \<open>
  C8. No connection is forgotten: in every reachable state a connection that epoll does not watch
  has been closed by its peer, has nothing left to write, and still waits for a result of
  the workers, whose arrival removes or re-registers it.
\<close>

theorem unwatched_connections_await_results:
  assumes "net_laws K N" "setup_laws K N sm" "reachable K N h options w0 (sv, w)"
    and "Find (registry sv) i = Some c" "find_flow i sv = Some fl" "\<not> registered_with_epoll fl"
  shows "close_after_flush fl \<and> pending c = [] \<and>
    results_for i (outstanding h (worker_pool sv) (completed_work sv)) \<noteq> {#}"
proof -
  note inv = reachable_inv(1) [OF assms(1-3)]
  have s: "session_at h N [] [] sv w i c fl" "settled c fl"
    using InvD(3) [OF inv, of i c fl] assms(4,5) by simp_all
  then obtain n where n: "flow_tracks h (max_in_flight_requests_per_connection sv)
      (items_of i (accepted (worker_pool sv)))
      (results_for i (outstanding h (worker_pool sv) (completed_work sv))) n fl"
    by (auto simp: session_def)
  have "n \<noteq> length (items_of i (accepted (worker_pool sv)))"
    using tracksD(1,2) [OF n] s(2) assms(6) by (auto simp: settled_def)
  with tracksD(3) [OF n] next_outstanding [OF n] s(2) have
    "results_for i (outstanding h (worker_pool sv) (completed_work sv)) \<noteq> {#}"
    by (auto simp: settled_def)
  with s(2) assms(6) show ?thesis by (auto simp: settled_def)
qed

theorem unwatched_connections_await_results_witness:
  "\<not> registered_with_epoll (new_ConnectionFlow\<lparr>next_request_sequence := 1, close_after_flush := True\<rparr>) \<and>
   results_for \<lparr>id_value = 1\<rparr>
     (outstanding sample_handler (worker_pool submitted_server) (completed_work submitted_server)) \<noteq> {#}"
  using unwatched_connections_await_results [OF scripted_net_laws scripted_setup_laws sample_submitted_reachable sample_submitted]
    sample_submitted(3) by simp

text \<open>
  C7. The event loop. When the other threads act as the state machine allows, then \<^verbatim>\<open>Run\<close> returns
  whenever a stop is pending at the test of its condition; and whenever it returns, it either threw an error
  of the operating system or has closed every connection, so that exactly the descriptors that
  were open before the server was built and the server's own are open.
\<close>

theorem run_closes_connections:
  assumes "net_laws K N" "setup_laws K N sm" "reachable K N h options w0 s" "acts_as_system h K N others"
  shows "(stop_requested (fst (others s)) \<longrightarrow> (\<exists>r s'. Run K others s = Some (r, s'))) \<and>
    (\<forall>r s'. Run K others s = Some (r, s') \<longrightarrow>
       (case r of Inl e \<Rightarrow> external e
        | Inr _ \<Rightarrow> live_connection_count (fst s') = 0 \<and> connection_flows (fst s') = [] \<and>
            opened N (snd s') = opened N w0 \<union> server_fds (fst s')))"
proof -
  obtain sv w where s: "s = (sv, w)" by (cases s)
  have inv: "server_inv h N s" using reachable_inv(1) [OF assms(1,2)] assms(3) s by simp
  have keep: "server_inv h N (others t)" if "server_inv h N t" for t
    using assms(4) that system_run_inv [OF assms(1)] unfolding acts_as_system_def by blast
  show ?thesis
    using Run_stops [where others = others, OF assms(1) keep inv] Run_closes [OF assms] by blast
qed

theorem run_closes_connections_witness:
  "\<exists>r s'. Run scripted (stopping scripted) (submitted_server, submitted_world) = Some (r, s') \<and>
    (case r of Inl e \<Rightarrow> external e
     | Inr _ \<Rightarrow> live_connection_count (fst s') = 0 \<and> connection_flows (fst s') = [] \<and>
         opened script_net (snd s') = opened script_net sample_world \<union> server_fds (fst s'))"
  using run_closes_connections [OF scripted_net_laws scripted_setup_laws sample_submitted_reachable stopping_acts]
    sample_stopping by blast

text \<open>
  C6. Descriptors: in every reachable state the open descriptors are exactly those that were open
  before the server was built, the server's own, and one for each registered connection, all different. No
  path through the handlers, with or without exceptions on the way, leaks a descriptor or closes a foreign one.
\<close>

theorem descriptors_accounted:
  assumes "net_laws K N" "setup_laws K N sm" "reachable K N h options w0 (sv, w)"
  shows "opened N w = opened N w0 \<union> server_fds sv \<union> set (fd_list (registry sv)) \<and>
    distinct (fd_list (registry sv)) \<and> server_fds sv \<inter> opened N w0 = {} \<and>
    (opened N w0 \<union> server_fds sv) \<inter> set (fd_list (registry sv)) = {}"
  using reachable_inv(4,5) [OF assms] by (simp add: accounts_def)

theorem descriptors_accounted_witness:
  "opened script_net submitted_world =
     opened script_net sample_world \<union> server_fds submitted_server \<union> set (fd_list (registry submitted_server)) \<and>
   fd_list (registry submitted_server) = [7]"
  using descriptors_accounted [OF scripted_net_laws scripted_setup_laws sample_submitted_reachable]
  by (simp add: fd_list_def submitted_server_def accepted_server_def accepted_connection_def new_Connection_def
      new_UniqueFd_def get_def)

text \<open>
  C10. Construction is all or nothing: the constructor returns, and when any of its steps throws
  (a system call, a budget of zero, a thread that cannot be created) every descriptor it had opened is closed
  and the signal mask is what it was; when it succeeds, the server is in its initial state with
  the given options, all of them positive, and owns exactly the descriptors that were opened, and the old
  signal mask is saved if shutdown signals are configured.
\<close>

theorem construction_all_or_nothing:
  assumes "setup_laws K N sm"
  shows "\<exists>r w'. new_EpollEchoServer K spawn p options w = Some (r, w') \<and>
    (case r of
       Inl e \<Rightarrow> opened N w' = opened N w \<and> sm w' = sm w
     | Inr sv \<Rightarrow> fresh_server options sv \<and> server_fds sv \<inter> opened N w = {} \<and>
         opened N w' = server_fds sv \<union> opened N w \<and> mask_saved sm (sm w) (signal_mask_state sv) w')"
proof -
  have start: "at N sm (opened N w) (sm w) w" by (simp add: at_def)
  note built = new_EpollEchoServer_outcome [OF assms start, of spawn p options]
  obtain r w' where r: "new_EpollEchoServer K spawn p options w = Some (r, w')"
    using wp_returns [OF built] by blast
  with wpD [OF built] show ?thesis by (cases r) (auto simp: at_def)
qed

theorem construction_all_or_nothing_witness:
  "\<exists>r w'. new_EpollEchoServer scripted (\<lambda>_. None) 0 sample_options
       (sample_world\<lparr>create_script := [None, None, None, None, None, Some ENOENT]\<rparr>) = Some (r, w') \<and>
    (case r of
       Inl e \<Rightarrow> opened script_net w' = opened script_net (sample_world\<lparr>create_script :=
           [None, None, None, None, None, Some ENOENT]\<rparr>) \<and>
         sig_mask w' = sig_mask (sample_world\<lparr>create_script := [None, None, None, None, None, Some ENOENT]\<rparr>)
     | Inr sv \<Rightarrow> fresh_server sample_options sv \<and>
         server_fds sv \<inter> opened script_net (sample_world\<lparr>create_script :=
           [None, None, None, None, None, Some ENOENT]\<rparr>) = {} \<and>
         opened script_net w' = server_fds sv \<union> opened script_net (sample_world\<lparr>create_script :=
           [None, None, None, None, None, Some ENOENT]\<rparr>) \<and>
         mask_saved sig_mask (sig_mask (sample_world\<lparr>create_script :=
           [None, None, None, None, None, Some ENOENT]\<rparr>)) (signal_mask_state sv) w')"
  by (rule construction_all_or_nothing [OF scripted_setup_laws])

text \<open>
  C11. Destruction releases everything: from any reachable state, whatever the worker threads
  still do to the completion list while they are joined, the destructor returns without throwing, closes every
  descriptor of the server and of the connections still registered and no other, and restores the
  signal mask it saved.
\<close>

theorem destruction_releases_everything:
  assumes "net_laws K N" "setup_laws K N sm" "reachable K N h options w0 (sv, w)" "leaves_descriptors N sm join"
  shows "\<exists>sv' w'. delete_EpollEchoServer K join (sv, w) = Some (Inr (), (sv', w')) \<and>
    opened N w' = opened N w0 \<and> sm w' = (if opt_shutdown_signals options \<noteq> [] then sm w0 else sm w)"
proof -
  note inv = reachable_inv [OF assms(1-3)]
  let ?m = "if opt_shutdown_signals options \<noteq> [] then sm w0 else sm w"
  have "mask_saved sm ?m (signal_mask_state sv) w"
    using inv(7,8) by (simp add: mask_saved_def)
  from delete_accounted [OF assms(2) net_lawsD(7) [OF assms(1)] assms(4) this inv(4,5)]
  obtain sv' w' where "delete_EpollEchoServer K join (sv, w) = Some (Inr (), (sv', w'))" "at N sm (opened N w0) ?m w'"
    by (elim wp_no_throw) auto
  then show ?thesis by (auto simp: at_def)
qed

theorem destruction_releases_everything_witness:
  "\<exists>sv' w'. delete_EpollEchoServer scripted (\<lambda>s. s) (submitted_server, submitted_world) = Some (Inr (), (sv', w')) \<and>
    opened script_net w' = {} \<and> sig_mask w' = []"
proof -
  have "leaves_descriptors script_net sig_mask (\<lambda>s. s)" by (simp add: leaves_descriptors_def)
  moreover have "opened script_net sample_world = {}" "sig_mask sample_world = []" "opt_shutdown_signals sample_options \<noteq> []"
    by (simp_all add: sample_world_def empty_script_def script_opened_def sample_options_def)
  ultimately show ?thesis
    using destruction_releases_everything [OF scripted_net_laws scripted_setup_laws sample_submitted_reachable] by fastforce
qed

end
